(* ===== verification/Prelude.thy ===== *)
theory Prelude
  imports Main "HOL-Library.Word"
begin

text \<open>
  Shared vocabulary of the development. Go's \<^verbatim>\<open>uint64\<close> is a 64-bit word, so \<open>+\<close>, \<open>-\<close> and
  \<open>*\<close> wrap as they do in Go; \<^verbatim>\<open>int64\<close> (and with it \<^verbatim>\<open>time.Duration\<close>) is an integer whose
  wrap-around is written out by \<open>to_i64\<close>. A call that returns \<^verbatim>\<open>(value, error)\<close> or panics is a
  value of \<open>'a result\<close>: \<open>Inr v\<close> is a normal return, \<open>Inl e\<close> an error or a panic. \<open>bindR\<close>
  is the \<^verbatim>\<open>if err != nil { return err }\<close> of the source, \<open>foldR\<close> a \<^verbatim>\<open>for ... range\<close> loop whose
  body may return early, \<open>idx\<close>, \<open>udiv\<close> and \<open>umod\<close> are slice indexing, division and remainder
  with the runtime panic that Go raises.
\<close>

section \<open>Machine integers\<close>

type_synonym u64 = "64 word"
type_synonym u8 = "8 word"

definition max_u64 :: u64 where
  "max_u64 = - 1"

definition to_i64 :: "int \<Rightarrow> int" where
  "to_i64 x = (x + 2 ^ 63) mod 2 ^ 64 - 2 ^ 63"

definition in_i64 :: "int \<Rightarrow> bool" where
  "in_i64 x \<longleftrightarrow> - (2 ^ 63) \<le> x \<and> x < 2 ^ 63"

text \<open>Go's integer division truncates towards zero.\<close>

definition quot_i64 :: "int \<Rightarrow> int \<Rightarrow> int" where
  "quot_i64 a b = to_i64 (sgn a * sgn b * (\<bar>a\<bar> div \<bar>b\<bar>))"

definition i64_of_u64 :: "u64 \<Rightarrow> int" where
  "i64_of_u64 x = to_i64 (uint x)"

definition u64_of_i64 :: "int \<Rightarrow> u64" where
  "u64_of_i64 x = word_of_int x"

section \<open>Errors, panics and early return\<close>

datatype error = Panic string | Err string | Wrap string error

type_synonym 'a result = "error + 'a"

fun is_panic :: "error \<Rightarrow> bool" where
  "is_panic (Panic s) = True"
| "is_panic (Err s) = False"
| "is_panic (Wrap s e) = is_panic e"

text \<open>\<^verbatim>\<open>errors.Is\<close>: a wrapped error matches its cause.\<close>

fun err_is :: "error \<Rightarrow> error \<Rightarrow> bool" where
  "err_is (Wrap s e) t = (Wrap s e = t \<or> err_is e t)"
| "err_is e t = (e = t)"

definition bindR :: "'a result \<Rightarrow> ('a \<Rightarrow> 'b result) \<Rightarrow> 'b result" where
  "bindR m f = (case m of Inl e \<Rightarrow> Inl e | Inr x \<Rightarrow> f x)"

text \<open>\<^verbatim>\<open>errors.Wrap(err, msg)\<close>; a panic is not an error value and passes unchanged.\<close>

definition wrapR :: "string \<Rightarrow> 'a result \<Rightarrow> 'a result" where
  "wrapR s m = (case m of Inl e \<Rightarrow> Inl (if is_panic e then e else Wrap s e) | Inr x \<Rightarrow> Inr x)"

definition guardR :: "bool \<Rightarrow> error \<Rightarrow> unit result" where
  "guardR b e = (if b then Inr () else Inl e)"

primrec foldR :: "('a \<Rightarrow> 's \<Rightarrow> 's result) \<Rightarrow> 'a list \<Rightarrow> 's \<Rightarrow> 's result" where
  "foldR f [] s = Inr s"
| "foldR f (x # xs) s = bindR (f x s) (foldR f xs)"

primrec mapR :: "('a \<Rightarrow> 'b result) \<Rightarrow> 'a list \<Rightarrow> 'b list result" where
  "mapR f [] = Inr []"
| "mapR f (x # xs) = bindR (f x) (\<lambda>y. bindR (mapR f xs) (\<lambda>ys. Inr (y # ys)))"

definition idx :: "'a list \<Rightarrow> nat \<Rightarrow> 'a result" where
  "idx xs i = (if i < length xs then Inr (xs ! i) else Inl (Panic ''index out of range''))"

definition udiv :: "u64 \<Rightarrow> u64 \<Rightarrow> u64 result" where
  "udiv a b = (if b = 0 then Inl (Panic ''integer divide by zero'') else Inr (a div b))"

definition umod :: "u64 \<Rightarrow> u64 \<Rightarrow> u64 result" where
  "umod a b = (if b = 0 then Inl (Panic ''integer divide by zero'') else Inr (a mod b))"

section \<open>Automation for the result type\<close>

named_theorems res_simps \<open>equations of the result combinators\<close>
named_theorems u64_simps \<open>reading word arithmetic as natural numbers\<close>

lemma bindR_Inr [simp, res_simps]: "bindR (Inr x) f = f x"
  by (simp add: bindR_def)

lemma bindR_Inl [simp, res_simps]: "bindR (Inl e) f = Inl e"
  by (simp add: bindR_def)

lemma bindR_eq_Inr: "bindR m f = Inr y \<longleftrightarrow> (\<exists>x. m = Inr x \<and> f x = Inr y)"
  by (cases m) simp_all

lemma bindR_eq_Inl: "bindR m f = Inl e \<longleftrightarrow> m = Inl e \<or> (\<exists>x. m = Inr x \<and> f x = Inl e)"
  by (cases m) simp_all

lemma bindR_InrE [elim!]:
  assumes "bindR m f = Inr y"
  obtains x where "m = Inr x" and "f x = Inr y"
  using assms by (auto simp: bindR_eq_Inr)

lemma bindR_assoc: "bindR (bindR m f) g = bindR m (\<lambda>x. bindR (f x) g)"
  by (cases m) simp_all

lemma bindR_cong [fundef_cong]:
  "m = m' \<Longrightarrow> (\<And>x. m' = Inr x \<Longrightarrow> f x = g x) \<Longrightarrow> bindR m f = bindR m' g"
  by (cases m') (simp_all add: bindR_def)

lemma wrapR_Inr [simp, res_simps]: "wrapR s (Inr x) = Inr x"
  by (simp add: wrapR_def)

lemma wrapR_eq_Inr [simp]: "wrapR s m = Inr x \<longleftrightarrow> m = Inr x"
  by (cases m) (simp_all add: wrapR_def)

lemma guardR_eq_Inr [simp]: "guardR b e = Inr u \<longleftrightarrow> b"
  by (simp add: guardR_def)

lemma guardR_True [simp]: "guardR True e = Inr ()"
  by (simp add: guardR_def)

lemma foldR_append: "foldR f (xs @ ys) s = bindR (foldR f xs s) (foldR f ys)"
  by (induction xs arbitrary: s) (simp_all add: bindR_assoc fun_eq_iff bindR_def split: sum.splits)

lemma foldR_invariant:
  assumes "foldR f xs s = Inr t" and "P s"
    and "\<And>x s s'. x \<in> set xs \<Longrightarrow> P s \<Longrightarrow> f x s = Inr s' \<Longrightarrow> P s'"
  shows "P t"
  using assms
proof (induction xs arbitrary: s)
  case Nil
  then show ?case by simp
next
  case (Cons x xs)
  from Cons.prems(1) obtain s' where s': "f x s = Inr s'" and t: "foldR f xs s' = Inr t"
    by auto
  from Cons.prems(2,3) s' have "P s'" by auto
  with t Cons.prems(3) show ?case by (intro Cons.IH [of s']) auto
qed

lemma mapR_eq_Inr:
  "mapR f xs = Inr ys \<longleftrightarrow> length ys = length xs \<and> (\<forall>i < length xs. f (xs ! i) = Inr (ys ! i))"
proof (induction xs arbitrary: ys)
  case Nil
  then show ?case by auto
next
  case (Cons x xs)
  show ?case
  proof
    assume "mapR f (x # xs) = Inr ys"
    then obtain y zs where "f x = Inr y" "mapR f xs = Inr zs" "ys = y # zs"
      by (auto simp: bindR_eq_Inr)
    with Cons.IH [of zs] show "length ys = length (x # xs) \<and>
        (\<forall>i < length (x # xs). f ((x # xs) ! i) = Inr (ys ! i))"
      by (auto simp: nth_Cons split: nat.splits)
  next
    assume *: "length ys = length (x # xs) \<and> (\<forall>i < length (x # xs). f ((x # xs) ! i) = Inr (ys ! i))"
    then obtain y zs where ys: "ys = y # zs" by (cases ys) auto
    from * ys have "f x = Inr y" by fastforce
    moreover from * ys Cons.IH [of zs] have "mapR f xs = Inr zs" by fastforce
    ultimately show "mapR f (x # xs) = Inr ys" using ys by simp
  qed
qed

lemma mapR_length: "mapR f xs = Inr ys \<Longrightarrow> length ys = length xs"
  by (simp add: mapR_eq_Inr)

lemma mapR_total: "(\<And>x. x \<in> set xs \<Longrightarrow> f x = Inr (g x)) \<Longrightarrow> mapR f xs = Inr (map g xs)"
  by (induction xs) simp_all

lemma foldR_total: "(\<And>x s. x \<in> set xs \<Longrightarrow> f x s = Inr (g x s)) \<Longrightarrow> foldR f xs s = Inr (fold g xs s)"
  by (induction xs arbitrary: s) simp_all

lemma idx_eq_Inr [simp]: "idx xs i = Inr x \<longleftrightarrow> i < length xs \<and> xs ! i = x"
  by (auto simp: idx_def)

lemma idx_in [simp]: "i < length xs \<Longrightarrow> idx xs i = Inr (xs ! i)"
  by (simp add: idx_def)

lemma udiv_eq_Inr [simp]: "udiv a b = Inr c \<longleftrightarrow> b \<noteq> 0 \<and> c = a div b"
  by (auto simp: udiv_def)

lemma udiv_nz [simp]: "b \<noteq> 0 \<Longrightarrow> udiv a b = Inr (a div b)"
  by (simp add: udiv_def)

lemma umod_eq_Inr [simp]: "umod a b = Inr c \<longleftrightarrow> b \<noteq> 0 \<and> c = a mod b"
  by (auto simp: umod_def)

lemma umod_nz [simp]: "b \<noteq> 0 \<Longrightarrow> umod a b = Inr (a mod b)"
  by (simp add: umod_def)

section \<open>Word arithmetic without overflow\<close>

lemma unat_u64_lt [simp, u64_simps]: "unat (x :: u64) < 2 ^ 64"
  using unsigned_less [of x] by simp

lemma unat_u64_lt_num [simp]: "unat (x :: u64) < 18446744073709551616"
  using unat_u64_lt [of x] by simp

lemma unat_add_u64 [u64_simps]:
  "unat (a :: u64) + unat b < 2 ^ 64 \<Longrightarrow> unat (a + b) = unat a + unat b"
  by (simp add: unat_word_ariths)

lemma unat_mult_u64 [u64_simps]:
  "unat (a :: u64) * unat b < 2 ^ 64 \<Longrightarrow> unat (a * b) = unat a * unat b"
  by (simp add: unat_word_ariths)

lemma unat_sub_u64 [u64_simps]: "b \<le> (a :: u64) \<Longrightarrow> unat (a - b) = unat a - unat b"
  by (simp add: unat_sub)

lemma unat_div_u64 [u64_simps]: "unat ((a :: u64) div b) = unat a div unat b"
  by (simp add: unat_div)

lemma unat_mod_u64 [u64_simps]: "unat ((a :: u64) mod b) = unat a mod unat b"
  by (simp add: unat_mod)

lemma unat_of_nat_u64 [u64_simps]: "n < 2 ^ 64 \<Longrightarrow> unat (of_nat n :: u64) = n"
  by (simp add: unat_of_nat)

lemma unat_max_u64 [u64_simps]: "unat max_u64 = 2 ^ 64 - 1"
  by (simp add: max_u64_def unsigned_minus_1_eq_mask mask_eq_exp_minus_1)

lemma u64_le_max [simp]: "x \<le> max_u64"
  by (simp add: max_u64_def)

lemma u64_eqI: "unat (a :: u64) = unat b \<Longrightarrow> a = b"
  by (rule unsigned_word_eqI)

lemma u64_eq_iff: "a = b \<longleftrightarrow> unat (a :: u64) = unat b"
  by (auto intro: u64_eqI)

lemma unat_plus_one_u64 [u64_simps]: "x \<noteq> max_u64 \<Longrightarrow> unat (x + 1) = unat x + 1"
proof -
  assume "x \<noteq> max_u64"
  then have "unat x \<noteq> 18446744073709551615"
    using u64_eqI [of x max_u64] by (auto simp: unat_max_u64)
  moreover have "unat x < 18446744073709551616" by (rule unat_u64_lt_num)
  ultimately have "unat x + 1 < 18446744073709551616" by linarith
  then show ?thesis using unat_add_u64 [of x 1] by simp
qed

lemma two63: "(2 :: int) ^ 63 = 9223372036854775808"
  by simp

lemma div_bounds:
  fixes r d :: int
  assumes "0 < d"
  shows "r div d * d \<le> r" "r < (r div d + 1) * d"
  using assms pos_mod_bound [of d r] pos_mod_sign [of d r]
  by (simp_all add: distrib_right flip: minus_mod_eq_div_mult)

lemma div_eq_iff_between: "0 < n \<Longrightarrow> x div n = q \<longleftrightarrow> n * q \<le> x \<and> x < n * (q + 1)"
  for n x q :: nat
  using dividend_less_times_div [of n x] times_div_less_eq_dividend [of n x]
  by (auto intro: div_nat_eqI)

lemma in_i64I: "0 \<le> x \<Longrightarrow> x < 2 ^ 63 \<Longrightarrow> in_i64 x"
  by (simp add: in_i64_def)

lemma to_i64_id [simp]: "in_i64 x \<Longrightarrow> to_i64 x = x"
  by (simp add: to_i64_def in_i64_def)

lemma to_i64_in [simp]: "in_i64 (to_i64 x)"
  by (simp add: to_i64_def in_i64_def)

lemma quot_i64_nonneg: "0 \<le> a \<Longrightarrow> 0 < b \<Longrightarrow> in_i64 a \<Longrightarrow> quot_i64 a b = a div b"
proof -
  assume a: "0 \<le> a" and b: "0 < b" and r: "in_i64 a"
  have "a div b \<le> a"
    using a b by (metis div_by_1 int_one_le_iff_zero_less zdiv_mono2 zero_less_one)
  with a b r have "in_i64 (a div b)"
    by (auto simp: in_i64_def pos_imp_zdiv_nonneg_iff intro: order_trans [of _ 0])
  moreover have "sgn a * sgn b * (\<bar>a\<bar> div \<bar>b\<bar>) = a div b"
    using a b by (cases "a = 0") (simp_all add: sgn_if)
  ultimately show ?thesis by (simp add: quot_i64_def)
qed

end
