(* ===== verification/Math_Helper.thy ===== *)
theory Math_Helper
  imports Prelude
begin

unbundle bit_operations_syntax

text \<open>
  The integer helpers of \<^verbatim>\<open>src/math/math_helper.go\<close>: checked 64-bit arithmetic, the cached Newton
  square root that the reward computation divides by, and the small predicates on powers of two
  and on \<^verbatim>\<open>uint256\<close>. The lemmas show that the checked operations return the mathematical result
  exactly when it fits, and that the Newton iteration terminates with the integer square root from
  every sound cache entry, apart from the one pair of values where its first sum wraps to zero.
\<close>

section \<open>Definitions\<close>

definition ErrOverflow :: error where
  "ErrOverflow = Err ''integer overflow''"

definition ErrDivByZero :: error where
  "ErrDivByZero = Err ''integer divide by zero''"

definition ErrMulOverflow :: error where
  "ErrMulOverflow = Err ''multiplication overflows''"

definition ErrAddOverflow :: error where
  "ErrAddOverflow = Err ''addition overflows''"

definition ErrSubUnderflow :: error where
  "ErrSubUnderflow = Err ''subtraction underflow''"

text \<open>The functions of \<^verbatim>\<open>math/bits\<close> that the helpers call: high and low word of the full product,
  sum with carry, difference with borrow.\<close>

definition bits_Mul64 :: "u64 \<Rightarrow> u64 \<Rightarrow> u64 \<times> u64" where
  "bits_Mul64 a b = (of_nat (unat a * unat b div 2 ^ 64), a * b)"

definition bits_Add64 :: "u64 \<Rightarrow> u64 \<Rightarrow> u64 \<times> u64" where
  "bits_Add64 a b = (a + b, of_nat ((unat a + unat b) div 2 ^ 64))"

definition bits_Sub64 :: "u64 \<Rightarrow> u64 \<Rightarrow> u64 \<times> u64" where
  "bits_Sub64 a b = (a - b, if a < b then 1 else 0)"

definition Mul64 :: "u64 \<Rightarrow> u64 \<Rightarrow> u64 result" where
  "Mul64 a b = (case bits_Mul64 a b of (overflows, val) \<Rightarrow>
     if overflows > 0 then Inl ErrMulOverflow else Inr val)"

definition Div64 :: "u64 \<Rightarrow> u64 \<Rightarrow> u64 result" where
  "Div64 a b = (if b = 0 then Inl ErrDivByZero else Inr (a div b))"

definition Add64 :: "u64 \<Rightarrow> u64 \<Rightarrow> u64 result" where
  "Add64 a b = (case bits_Add64 a b of (res, carry) \<Rightarrow>
     if carry > 0 then Inl ErrAddOverflow else Inr res)"

definition Sub64 :: "u64 \<Rightarrow> u64 \<Rightarrow> u64 result" where
  "Sub64 a b = (case bits_Sub64 a b of (res, borrow) \<Rightarrow>
     if borrow > 0 then Inl ErrSubUnderflow else Inr res)"

definition Mod64 :: "u64 \<Rightarrow> u64 \<Rightarrow> u64 result" where
  "Mod64 a b = (if b = 0 then Inl ErrDivByZero else Inr (a mod b))"

definition math_Int :: "u64 \<Rightarrow> int result" where
  "math_Int u = (if uint u > 2 ^ 63 - 1 then Inl ErrOverflow else Inr (uint u))"

fun addInt_loop :: "int list \<Rightarrow> int \<Rightarrow> int result" where
  "addInt_loop [] acc = Inr acc"
| "addInt_loop (ii # rest) acc =
     (if ii > 0 \<and> acc > to_i64 ((2 ^ 63 - 1) - ii) then Inl ErrOverflow
      else if ii < 0 \<and> acc < to_i64 (- (2 ^ 63) - ii) then Inl ErrOverflow
      else addInt_loop rest (to_i64 (acc + ii)))"

definition AddInt :: "int list \<Rightarrow> int result" where
  "AddInt i = addInt_loop i 0"

definition CeilDiv8 :: "int \<Rightarrow> int" where
  "CeilDiv8 n = (let ret = quot_i64 n 8
     in if n - 8 * ret > 0 then to_i64 (ret + 1) else ret)"

definition IsPowerOf2 :: "u64 \<Rightarrow> bool" where
  "IsPowerOf2 n \<longleftrightarrow> n \<noteq> 0 \<and> (n AND (n - 1)) = 0"

definition PowerOf2 :: "u64 \<Rightarrow> u64 result" where
  "PowerOf2 n = (if n \<ge> 64 then Inl (Panic ''integer overflow'') else Inr (push_bit (unat n) 1))"

text \<open>\<^verbatim>\<open>big.Int.BitLen\<close> of a non-negative number is at most 256 iff the number is below \<open>2 ^ 256\<close>.\<close>

definition IsValidUint256 :: "int \<Rightarrow> bool" where
  "IsValidUint256 bi \<longleftrightarrow> bi \<ge> 0 \<and> \<bar>bi\<bar> < 2 ^ 256"

text \<open>The package variable \<^verbatim>\<open>cachedSquareRoot\<close>, and the Newton iteration that updates it.\<close>

record sqrt_cache =
  squareRoot :: u64
  cachedBalance :: u64

definition cachedSquareRoot_init :: sqrt_cache where
  "cachedSquareRoot_init = \<lparr>squareRoot = 126491106, cachedBalance = 15999999897103236\<rparr>"

lemma unat_half_lt: "unat ((x :: u64) div 2) < 2 ^ 63"
proof -
  have "unat x div 2 < 2 ^ 63" by (rule less_mult_imp_div_less) simp
  then show ?thesis by (simp add: unat_div_u64)
qed

lemma newton_decreases:
  assumes "r = (s + v) div 2" and "\<not> r \<le> w"
  shows "unat ((r + w) div 2) < unat (r :: u64)"
proof -
  have r: "unat r < 2 ^ 63"
    using assms(1) unat_half_lt by simp
  from assms(2) have w: "unat w < unat r" by (simp add: word_le_nat_alt)
  with r have "unat (r + w) = unat r + unat w" by (simp add: unat_add_u64)
  with w show ?thesis by (simp add: unat_div_u64)
qed

function newton_loop :: "u64 \<Rightarrow> u64 \<Rightarrow> u64 \<Rightarrow> u64 result" where
  "newton_loop balance root val =
     (let root' = (root + val) div 2
      in if root' = 0 then Inl (Panic ''integer divide by zero'')
         else let val' = balance div root'
              in if root' \<le> val' then Inr root' else newton_loop balance root' val')"
  by pat_completeness auto
termination
  by (relation "measure (\<lambda>(balance, root, val). unat ((root + val) div 2))")
    (auto intro: newton_decreases simp: word_le_nat_alt [symmetric])

declare newton_loop.simps [simp del]

definition CachedSquareRoot :: "u64 \<Rightarrow> sqrt_cache \<Rightarrow> (u64 \<times> sqrt_cache) result" where
  "CachedSquareRoot balance c =
     (if balance = 0 then Inr (0, c)
      else if balance = cachedBalance c then Inr (squareRoot c, c)
      else bindR (udiv balance (squareRoot c)) (\<lambda>val.
           bindR (newton_loop balance (squareRoot c) val) (\<lambda>root.
           Inr (root, \<lparr>squareRoot = root, cachedBalance = balance\<rparr>))))"

section \<open>Checked arithmetic\<close>

text \<open>Code equations on integers, which evaluate in binary.\<close>

lemma of_nat_int_div: "(of_nat (n div 2 ^ 64) :: u64) = word_of_int (int n div 2 ^ 64)"
  by (metis of_int_of_nat_eq of_nat_numeral of_nat_power zdiv_int)

lemma bits_Mul64_code [code]:
  "bits_Mul64 a b = (word_of_int (uint a * uint b div 2 ^ 64), a * b)"
  unfolding bits_Mul64_def of_nat_int_div by (simp add: of_nat_mult)

lemma bits_Add64_code [code]:
  "bits_Add64 a b = (a + b, word_of_int ((uint a + uint b) div 2 ^ 64))"
  unfolding bits_Add64_def of_nat_int_div by (simp add: of_nat_add)

lemma of_nat_div_u64_zero:
  assumes "n < 2 ^ 128"
  shows "(of_nat (n div 2 ^ 64) :: u64) > 0 \<longleftrightarrow> \<not> n < 2 ^ 64"
proof -
  from assms have "n div 2 ^ 64 < 2 ^ 64"
    by (simp add: div_less_iff_less_mult)
  then have "unat (of_nat (n div 2 ^ 64) :: u64) = n div 2 ^ 64" by (rule unat_of_nat_u64)
  then have "(of_nat (n div 2 ^ 64) :: u64) > 0 \<longleftrightarrow> 0 < n div 2 ^ 64"
    by (simp only: word_less_nat_alt unat_0)
  then show ?thesis by (simp only: div_greater_zero_iff not_less) simp
qed

lemma Mul64_cases: "Mul64 a b = (if unat a * unat b < 2 ^ 64 then Inr (a * b) else Inl ErrMulOverflow)"
proof -
  have "unat a * unat b < 2 ^ 64 * 2 ^ 64"
    by (intro mult_strict_mono) auto
  then have "unat a * unat b < 2 ^ 128" by (simp only: power_add [symmetric]) simp
  from of_nat_div_u64_zero [OF this] show ?thesis
    unfolding Mul64_def bits_Mul64_def prod.case by (simp only: if_not_P if_P if_cancel split: if_splits) simp
qed

lemma Add64_cases: "Add64 a b = (if unat a + unat b < 2 ^ 64 then Inr (a + b) else Inl ErrAddOverflow)"
proof -
  have "unat a + unat b < 2 ^ 64 + 2 ^ 64"
    by (intro add_strict_mono) auto
  then have "unat a + unat b < 2 ^ 128" by (rule less_le_trans) simp
  from of_nat_div_u64_zero [OF this] show ?thesis
    unfolding Add64_def bits_Add64_def prod.case by (simp only: if_not_P if_P if_cancel split: if_splits) simp
qed

lemma Sub64_cases: "Sub64 a b = (if b \<le> a then Inr (a - b) else Inl ErrSubUnderflow)"
  by (auto simp: Sub64_def bits_Sub64_def)

lemma Mul64_Inr: "Mul64 a b = Inr c \<longleftrightarrow> unat a * unat b < 2 ^ 64 \<and> c = a * b"
  by (auto simp: Mul64_cases)

lemma Add64_Inr: "Add64 a b = Inr c \<longleftrightarrow> unat a + unat b < 2 ^ 64 \<and> c = a + b"
  by (auto simp: Add64_cases)

lemma Sub64_Inr: "Sub64 a b = Inr c \<longleftrightarrow> b \<le> a \<and> c = a - b"
  by (auto simp: Sub64_cases)

lemma Div64_Inr [simp]: "Div64 a b = Inr c \<longleftrightarrow> b \<noteq> 0 \<and> c = a div b"
  by (auto simp: Div64_def)

lemma Mod64_Inr [simp]: "Mod64 a b = Inr c \<longleftrightarrow> b \<noteq> 0 \<and> c = a mod b"
  by (auto simp: Mod64_def)

lemmas checked_Inr = Mul64_Inr Add64_Inr Sub64_Inr Div64_Inr Mod64_Inr

section \<open>Square root\<close>

definition is_isqrt :: "nat \<Rightarrow> nat \<Rightarrow> bool" where
  "is_isqrt r n \<longleftrightarrow> r * r \<le> n \<and> n < (r + 1) * (r + 1)"

text \<open>One Newton step never falls below the root.\<close>

lemma newton_step_above:
  fixes n s :: nat
  assumes "0 < s"
  shows "n < ((s + n div s) div 2 + 1) * ((s + n div s) div 2 + 1)"
proof -
  define q where "q = n div s"
  define r where "r = (s + q) div 2"
  have n: "n < s * (q + 1)"
    unfolding q_def using dividend_less_times_div [OF assms, of n] by (simp add: algebra_simps)
  have sum: "s + (q + 1) \<le> 2 * (r + 1)"
    unfolding r_def by arith
  have "4 * (s * (q + 1)) \<le> (s + (q + 1)) * (s + (q + 1))"
  proof -
    have "4 * (int s * int (q + 1)) \<le> (int s + int (q + 1)) * (int s + int (q + 1))"
      using zero_le_square [of "int s - int (q + 1)"] by (simp add: algebra_simps)
    then have "int (4 * (s * (q + 1))) \<le> int ((s + (q + 1)) * (s + (q + 1)))"
      by (simp only: of_nat_mult of_nat_add of_nat_numeral)
    then show ?thesis by (simp only: of_nat_le_iff)
  qed
  also have "\<dots> \<le> (2 * (r + 1)) * (2 * (r + 1))"
    using sum by (intro mult_le_mono)
  finally have "s * (q + 1) \<le> (r + 1) * (r + 1)" by simp
  with n show ?thesis by (simp add: r_def q_def)
qed

lemma newton_loop_isqrt:
  assumes "val = balance div root" and "root \<noteq> 0" and "balance \<noteq> 0"
    and "unat root + unat val < 2 ^ 64"
  shows "\<exists>r. newton_loop balance root val = Inr r \<and> is_isqrt (unat r) (unat balance)"
  using assms
proof (induction balance root val rule: newton_loop.induct)
  case (1 balance root val)
  define r where "r = (root + val) div 2"
  have ur: "unat r = (unat root + unat balance div unat root) div 2"
    unfolding r_def using 1(2,5) by (simp add: unat_div_u64 unat_add_u64)
  have above: "unat balance < (unat r + 1) * (unat r + 1)"
    unfolding ur using newton_step_above [of "unat root" "unat balance"] 1(3)
    by (simp add: unat_gt_0)
  have rnz: "r \<noteq> 0"
    using above 1(4) by (metis One_nat_def add_0 less_one mult_1 unat_0 unat_eq_zero)
  show ?case
  proof (cases "r \<le> balance div r")
    case True
    then have "unat r * unat r \<le> unat balance"
      using rnz by (simp add: word_le_nat_alt unat_div_u64 less_eq_div_iff_mult_less_eq unat_gt_0)
    with above True rnz show ?thesis
      by (subst newton_loop.simps) (auto simp: Let_def r_def [symmetric] is_isqrt_def)
  next
    case False
    have "unat r < 2 ^ 63"
      unfolding r_def by (rule unat_half_lt)
    moreover have "unat (balance div r) < unat r"
      using False by (simp add: word_le_nat_alt)
    ultimately have "unat r + unat (balance div r) < 2 ^ 64" by simp
    with 1(1) [OF r_def _ refl] rnz False 1(4) obtain r' where
      "newton_loop balance r (balance div r) = Inr r'" "is_isqrt (unat r') (unat balance)"
      by (auto simp: r_def)
    with False rnz show ?thesis
      by (subst newton_loop.simps) (auto simp: Let_def r_def [symmetric])
  qed
qed

text \<open>A cache entry is sound if it holds the integer square root of the balance it is keyed by.\<close>

definition sqrt_cache_ok :: "sqrt_cache \<Rightarrow> bool" where
  "sqrt_cache_ok c \<longleftrightarrow> cachedBalance c \<noteq> 0 \<and> is_isqrt (unat (squareRoot c)) (unat (cachedBalance c))"

lemma sqrt_cache_ok_pos: "sqrt_cache_ok c \<Longrightarrow> squareRoot c \<noteq> 0"
  by (auto simp: sqrt_cache_ok_def is_isqrt_def unat_eq_zero)

lemma first_sum_fits:
  assumes "root \<noteq> (0 :: u64)" and "unat root < 2 ^ 32" and "\<not> (root = 1 \<and> balance = max_u64)"
  shows "unat root + unat (balance div root) < 2 ^ 64"
proof (cases "root = 1")
  case True
  have "unat balance \<noteq> 18446744073709551615"
  proof
    assume "unat balance = 18446744073709551615"
    then have "unat balance = unat max_u64" by (simp add: unat_max_u64)
    then have "balance = max_u64" by (rule unsigned_word_eqI)
    with True assms(3) show False by simp
  qed
  moreover have "unat balance < 18446744073709551616" by (rule unat_u64_lt_num)
  ultimately have "unat balance < 18446744073709551615" by linarith
  with True show ?thesis by simp
next
  case False
  with assms(1) have "2 \<le> unat root"
    by (metis One_nat_def less_2_cases not_le unat_1 unat_eq_zero unsigned_word_eqI)
  then have "unat balance div unat root \<le> unat balance div 2"
    by (simp add: div_le_mono2)
  also have "\<dots> < 2 ^ 63" by (rule less_mult_imp_div_less) simp
  finally show ?thesis using assms(2) by (simp add: unat_div_u64)
qed

lemma isqrt_u64_lt: "is_isqrt r n \<Longrightarrow> n < 2 ^ 64 \<Longrightarrow> r < 2 ^ 32"
proof (rule ccontr)
  assume "is_isqrt r n" and n: "n < 2 ^ 64" and "\<not> r < 2 ^ 32"
  then have "2 ^ 32 * 2 ^ 32 \<le> r * r" by (intro mult_le_mono) auto
  with n \<open>is_isqrt r n\<close> show False by (simp add: is_isqrt_def)
qed

lemma CachedSquareRoot_ok:
  assumes "sqrt_cache_ok c" and "\<not> (squareRoot c = 1 \<and> balance = max_u64)"
  shows "\<exists>r c'. CachedSquareRoot balance c = Inr (r, c') \<and>
           is_isqrt (unat r) (unat balance) \<and> sqrt_cache_ok c'"
proof -
  consider "balance = 0" | "balance \<noteq> 0" "balance = cachedBalance c"
    | "balance \<noteq> 0" "balance \<noteq> cachedBalance c" by blast
  then show ?thesis
  proof cases
    case 1
    then show ?thesis using assms(1) by (simp add: CachedSquareRoot_def is_isqrt_def)
  next
    case 2
    then show ?thesis using assms(1) by (simp add: CachedSquareRoot_def sqrt_cache_ok_def)
  next
    case 3
    have nz: "squareRoot c \<noteq> 0" using assms(1) by (rule sqrt_cache_ok_pos)
    have "unat (squareRoot c) < 2 ^ 32"
      using assms(1) isqrt_u64_lt unat_u64_lt unfolding sqrt_cache_ok_def by blast
    then have "unat (squareRoot c) + unat (balance div squareRoot c) < 2 ^ 64"
      using assms(2) nz by (intro first_sum_fits) auto
    with newton_loop_isqrt [OF refl nz 3(1)] obtain r where
      "newton_loop balance (squareRoot c) (balance div squareRoot c) = Inr r"
      "is_isqrt (unat r) (unat balance)" by blast
    with 3 nz show ?thesis by (simp add: CachedSquareRoot_def sqrt_cache_ok_def)
  qed
qed

lemma sqrt_cache_ok_init: "sqrt_cache_ok cachedSquareRoot_init"
  by (simp add: sqrt_cache_ok_def cachedSquareRoot_init_def is_isqrt_def)

section \<open>Powers of two, counters and casts\<close>

lemma bit_of_range:
  fixes n :: nat
  assumes "2 ^ k \<le> n" and "n < 2 ^ Suc k"
  shows "bit n k"
proof -
  have "n div 2 ^ k = 1"
    using assms by (intro div_nat_eqI) (simp_all add: mult.commute)
  then show ?thesis by (simp add: bit_iff_odd)
qed

lemma nat_between_powers: "0 < (n :: nat) \<Longrightarrow> \<exists>k. 2 ^ k \<le> n \<and> n < 2 ^ Suc k"
  using ex_power_ivl1 [of 2 n] by auto

lemma IsPowerOf2_power: "k < 64 \<Longrightarrow> IsPowerOf2 (2 ^ k)"
proof -
  assume k: "k < 64"
  have "(2 ^ k :: u64) AND mask k = 0"
    by (rule bit_word_eqI) (auto simp: bit_simps)
  moreover have "(2 ^ k :: u64) \<noteq> 0" using k by simp
  ultimately show ?thesis by (simp add: IsPowerOf2_def mask_eq_exp_minus_1)
qed

lemma IsPowerOf2_only:
  assumes "IsPowerOf2 n"
  shows "\<exists>k < 64. unat n = 2 ^ k"
proof -
  from assms have "0 < unat n" and zero: "n AND (n - 1) = 0"
    by (auto simp: IsPowerOf2_def unat_gt_0)
  then obtain k where k: "2 ^ k \<le> unat n" "unat n < 2 ^ Suc k" using nat_between_powers by blast
  have "(2 :: nat) ^ k < 2 ^ 64" using k(1) unat_u64_lt by (rule le_less_trans)
  then have k64: "k < 64" by (simp only: power_strict_increasing_iff)
  have "unat n = 2 ^ k"
  proof (rule ccontr)
    assume "unat n \<noteq> 2 ^ k"
    with k have ge: "2 ^ k \<le> unat n - 1" and lt: "unat n - 1 < 2 ^ Suc k" by auto
    have "unat (n - 1) = unat n - 1"
      using \<open>0 < unat n\<close> by (simp add: unat_minus_one unat_gt_0)
    then have "bit (unat (n - 1)) k" using bit_of_range [OF ge lt] by simp
    moreover have "bit (unat n) k" using bit_of_range [OF k] .
    ultimately have "bit (n AND (n - 1)) k"
      by (simp add: bit_and_iff bit_unsigned_iff)
    with zero show False by simp
  qed
  with k64 show ?thesis by blast
qed

lemma PowerOf2_unat: "n < 64 \<Longrightarrow> \<exists>r. PowerOf2 n = Inr r \<and> unat r = 2 ^ unat n"
proof -
  assume n: "n < 64"
  then have k: "unat n < 64" by (simp add: word_less_nat_alt)
  have "(2 :: nat) ^ unat n < 2 ^ 64" using k by (simp only: power_strict_increasing_iff)
  then have "unat (2 ^ unat n :: u64) = 2 ^ unat n"
    using unat_of_nat_u64 [of "2 ^ unat n"] by simp
  with n show ?thesis by (auto simp: PowerOf2_def push_bit_eq_mult not_le)
qed

lemma addInt_loop_exact:
  assumes "in_i64 s" and "\<And>x. x \<in> set xs \<Longrightarrow> in_i64 x"
  shows "addInt_loop xs s =
     (if \<forall>k \<le> length xs. in_i64 (s + sum_list (take k xs)) then Inr (s + sum_list xs) else Inl ErrOverflow)"
  using assms
proof (induction xs arbitrary: s)
  case Nil
  then show ?case by simp
next
  case (Cons x xs)
  have x: "in_i64 x" using Cons.prems(2) by simp
  have split: "(\<forall>k \<le> length (x # xs). in_i64 (s + sum_list (take k (x # xs)))) \<longleftrightarrow>
      (\<forall>k \<le> length xs. in_i64 (s + x + sum_list (take k xs)))"
    (is "?L \<longleftrightarrow> ?R")
  proof
    assume L: ?L
    show ?R
    proof (intro allI impI)
      fix k assume "k \<le> length xs"
      with L have "in_i64 (s + sum_list (take (Suc k) (x # xs)))" by (simp del: take_Suc_Cons)
      then show "in_i64 (s + x + sum_list (take k xs))" by (simp add: add.assoc)
    qed
  next
    assume R: ?R
    show ?L
    proof (intro allI impI)
      fix k assume "k \<le> length (x # xs)"
      with R Cons.prems(1) show "in_i64 (s + sum_list (take k (x # xs)))"
        by (cases k) (simp_all add: add.assoc)
    qed
  qed
  show ?case
  proof (cases "in_i64 (s + x)")
    case True
    then have "addInt_loop (x # xs) s = addInt_loop xs (s + x)"
      using x Cons.prems(1) by (auto simp: in_i64_def to_i64_def)
    with Cons.IH [OF True] Cons.prems(2) split show ?thesis by (simp add: add.assoc)
  next
    case False
    then have "addInt_loop (x # xs) s = Inl ErrOverflow"
      using x Cons.prems(1) by (auto simp: in_i64_def to_i64_def)
    moreover have "\<not> (\<forall>k \<le> length xs. in_i64 (s + x + sum_list (take k xs)))"
      using False by (auto intro!: exI [of _ 0])
    ultimately show ?thesis using split by simp
  qed
qed

section \<open>Properties of the helpers\<close>

text \<open>C22: CachedSquareRoot returns, and returns the integer square root of its argument, from every
  cache that a previous call left behind; the cache it leaves is again sound. The one exception is
  the largest balance after a cached root of 1, where the first Newton sum wraps around.\<close>

theorem CachedSquareRoot_isqrt:
  assumes "sqrt_cache_ok c" and "\<not> (squareRoot c = 1 \<and> balance = max_u64)"
  shows "\<exists>r c'. CachedSquareRoot balance c = Inr (r, c') \<and>
           unat r * unat r \<le> unat balance \<and> unat balance < (unat r + 1) * (unat r + 1) \<and>
           sqrt_cache_ok c'"
  using CachedSquareRoot_ok [OF assms] by (auto simp: is_isqrt_def)

theorem CachedSquareRoot_isqrt_witness:
  "\<exists>r c'. CachedSquareRoot 1000003 cachedSquareRoot_init = Inr (r, c') \<and>
     unat r * unat r \<le> unat (1000003 :: u64) \<and>
     unat (1000003 :: u64) < (unat r + 1) * (unat r + 1) \<and> sqrt_cache_ok c'"
proof -
  have "squareRoot cachedSquareRoot_init \<noteq> 1" by (simp add: cachedSquareRoot_init_def)
  then show ?thesis
    using CachedSquareRoot_isqrt [OF sqrt_cache_ok_init, of 1000003] by simp
qed

text \<open>The exception is real: after the root of a balance of 1 is cached, the largest balance makes
  the Newton iteration divide by zero.\<close>

theorem CachedSquareRoot_panics:
  "CachedSquareRoot max_u64 \<lparr>squareRoot = 1, cachedBalance = 1\<rparr>
     = Inl (Panic ''integer divide by zero'')"
  by (simp add: CachedSquareRoot_def max_u64_def newton_loop.simps)

text \<open>C23: AddInt returns the exact sum when no prefix of the sum leaves the range of int, and
  ErrOverflow otherwise; the overflow test itself never wraps.\<close>

theorem AddInt_exact:
  assumes "list_all in_i64 xs"
  shows "AddInt xs = (if \<forall>k \<le> length xs. in_i64 (sum_list (take k xs)) then Inr (sum_list xs)
                      else Inl ErrOverflow)"
  using addInt_loop_exact [of 0 xs] assms by (simp add: AddInt_def in_i64_def list_all_iff)

theorem AddInt_exact_witness: "AddInt [5, 2 ^ 63 - 3] = Inl ErrOverflow"
proof -
  have "\<not> in_i64 (sum_list (take 2 [5, 2 ^ 63 - 3]))" by (simp add: in_i64_def)
  moreover have "list_all in_i64 [5, 2 ^ 63 - 3]" by (simp add: in_i64_def)
  ultimately show ?thesis
    using AddInt_exact [of "[5, 2 ^ 63 - 3]"] by (auto dest: spec [of _ 2])
qed

text \<open>C24: IsPowerOf2 recognises exactly the powers of two that a uint64 can hold.\<close>

theorem IsPowerOf2_iff: "IsPowerOf2 n \<longleftrightarrow> (\<exists>k < 64. n = 2 ^ k)"
proof
  assume "IsPowerOf2 n"
  then obtain k where k: "k < 64" "unat n = 2 ^ k" using IsPowerOf2_only by blast
  then have "of_nat (unat n) = (of_nat (2 ^ k) :: u64)" by simp
  then have "n = of_nat (2 ^ k)" by simp
  with k(1) show "\<exists>k < 64. n = 2 ^ k" by (auto simp: of_nat_power)
next
  assume "\<exists>k < 64. n = 2 ^ k"
  then show "IsPowerOf2 n" using IsPowerOf2_power by auto
qed

end
