(* ===== verification/Primitives.thy ===== *)
theory Primitives
  imports Math_Helper
begin

text \<open>
  The numeric types of \<^verbatim>\<open>src/consensus-types/primitives\<close>: slots, epochs, validator indices and Gwei
  amounts are all \<^verbatim>\<open>uint64\<close>. Every type has a \<^verbatim>\<open>Safe\<close> family that returns the errors of the
  checked arithmetic in \<open>Math_Helper\<close>, and a panicking family on top of it. The little-endian
  SSZ encoding of these types goes through a third-party encoder and is not modelled.
\<close>

type_synonym Slot = u64
type_synonym Epoch = u64
type_synonym ValidatorIndex = u64
type_synonym Gwei = u64
type_synonym BP = u64

section \<open>Definitions\<close>

text \<open>\<^verbatim>\<open>panic(err.Error())\<close>: the error text becomes the panic value.\<close>

fun error_text :: "error \<Rightarrow> string" where
  "error_text (Panic s) = s"
| "error_text (Err s) = s"
| "error_text (Wrap s e) = s @ '': '' @ error_text e"

definition must :: "'a result \<Rightarrow> 'a result" where
  "must m = (case m of Inl e \<Rightarrow> Inl (Panic (error_text e)) | Inr x \<Rightarrow> Inr x)"

definition MaxEpoch :: "Epoch \<Rightarrow> Epoch \<Rightarrow> Epoch" where
  "MaxEpoch a b = (if a > b then a else b)"

definition Epoch_SafeMul :: "Epoch \<Rightarrow> u64 \<Rightarrow> Epoch result" where
  "Epoch_SafeMul e x = Mul64 e x"

definition Epoch_Mul :: "Epoch \<Rightarrow> u64 \<Rightarrow> Epoch result" where
  "Epoch_Mul e x = must (Epoch_SafeMul e x)"

definition Epoch_SafeDiv :: "Epoch \<Rightarrow> u64 \<Rightarrow> Epoch result" where
  "Epoch_SafeDiv e x = Div64 e x"

definition Epoch_Div :: "Epoch \<Rightarrow> u64 \<Rightarrow> Epoch result" where
  "Epoch_Div e x = must (Epoch_SafeDiv e x)"

definition Epoch_SafeAdd :: "Epoch \<Rightarrow> u64 \<Rightarrow> Epoch result" where
  "Epoch_SafeAdd e x = Add64 e x"

definition Epoch_Add :: "Epoch \<Rightarrow> u64 \<Rightarrow> Epoch result" where
  "Epoch_Add e x = must (Epoch_SafeAdd e x)"

definition Epoch_AddEpoch :: "Epoch \<Rightarrow> Epoch \<Rightarrow> Epoch result" where
  "Epoch_AddEpoch e x = Epoch_Add e x"

definition Epoch_SafeAddEpoch :: "Epoch \<Rightarrow> Epoch \<Rightarrow> Epoch result" where
  "Epoch_SafeAddEpoch e x = Epoch_SafeAdd e x"

definition Epoch_SafeSub :: "Epoch \<Rightarrow> u64 \<Rightarrow> Epoch result" where
  "Epoch_SafeSub e x = Sub64 e x"

definition Epoch_Sub :: "Epoch \<Rightarrow> u64 \<Rightarrow> Epoch result" where
  "Epoch_Sub e x = must (Epoch_SafeSub e x)"

definition Epoch_SafeMod :: "Epoch \<Rightarrow> u64 \<Rightarrow> Epoch result" where
  "Epoch_SafeMod e x = Mod64 e x"

definition Epoch_Mod :: "Epoch \<Rightarrow> u64 \<Rightarrow> Epoch result" where
  "Epoch_Mod e x = must (Epoch_SafeMod e x)"

definition Slot_SafeMul :: "Slot \<Rightarrow> u64 \<Rightarrow> Slot result" where
  "Slot_SafeMul s x = Mul64 s x"

definition Slot_Mul :: "Slot \<Rightarrow> u64 \<Rightarrow> Slot result" where
  "Slot_Mul s x = must (Slot_SafeMul s x)"

definition Slot_MulSlot :: "Slot \<Rightarrow> Slot \<Rightarrow> Slot result" where
  "Slot_MulSlot s x = Slot_Mul s x"

definition Slot_SafeMulSlot :: "Slot \<Rightarrow> Slot \<Rightarrow> Slot result" where
  "Slot_SafeMulSlot s x = Slot_SafeMul s x"

definition Slot_SafeDiv :: "Slot \<Rightarrow> u64 \<Rightarrow> Slot result" where
  "Slot_SafeDiv s x = Div64 s x"

definition Slot_Div :: "Slot \<Rightarrow> u64 \<Rightarrow> Slot result" where
  "Slot_Div s x = must (Slot_SafeDiv s x)"

definition Slot_DivSlot :: "Slot \<Rightarrow> Slot \<Rightarrow> Slot result" where
  "Slot_DivSlot s x = Slot_Div s x"

definition Slot_SafeDivSlot :: "Slot \<Rightarrow> Slot \<Rightarrow> Slot result" where
  "Slot_SafeDivSlot s x = Slot_SafeDiv s x"

definition Slot_SafeAdd :: "Slot \<Rightarrow> u64 \<Rightarrow> Slot result" where
  "Slot_SafeAdd s x = Add64 s x"

definition Slot_Add :: "Slot \<Rightarrow> u64 \<Rightarrow> Slot result" where
  "Slot_Add s x = must (Slot_SafeAdd s x)"

definition Slot_AddSlot :: "Slot \<Rightarrow> Slot \<Rightarrow> Slot result" where
  "Slot_AddSlot s x = Slot_Add s x"

definition Slot_SafeAddSlot :: "Slot \<Rightarrow> Slot \<Rightarrow> Slot result" where
  "Slot_SafeAddSlot s x = Slot_SafeAdd s x"

definition Slot_SafeSub :: "Slot \<Rightarrow> u64 \<Rightarrow> Slot result" where
  "Slot_SafeSub s x = Sub64 s x"

definition Slot_Sub :: "Slot \<Rightarrow> u64 \<Rightarrow> Slot result" where
  "Slot_Sub s x = must (Slot_SafeSub s x)"

definition Slot_SubSlot :: "Slot \<Rightarrow> Slot \<Rightarrow> Slot result" where
  "Slot_SubSlot s x = Slot_Sub s x"

definition Slot_FlooredSubSlot :: "Slot \<Rightarrow> Slot \<Rightarrow> Slot" where
  "Slot_FlooredSubSlot s x = (if s < x then 0 else s - x)"

definition Slot_SafeSubSlot :: "Slot \<Rightarrow> Slot \<Rightarrow> Slot result" where
  "Slot_SafeSubSlot s x = Slot_SafeSub s x"

definition Slot_SafeMod :: "Slot \<Rightarrow> u64 \<Rightarrow> Slot result" where
  "Slot_SafeMod s x = Mod64 s x"

definition Slot_Mod :: "Slot \<Rightarrow> u64 \<Rightarrow> Slot result" where
  "Slot_Mod s x = must (Slot_SafeMod s x)"

definition Slot_ModSlot :: "Slot \<Rightarrow> Slot \<Rightarrow> Slot result" where
  "Slot_ModSlot s x = Slot_Mod s x"

definition Slot_SafeModSlot :: "Slot \<Rightarrow> Slot \<Rightarrow> Slot result" where
  "Slot_SafeModSlot s x = Slot_SafeMod s x"

definition ValidatorIndex_Div :: "ValidatorIndex \<Rightarrow> u64 \<Rightarrow> ValidatorIndex result" where
  "ValidatorIndex_Div v x = (if x = 0 then Inl (Panic ''divbyzero'') else Inr (v div x))"

definition ValidatorIndex_Add :: "ValidatorIndex \<Rightarrow> u64 \<Rightarrow> ValidatorIndex" where
  "ValidatorIndex_Add v x = v + x"

definition ValidatorIndex_Sub :: "ValidatorIndex \<Rightarrow> u64 \<Rightarrow> ValidatorIndex result" where
  "ValidatorIndex_Sub v x = (if v < x then Inl (Panic ''underflow'') else Inr (v - x))"

definition ValidatorIndex_Mod :: "ValidatorIndex \<Rightarrow> u64 \<Rightarrow> ValidatorIndex result" where
  "ValidatorIndex_Mod v x = umod v x"

text \<open>\<^verbatim>\<open>Wei\<close> is a pointer to a \<^verbatim>\<open>big.Int\<close>: \<open>None\<close> is nil. \<^verbatim>\<open>Div\<close> is Euclidean division and
  \<^verbatim>\<open>Uint64\<close> keeps the low 64 bits of the absolute value.\<close>

definition WeiToGwei :: "int option \<Rightarrow> Gwei" where
  "WeiToGwei v = (case v of None \<Rightarrow> 0 | Some w \<Rightarrow> word_of_int \<bar>w div 1000000000\<bar>)"

definition Uint64ToWei :: "u64 \<Rightarrow> int option" where
  "Uint64ToWei v = Some (uint v)"

fun be_bytes_to_int :: "u8 list \<Rightarrow> int \<Rightarrow> int" where
  "be_bytes_to_int [] acc = acc"
| "be_bytes_to_int (b # bs) acc = be_bytes_to_int bs (256 * acc + uint b)"

definition LittleEndianBytesToWei :: "u8 list \<Rightarrow> int option" where
  "LittleEndianBytesToWei value =
     (if value = [] then Some 0 else Some (be_bytes_to_int (rev value) 0))"

section \<open>The two families agree\<close>

lemma must_eq_Inr [simp]: "must m = Inr x \<longleftrightarrow> m = Inr x"
  by (cases m) (simp_all add: must_def)

lemma must_Inr [simp]: "must (Inr x) = Inr x"
  by (simp add: must_def)

lemma must_no_error: "must m = Inl e \<Longrightarrow> is_panic e"
  by (cases m) (auto simp: must_def)

lemmas epoch_ops =
  Epoch_SafeMul_def Epoch_Mul_def Epoch_SafeDiv_def Epoch_Div_def Epoch_SafeAdd_def Epoch_Add_def
  Epoch_AddEpoch_def Epoch_SafeAddEpoch_def Epoch_SafeSub_def Epoch_Sub_def Epoch_SafeMod_def
  Epoch_Mod_def

lemmas slot_ops =
  Slot_SafeMul_def Slot_Mul_def Slot_MulSlot_def Slot_SafeMulSlot_def Slot_SafeDiv_def Slot_Div_def
  Slot_DivSlot_def Slot_SafeDivSlot_def Slot_SafeAdd_def Slot_Add_def Slot_AddSlot_def
  Slot_SafeAddSlot_def Slot_SafeSub_def Slot_Sub_def Slot_SubSlot_def Slot_SafeSubSlot_def
  Slot_SafeMod_def Slot_Mod_def Slot_ModSlot_def Slot_SafeModSlot_def

lemma Slot_DivSlot_nz [simp]: "x \<noteq> 0 \<Longrightarrow> Slot_DivSlot s x = Inr (s div x)"
  by (simp add: slot_ops)

lemma Slot_ModSlot_nz [simp]: "x \<noteq> 0 \<Longrightarrow> Slot_ModSlot s x = Inr (s mod x)"
  by (simp add: slot_ops)

lemma be_bytes_to_int_shift: "be_bytes_to_int bs acc = acc * 256 ^ length bs + be_bytes_to_int bs 0"
proof (induction bs arbitrary: acc)
  case Nil
  then show ?case by simp
next
  case (Cons b bs)
  have "be_bytes_to_int (b # bs) acc = (256 * acc + uint b) * 256 ^ length bs + be_bytes_to_int bs 0"
    using Cons.IH [of "256 * acc + uint b"] by simp
  also have "\<dots> = acc * 256 ^ length (b # bs) + (uint b * 256 ^ length bs + be_bytes_to_int bs 0)"
    by (simp add: algebra_simps)
  also have "uint b * 256 ^ length bs + be_bytes_to_int bs 0 = be_bytes_to_int (b # bs) 0"
    using Cons.IH [of "uint b"] by simp
  finally show ?case .
qed

lemma be_bytes_to_int_append:
  "be_bytes_to_int (xs @ ys) acc = be_bytes_to_int ys (be_bytes_to_int xs acc)"
  by (induction xs arbitrary: acc) simp_all

lemma LittleEndianBytesToWei_Cons:
  "LittleEndianBytesToWei (b # bs) = Some (uint b + 256 * the (LittleEndianBytesToWei bs))"
  by (cases bs) (simp_all add: LittleEndianBytesToWei_def be_bytes_to_int_append)

end
