(* ===== verification/Config.thy ===== *)
theory Config
  imports Primitives
begin

text \<open>
  The chain configuration of \<^verbatim>\<open>src/config/params\<close>: the fields of \<^verbatim>\<open>BeaconChainConfig\<close> that the
  modelled code reads, and the values of \<^verbatim>\<open>mainnetBeaconConfig\<close>. The global that
  \<^verbatim>\<open>params.BeaconConfig()\<close> returns is an explicit argument \<open>c\<close> of every operation.
  The fork versions of \<^verbatim>\<open>runtime/version\<close> are integers in the order of the source.
\<close>

section \<open>Fork versions\<close>

definition Phase0 :: int where "Phase0 = 0"
definition Altair :: int where "Altair = 1"
definition Bellatrix :: int where "Bellatrix = 2"
definition Capella :: int where "Capella = 3"
definition Deneb :: int where "Deneb = 4"
definition Electra :: int where "Electra = 5"
definition Fulu :: int where "Fulu = 6"
definition Gloas :: int where "Gloas = 7"

lemmas version_defs = Phase0_def Altair_def Bellatrix_def Capella_def Deneb_def Electra_def
  Fulu_def Gloas_def

definition version_String :: "int \<Rightarrow> string" where
  "version_String v =
     (if v = Phase0 then ''phase0'' else if v = Altair then ''altair''
      else if v = Bellatrix then ''bellatrix'' else if v = Capella then ''capella''
      else if v = Deneb then ''deneb'' else if v = Electra then ''electra''
      else if v = Fulu then ''fulu'' else if v = Gloas then ''gloas''
      else ''unknown version'')"

definition version_FromString :: "string \<Rightarrow> int result" where
  "version_FromString name =
     (case List.find (\<lambda>v. version_String v = name)
             [Phase0, Altair, Bellatrix, Capella, Deneb, Electra, Fulu, Gloas] of
        Some v \<Rightarrow> Inr v
      | None \<Rightarrow> Inl (Wrap name (Err ''version name doesn't map to a known value in the enum'')))"

section \<open>The configuration record\<close>

text \<open>\<^verbatim>\<open>BlobScheduleEntry\<close> is the same structure as \<^verbatim>\<open>NetworkScheduleEntry\<close>.\<close>

record NetworkScheduleEntry =
  nse_ForkVersion :: "u8 list"
  nse_ForkDigest :: "u8 list"
  nse_MaxBlobsPerBlock :: u64
  nse_Epoch :: Epoch
  nse_BPOEpoch :: Epoch
  nse_VersionEnum :: int
  nse_isFork :: bool

definition zero_entry :: NetworkScheduleEntry where
  "zero_entry = \<lparr>nse_ForkVersion = [0, 0, 0, 0], nse_ForkDigest = [0, 0, 0, 0],
     nse_MaxBlobsPerBlock = 0, nse_Epoch = 0, nse_BPOEpoch = 0, nse_VersionEnum = 0,
     nse_isFork = False\<rparr>"

record BeaconChainConfig =
  FarFutureEpoch :: Epoch
  FarFutureSlot :: Slot
  BaseRewardsPerEpoch :: u64
  TargetCommitteeSize :: u64
  MaxCommitteesPerSlot :: u64
  MinPerEpochChurnLimit :: u64
  ChurnLimitQuotient :: u64
  HysteresisQuotient :: u64
  HysteresisDownwardMultiplier :: u64
  HysteresisUpwardMultiplier :: u64
  MinDepositAmount :: u64
  MinActivationBalance :: u64
  MaxEffectiveBalance :: u64
  EjectionBalance :: u64
  EffectiveBalanceIncrement :: u64
  BLSWithdrawalPrefixByte :: u8
  ETH1AddressWithdrawalPrefixByte :: u8
  CompoundingWithdrawalPrefixByte :: u8
  MinAttestationInclusionDelay :: Slot
  SecondsPerSlot :: u64
  SlotDurationMilliseconds :: u64
  SlotTimeForkOneSlot :: u64
  SlotTimeForkOneMillis :: u64
  SlotTimeForkTwoSlot :: u64
  SlotTimeForkTwoMillis :: u64
  SlotsPerEpoch :: Slot
  SqrRootSlotsPerEpoch :: Slot
  MinSeedLookahead :: Epoch
  MaxSeedLookahead :: Epoch
  EpochsPerEth1VotingPeriod :: Epoch
  SlotsPerHistoricalRoot :: Slot
  MinValidatorWithdrawabilityDelay :: Epoch
  ShardCommitteePeriod :: Epoch
  MinEpochsToInactivityPenalty :: Epoch
  ProposerScoreBoost :: u64
  ReorgHeadWeightThreshold :: u64
  ReorgParentWeightThreshold :: u64
  ReorgMaxEpochsSinceFinalization :: Epoch
  AttestationDueBPS :: BP
  AggregateDueBPS :: BP
  SyncMessageDueBPS :: BP
  ContributionDueBPS :: BP
  AttestationDueBPSGloas :: BP
  AggregateDueBPSGloas :: BP
  SyncMessageDueBPSGloas :: BP
  ContributionDueBPSGloas :: BP
  AttestationOffsetMs :: u64
  AggregationOffsetMs :: u64
  EpochsPerHistoricalVector :: Epoch
  EpochsPerSlashingsVector :: Epoch
  HistoricalRootsLimit :: u64
  BaseRewardFactor :: u64
  WhistleBlowerRewardQuotient :: u64
  ProposerRewardQuotient :: u64
  InactivityPenaltyQuotient :: u64
  MinSlashingPenaltyQuotient :: u64
  ProportionalSlashingMultiplier :: u64
  MaxAttestations :: u64
  MaxWithdrawalsPerPayload :: u64
  MaxValidatorsPerWithdrawalsSweep :: u64
  GenesisEpoch :: Epoch
  AltairForkEpoch :: Epoch
  BellatrixForkEpoch :: Epoch
  CapellaForkEpoch :: Epoch
  DenebForkEpoch :: Epoch
  ElectraForkEpoch :: Epoch
  FuluForkEpoch :: Epoch
  GloasForkEpoch :: Epoch
  TimelySourceFlagIndex :: u8
  TimelyTargetFlagIndex :: u8
  TimelyHeadFlagIndex :: u8
  TimelySourceWeight :: u64
  TimelyTargetWeight :: u64
  TimelyHeadWeight :: u64
  SyncRewardWeight :: u64
  WeightDenominator :: u64
  ProposerWeight :: u64
  SyncCommitteeSize :: u64
  InactivityScoreBias :: u64
  InactivityScoreRecoveryRate :: u64
  EpochsPerSyncCommitteePeriod :: Epoch
  InactivityPenaltyQuotientAltair :: u64
  MinSlashingPenaltyQuotientAltair :: u64
  ProportionalSlashingMultiplierAltair :: u64
  MinSlashingPenaltyQuotientBellatrix :: u64
  ProportionalSlashingMultiplierBellatrix :: u64
  InactivityPenaltyQuotientBellatrix :: u64
  MaxPerEpochActivationChurnLimit :: u64
  MinEpochsForBlobsSidecarsRequest :: Epoch
  MaxPerEpochActivationExitChurnLimit :: u64
  MinPerEpochChurnLimitElectra :: u64
  MaxEffectiveBalanceElectra :: u64
  MinSlashingPenaltyQuotientElectra :: u64
  WhistleBlowerRewardQuotientElectra :: u64
  PendingPartialWithdrawalsLimit :: u64
  PendingConsolidationsLimit :: u64
  MaxPendingPartialsPerWithdrawalsSweep :: u64
  MaxPendingDepositsPerEpoch :: u64
  FullExitRequestAmount :: u64
  UnsetDepositRequestsStartIndex :: u64
  MinEpochsForDataColumnSidecarsRequest :: Epoch
  GenesisForkVersion :: "u8 list"
  AltairForkVersion :: "u8 list"
  BellatrixForkVersion :: "u8 list"
  CapellaForkVersion :: "u8 list"
  DenebForkVersion :: "u8 list"
  ElectraForkVersion :: "u8 list"
  FuluForkVersion :: "u8 list"
  GenesisValidatorsRoot :: "u8 list"
  BlobSchedule :: "NetworkScheduleEntry list"
  DeprecatedMaxBlobsPerBlock :: int
  DeprecatedMaxBlobsPerBlockElectra :: int
  DeprecatedTargetBlobsPerBlockElectra :: int
  ShuffleRoundCount :: u64
  TargetAggregatorsPerCommittee :: u64
  MaxProposerSlashings :: u64
  MaxAttesterSlashings :: u64
  MaxAttesterSlashingsElectra :: u64
  MaxAttestationsElectra :: u64
  MaxDeposits :: u64
  MaxVoluntaryExits :: u64
  MaxBlsToExecutionChanges :: u64
  DomainBeaconProposer :: "u8 list"
  DomainBeaconAttester :: "u8 list"
  DomainRandao :: "u8 list"
  DomainDeposit :: "u8 list"
  DomainSyncCommittee :: "u8 list"
  SafetyDecay :: u64
  TargetAggregatorsPerSyncSubcommittee :: u64
  SyncCommitteeSubnetCount :: u64
  NumberOfCustodyGroups :: u64
  CustodyRequirement :: u64
  ValidatorCustodyRequirement :: u64
  BalancePerAdditionalCustodyGroup :: u64
  SamplesPerSlot :: u64
  AttestationPropagationSlotRange :: Slot
  AttestationSubnetCount :: u64
  MaximumGossipClockDisparity :: u64

definition mainnetBeaconConfig :: BeaconChainConfig where
  "mainnetBeaconConfig = \<lparr>
     FarFutureEpoch = max_u64,
     FarFutureSlot = max_u64,
     BaseRewardsPerEpoch = 4,
     TargetCommitteeSize = 128,
     MaxCommitteesPerSlot = 64,
     MinPerEpochChurnLimit = 4,
     ChurnLimitQuotient = 65536,
     HysteresisQuotient = 4,
     HysteresisDownwardMultiplier = 1,
     HysteresisUpwardMultiplier = 5,
     MinDepositAmount = 1000000000,
     MinActivationBalance = 32000000000,
     MaxEffectiveBalance = 32000000000,
     EjectionBalance = 16000000000,
     EffectiveBalanceIncrement = 1000000000,
     BLSWithdrawalPrefixByte = 0,
     ETH1AddressWithdrawalPrefixByte = 1,
     CompoundingWithdrawalPrefixByte = 2,
     MinAttestationInclusionDelay = 1,
     SecondsPerSlot = 12,
     SlotDurationMilliseconds = 12000,
     SlotTimeForkOneSlot = 0,
     SlotTimeForkOneMillis = 0,
     SlotTimeForkTwoSlot = 0,
     SlotTimeForkTwoMillis = 0,
     SlotsPerEpoch = 32,
     SqrRootSlotsPerEpoch = 5,
     MinSeedLookahead = 1,
     MaxSeedLookahead = 4,
     EpochsPerEth1VotingPeriod = 64,
     SlotsPerHistoricalRoot = 8192,
     MinValidatorWithdrawabilityDelay = 256,
     ShardCommitteePeriod = 256,
     MinEpochsToInactivityPenalty = 4,
     ProposerScoreBoost = 40,
     ReorgHeadWeightThreshold = 20,
     ReorgParentWeightThreshold = 160,
     ReorgMaxEpochsSinceFinalization = 2,
     AttestationDueBPS = 3333,
     AggregateDueBPS = 6667,
     SyncMessageDueBPS = 3333,
     ContributionDueBPS = 6667,
     AttestationDueBPSGloas = 2500,
     AggregateDueBPSGloas = 5000,
     SyncMessageDueBPSGloas = 2500,
     ContributionDueBPSGloas = 5000,
     AttestationOffsetMs = 0,
     AggregationOffsetMs = 0,
     EpochsPerHistoricalVector = 65536,
     EpochsPerSlashingsVector = 8192,
     HistoricalRootsLimit = 16777216,
     BaseRewardFactor = 64,
     WhistleBlowerRewardQuotient = 512,
     ProposerRewardQuotient = 8,
     InactivityPenaltyQuotient = 67108864,
     MinSlashingPenaltyQuotient = 128,
     ProportionalSlashingMultiplier = 1,
     MaxAttestations = 128,
     MaxWithdrawalsPerPayload = 16,
     MaxValidatorsPerWithdrawalsSweep = 16384,
     GenesisEpoch = 0,
     AltairForkEpoch = 74240,
     BellatrixForkEpoch = 144896,
     CapellaForkEpoch = 194048,
     DenebForkEpoch = 269568,
     ElectraForkEpoch = 364032,
     FuluForkEpoch = 411392,
     GloasForkEpoch = max_u64,
     TimelySourceFlagIndex = 0,
     TimelyTargetFlagIndex = 1,
     TimelyHeadFlagIndex = 2,
     TimelySourceWeight = 14,
     TimelyTargetWeight = 26,
     TimelyHeadWeight = 14,
     SyncRewardWeight = 2,
     WeightDenominator = 64,
     ProposerWeight = 8,
     SyncCommitteeSize = 512,
     InactivityScoreBias = 4,
     InactivityScoreRecoveryRate = 16,
     EpochsPerSyncCommitteePeriod = 256,
     InactivityPenaltyQuotientAltair = 50331648,
     MinSlashingPenaltyQuotientAltair = 64,
     ProportionalSlashingMultiplierAltair = 2,
     MinSlashingPenaltyQuotientBellatrix = 32,
     ProportionalSlashingMultiplierBellatrix = 3,
     InactivityPenaltyQuotientBellatrix = 16777216,
     MaxPerEpochActivationChurnLimit = 8,
     MinEpochsForBlobsSidecarsRequest = 4096,
     MaxPerEpochActivationExitChurnLimit = 256000000000,
     MinPerEpochChurnLimitElectra = 128000000000,
     MaxEffectiveBalanceElectra = 2048000000000,
     MinSlashingPenaltyQuotientElectra = 4096,
     WhistleBlowerRewardQuotientElectra = 4096,
     PendingPartialWithdrawalsLimit = 134217728,
     PendingConsolidationsLimit = 262144,
     MaxPendingPartialsPerWithdrawalsSweep = 8,
     MaxPendingDepositsPerEpoch = 16,
     FullExitRequestAmount = 0,
     UnsetDepositRequestsStartIndex = max_u64,
     MinEpochsForDataColumnSidecarsRequest = 4096,
     GenesisForkVersion = [0, 0, 0, 0],
     AltairForkVersion = [1, 0, 0, 0],
     BellatrixForkVersion = [2, 0, 0, 0],
     CapellaForkVersion = [3, 0, 0, 0],
     DenebForkVersion = [4, 0, 0, 0],
     ElectraForkVersion = [5, 0, 0, 0],
     FuluForkVersion = [6, 0, 0, 0],
     GenesisValidatorsRoot =
       [75, 54, 61, 185, 78, 40, 97, 32, 215, 110, 185, 5, 52, 15, 221, 78,
        84, 191, 233, 240, 107, 243, 63, 246, 207, 90, 210, 127, 81, 27, 254, 149],
     BlobSchedule =
       [zero_entry \<lparr>nse_Epoch := 412672, nse_MaxBlobsPerBlock := 15\<rparr>,
        zero_entry \<lparr>nse_Epoch := 419072, nse_MaxBlobsPerBlock := 21\<rparr>],
     DeprecatedMaxBlobsPerBlock = 6,
     DeprecatedMaxBlobsPerBlockElectra = 9,
     DeprecatedTargetBlobsPerBlockElectra = 6,
     ShuffleRoundCount = 90,
     TargetAggregatorsPerCommittee = 16,
     MaxProposerSlashings = 16,
     MaxAttesterSlashings = 2,
     MaxAttesterSlashingsElectra = 1,
     MaxAttestationsElectra = 8,
     MaxDeposits = 16,
     MaxVoluntaryExits = 16,
     MaxBlsToExecutionChanges = 16,
     DomainBeaconProposer = [0, 0, 0, 0],
     DomainBeaconAttester = [1, 0, 0, 0],
     DomainRandao = [2, 0, 0, 0],
     DomainDeposit = [3, 0, 0, 0],
     DomainSyncCommittee = [7, 0, 0, 0],
     SafetyDecay = 10,
     TargetAggregatorsPerSyncSubcommittee = 16,
     SyncCommitteeSubnetCount = 4,
     NumberOfCustodyGroups = 128,
     CustodyRequirement = 4,
     ValidatorCustodyRequirement = 8,
     BalancePerAdditionalCustodyGroup = 32000000000,
     SamplesPerSlot = 8,
     AttestationPropagationSlotRange = 32,
     AttestationSubnetCount = 64,
     MaximumGossipClockDisparity = 500\<rparr>"

section \<open>Well-formed configurations\<close>

text \<open>The laws of a configuration that the properties below rely on: none of the constants the
  code divides by is zero and the far-future epoch is the largest epoch.\<close>

definition valid_config :: "BeaconChainConfig \<Rightarrow> bool" where
  "valid_config c \<longleftrightarrow>
     SlotsPerEpoch c \<noteq> 0 \<and> SlotsPerHistoricalRoot c \<noteq> 0 \<and> EpochsPerSyncCommitteePeriod c \<noteq> 0 \<and>
     EpochsPerHistoricalVector c \<noteq> 0 \<and> EpochsPerSlashingsVector c \<noteq> 0 \<and>
     ChurnLimitQuotient c \<noteq> 0 \<and> EffectiveBalanceIncrement c \<noteq> 0 \<and> HysteresisQuotient c \<noteq> 0 \<and>
     InactivityScoreBias c \<noteq> 0 \<and> WeightDenominator c \<noteq> 0 \<and> FarFutureEpoch c = max_u64"

lemma valid_configD [simp]:
  assumes "valid_config c"
  shows "SlotsPerEpoch c \<noteq> 0" "SlotsPerHistoricalRoot c \<noteq> 0" "EpochsPerSyncCommitteePeriod c \<noteq> 0"
    "EpochsPerHistoricalVector c \<noteq> 0" "EpochsPerSlashingsVector c \<noteq> 0" "ChurnLimitQuotient c \<noteq> 0"
    "EffectiveBalanceIncrement c \<noteq> 0" "HysteresisQuotient c \<noteq> 0" "InactivityScoreBias c \<noteq> 0"
    "WeightDenominator c \<noteq> 0" "FarFutureEpoch c = max_u64"
  using assms by (simp_all add: valid_config_def)

lemma valid_config_mainnet: "valid_config mainnetBeaconConfig"
  by (simp add: valid_config_def mainnetBeaconConfig_def)

text \<open>The versions and their names are in bijection.\<close>

lemma version_FromString_String:
  assumes "0 \<le> v" "v \<le> 7"
  shows "version_FromString (version_String v) = Inr v"
proof -
  from assms have "v \<in> {0, 1, 2, 3, 4, 5, 6, 7}" by auto
  then show ?thesis
    by (auto simp: version_FromString_def version_String_def version_defs)
qed

end
