(* ===== verification/Slot_Schedule.thy ===== *)
theory Slot_Schedule
  imports Config
begin

text \<open>
  The slot-duration schedule and the intra-slot duty times of \<^verbatim>\<open>src/config/params/config.go\<close>:
  \<^verbatim>\<open>SlotTimeSchedule\<close>, the conversions from slots to durations, \<^verbatim>\<open>dutyDue\<close> and its four clients,
  and the check \<^verbatim>\<open>ValidateDutyOffsets\<close>. A \<^verbatim>\<open>time.Duration\<close> is the integer of its nanoseconds;
  \<open>time_Mul\<close> wraps at 64 bits as the product of two durations does in Go.
\<close>

section \<open>Definitions\<close>

definition Millisecond :: int where "Millisecond = 1000000"
definition Second :: int where "Second = 1000000000"

definition time_Mul :: "int \<Rightarrow> int \<Rightarrow> int" where
  "time_Mul a b = to_i64 (a * b)"

text \<open>\<^verbatim>\<open>time.Duration(ms) * time.Millisecond\<close> on a \<^verbatim>\<open>uint64\<close>.\<close>

definition millis :: "u64 \<Rightarrow> int" where
  "millis ms = time_Mul (i64_of_u64 ms) Millisecond"

definition BasisPoints :: BP where "BasisPoints = 10000"

definition SlotDurationMillis :: "BeaconChainConfig \<Rightarrow> u64" where
  "SlotDurationMillis c =
     (if SlotDurationMilliseconds c > 0 then SlotDurationMilliseconds c
      else SecondsPerSlot c * 1000)"

definition SlotBP :: "BeaconChainConfig \<Rightarrow> BP" where
  "SlotBP c = SlotDurationMillis c"

definition SlotDuration :: "BeaconChainConfig \<Rightarrow> int" where
  "SlotDuration c = millis (SlotDurationMillis c)"

definition SlotsForEpochs :: "BeaconChainConfig \<Rightarrow> Epoch \<Rightarrow> Slot" where
  "SlotsForEpochs c count = count * SlotsPerEpoch c"

definition SlotsDuration :: "BeaconChainConfig \<Rightarrow> Slot \<Rightarrow> int" where
  "SlotsDuration c count = time_Mul (i64_of_u64 count) (SlotDuration c)"

definition EpochsDuration :: "BeaconChainConfig \<Rightarrow> Epoch \<Rightarrow> int" where
  "EpochsDuration c count = SlotsDuration c (SlotsForEpochs c count)"

definition slotFraction :: "int \<Rightarrow> BP \<Rightarrow> int" where
  "slotFraction slotDuration bp =
     millis ((bp * u64_of_i64 (quot_i64 slotDuration Millisecond)) div BasisPoints)"

definition SlotComponentDuration :: "BeaconChainConfig \<Rightarrow> BP \<Rightarrow> int" where
  "SlotComponentDuration c bp = slotFraction (SlotDuration c) bp"

definition dutyDue :: "BeaconChainConfig \<Rightarrow> int \<Rightarrow> Epoch \<Rightarrow> u64 \<Rightarrow> BP \<Rightarrow> BP \<Rightarrow> int" where
  "dutyDue c slotDuration epoch overrideMs bp bpGloas =
     (if overrideMs > 0 then millis overrideMs
      else slotFraction slotDuration (if epoch \<ge> GloasForkEpoch c then bpGloas else bp))"

definition AttestationDue :: "BeaconChainConfig \<Rightarrow> int \<Rightarrow> Epoch \<Rightarrow> int" where
  "AttestationDue c slotDuration epoch =
     dutyDue c slotDuration epoch (AttestationOffsetMs c) (AttestationDueBPS c)
       (AttestationDueBPSGloas c)"

definition AggregationDue :: "BeaconChainConfig \<Rightarrow> int \<Rightarrow> Epoch \<Rightarrow> int" where
  "AggregationDue c slotDuration epoch =
     dutyDue c slotDuration epoch (AggregationOffsetMs c) (AggregateDueBPS c)
       (AggregateDueBPSGloas c)"

definition SyncMessageDue :: "BeaconChainConfig \<Rightarrow> int \<Rightarrow> Epoch \<Rightarrow> int" where
  "SyncMessageDue c slotDuration epoch =
     dutyDue c slotDuration epoch (AttestationOffsetMs c) (SyncMessageDueBPS c)
       (SyncMessageDueBPSGloas c)"

definition ContributionDue :: "BeaconChainConfig \<Rightarrow> int \<Rightarrow> Epoch \<Rightarrow> int" where
  "ContributionDue c slotDuration epoch =
     dutyDue c slotDuration epoch (AggregationOffsetMs c) (ContributionDueBPS c)
       (ContributionDueBPSGloas c)"

record SlotTimeSegment =
  StartSlot :: u64
  DurationMillis :: u64

definition schedule_add :: "SlotTimeSegment \<Rightarrow> SlotTimeSegment list \<Rightarrow> SlotTimeSegment list" where
  "schedule_add s segments =
     (if StartSlot s = 0 \<or> DurationMillis s = 0 then segments
      else if StartSlot s \<le> StartSlot (last segments) then segments
      else segments @ [s])"

definition SlotTimeSchedule :: "BeaconChainConfig \<Rightarrow> SlotTimeSegment list" where
  "SlotTimeSchedule c =
     fold schedule_add
       [\<lparr>StartSlot = SlotTimeForkOneSlot c, DurationMillis = SlotTimeForkOneMillis c\<rparr>,
        \<lparr>StartSlot = SlotTimeForkTwoSlot c, DurationMillis = SlotTimeForkTwoMillis c\<rparr>]
       [\<lparr>StartSlot = 0, DurationMillis = SlotDurationMillis c\<rparr>]"

definition duty_epochs :: "BeaconChainConfig \<Rightarrow> Epoch list" where
  "duty_epochs c =
     [0] @ (if GloasForkEpoch c \<noteq> FarFutureEpoch c \<and> GloasForkEpoch c > 0
            then [GloasForkEpoch c] else [])"

definition check_duties :: "BeaconChainConfig \<Rightarrow> int \<Rightarrow> Epoch \<Rightarrow> unit \<Rightarrow> unit result" where
  "check_duties c slotDuration epoch u =
     (let att = AttestationDue c slotDuration epoch;
          agg = AggregationDue c slotDuration epoch
      in if att \<ge> slotDuration
         then Inl (Err ''ATTESTATION_OFFSET_MS must be less than the slot duration'')
         else if agg \<ge> slotDuration
         then Inl (Err ''AGGREGATION_OFFSET_MS must be less than the slot duration'')
         else if att \<ge> agg
         then Inl (Err ''attestations must be due before aggregates'')
         else Inr ())"

definition ValidateDutyOffsets :: "BeaconChainConfig \<Rightarrow> unit result" where
  "ValidateDutyOffsets c =
     (if AttestationOffsetMs c = 0 \<and> AggregationOffsetMs c = 0 then Inr ()
      else foldR (\<lambda>seg. foldR (check_duties c (millis (DurationMillis seg))) (duty_epochs c))
             (SlotTimeSchedule c) ())"

definition DenebEnabled :: "BeaconChainConfig \<Rightarrow> bool" where
  "DenebEnabled c \<longleftrightarrow> DenebForkEpoch c < max_u64"

definition ElectraEnabled :: "BeaconChainConfig \<Rightarrow> bool" where
  "ElectraEnabled c \<longleftrightarrow> ElectraForkEpoch c < max_u64"

definition FuluEnabled :: "BeaconChainConfig \<Rightarrow> bool" where
  "FuluEnabled c \<longleftrightarrow> FuluForkEpoch c < max_u64"

definition WithinDAPeriod :: "BeaconChainConfig \<Rightarrow> Epoch \<Rightarrow> Epoch \<Rightarrow> bool" where
  "WithinDAPeriod c block current =
     (if block \<ge> FuluForkEpoch c
      then block + MinEpochsForDataColumnSidecarsRequest c \<ge> current
      else block + MinEpochsForBlobsSidecarsRequest c \<ge> current)"

definition Eth1DataVotesLength :: "BeaconChainConfig \<Rightarrow> u64 result" where
  "Eth1DataVotesLength c = Epoch_Mul (EpochsPerEth1VotingPeriod c) (SlotsPerEpoch c)"

definition PreviousEpochAttestationsLength :: "BeaconChainConfig \<Rightarrow> u64 result" where
  "PreviousEpochAttestationsLength c = Slot_Mul (SlotsPerEpoch c) (MaxAttestations c)"

definition CurrentEpochAttestationsLength :: "BeaconChainConfig \<Rightarrow> u64 result" where
  "CurrentEpochAttestationsLength c = Slot_Mul (SlotsPerEpoch c) (MaxAttestations c)"

section \<open>The schedule is ascending and starts at slot 0\<close>

text \<open>The shape every schedule has, whatever the configuration.\<close>

definition ascending :: "SlotTimeSegment list \<Rightarrow> bool" where
  "ascending segs \<longleftrightarrow> segs \<noteq> [] \<and> StartSlot (hd segs) = 0 \<and> sorted_wrt (<) (map StartSlot segs)"

lemma sorted_wrt_snoc:
  fixes xs :: "'a::linorder list"
  assumes "sorted_wrt (<) xs" "xs \<noteq> []" "last xs < x"
  shows "sorted_wrt (<) (xs @ [x])"
proof -
  have "y \<le> last xs" if "y \<in> set xs" for y
    using assms(1,2) that by (induction xs) (auto simp: less_imp_le split: if_splits)
  then show ?thesis
    using assms by (fastforce simp: sorted_wrt_append)
qed

lemma schedule_add_ascending:
  assumes "ascending segs" shows "ascending (schedule_add s segs)"
proof (cases "schedule_add s segs = segs")
  case False
  then have *: "schedule_add s segs = segs @ [s]" "StartSlot (last segs) < StartSlot s"
    by (auto simp: schedule_add_def split: if_splits)
  have "sorted_wrt (<) (map StartSlot segs @ [StartSlot s])"
    using assms * by (intro sorted_wrt_snoc) (auto simp: ascending_def last_map)
  with assms * show ?thesis by (auto simp: ascending_def)
qed (use assms in simp)

lemma SlotTimeSchedule_ascending: "ascending (SlotTimeSchedule c)"
proof -
  have "ascending [\<lparr>StartSlot = 0, DurationMillis = d\<rparr>]" for d
    by (simp add: ascending_def)
  then show ?thesis
    by (simp add: SlotTimeSchedule_def schedule_add_ascending)
qed

lemma SlotTimeSchedule_ne [simp]: "SlotTimeSchedule c \<noteq> []"
  using SlotTimeSchedule_ascending [of c] by (simp add: ascending_def)

lemma SlotTimeSchedule_hd: "hd (SlotTimeSchedule c) = \<lparr>StartSlot = 0, DurationMillis = SlotDurationMillis c\<rparr>"
  by (auto simp: SlotTimeSchedule_def schedule_add_def)

lemma SlotTimeSchedule_uniform:
  assumes "SlotTimeForkOneSlot c = 0 \<or> SlotTimeForkOneMillis c = 0"
      and "SlotTimeForkTwoSlot c = 0 \<or> SlotTimeForkTwoMillis c = 0"
  shows "SlotTimeSchedule c = [\<lparr>StartSlot = 0, DurationMillis = SlotDurationMillis c\<rparr>]"
  using assms by (auto simp: SlotTimeSchedule_def schedule_add_def)

section \<open>Duty times\<close>

lemma foldR_unit_ok: "foldR f xs () = Inr u \<Longrightarrow> x \<in> set xs \<Longrightarrow> f x () = Inr ()"
  by (induction xs) (auto simp: bindR_eq_Inr)

lemma check_duties_ok:
  "check_duties c d epoch u = Inr v \<longleftrightarrow>
     AttestationDue c d epoch < AggregationDue c d epoch \<and> AggregationDue c d epoch < d"
  by (auto simp: check_duties_def Let_def)

text \<open>The due times depend on the epoch only through the Gloas switch.\<close>

lemma dutyDue_epoch:
  "(e \<ge> GloasForkEpoch c \<longleftrightarrow> e' \<ge> GloasForkEpoch c) \<Longrightarrow>
     dutyDue c d e ms bp bpg = dutyDue c d e' ms bp bpg"
  by (simp add: dutyDue_def)

lemma duty_epochs_cover:
  assumes "FarFutureEpoch c = max_u64" "e < max_u64"
  shows "\<exists>e' \<in> set (duty_epochs c). e \<ge> GloasForkEpoch c \<longleftrightarrow> e' \<ge> GloasForkEpoch c"
proof (cases "e \<ge> GloasForkEpoch c")
  case True
  with assms have "GloasForkEpoch c \<noteq> FarFutureEpoch c" by auto
  with True show ?thesis
    by (cases "GloasForkEpoch c = 0") (auto simp: duty_epochs_def word_neq_0_conv)
next
  case False
  then have "\<not> 0 \<ge> GloasForkEpoch c"
    by (metis word_le_0_iff word_zero_le)
  with False show ?thesis by (auto simp: duty_epochs_def)
qed

lemma ValidateDutyOffsets_sound:
  assumes ok: "ValidateDutyOffsets c = Inr u"
      and set: "AttestationOffsetMs c \<noteq> 0 \<or> AggregationOffsetMs c \<noteq> 0"
      and ff: "FarFutureEpoch c = max_u64"
      and seg: "seg \<in> set (SlotTimeSchedule c)" and e: "e < max_u64"
  shows "AttestationDue c (millis (DurationMillis seg)) e < AggregationDue c (millis (DurationMillis seg)) e"
    and "AggregationDue c (millis (DurationMillis seg)) e < millis (DurationMillis seg)"
proof -
  let ?d = "millis (DurationMillis seg)"
  from ok set have
    "foldR (\<lambda>seg. foldR (check_duties c (millis (DurationMillis seg))) (duty_epochs c))
       (SlotTimeSchedule c) () = Inr u"
    by (auto simp: ValidateDutyOffsets_def)
  then have *: "foldR (check_duties c ?d) (duty_epochs c) () = Inr ()"
    by (rule foldR_unit_ok [OF _ seg])
  obtain e' where e': "e' \<in> set (duty_epochs c)"
      and iff: "e \<ge> GloasForkEpoch c \<longleftrightarrow> e' \<ge> GloasForkEpoch c"
    using duty_epochs_cover [OF ff e] by auto
  have "AttestationDue c ?d e' < AggregationDue c ?d e' \<and> AggregationDue c ?d e' < ?d"
    using foldR_unit_ok [OF * e'] by (simp add: check_duties_ok)
  moreover have "AttestationDue c ?d e = AttestationDue c ?d e'"
      "AggregationDue c ?d e = AggregationDue c ?d e'"
    unfolding AttestationDue_def AggregationDue_def by (rule dutyDue_epoch [OF iff])+
  ultimately show "AttestationDue c ?d e < AggregationDue c ?d e" "AggregationDue c ?d e < ?d"
    by simp_all
qed

text \<open>A millisecond count below \<open>2 ^ 63 div 10 ^ 6\<close> is converted to nanoseconds exactly.\<close>

definition millis_ok :: "u64 \<Rightarrow> bool" where
  "millis_ok ms \<longleftrightarrow> uint ms * 1000000 < 2 ^ 63"

lemma millis_exact: "millis_ok ms \<Longrightarrow> millis ms = uint ms * 1000000"
proof -
  assume *: "millis_ok ms"
  then have "i64_of_u64 ms = uint ms"
    unfolding i64_of_u64_def millis_ok_def by (subst to_i64_id) (auto intro: in_i64I)
  with * show ?thesis
    unfolding millis_def time_Mul_def Millisecond_def millis_ok_def
    by (subst to_i64_id) (auto intro: in_i64I)
qed

end
