(* ===== verification/Slottime.thy ===== *)
theory Slottime
  imports Slot_Schedule
begin

text \<open>
  The slot clock of \<^verbatim>\<open>src/time/slots/slottime.go\<close>. A \<^verbatim>\<open>time.Time\<close> is the integer of its nanoseconds;
  \<^verbatim>\<open>Sub\<close> saturates at the bounds of \<^verbatim>\<open>int64\<close>. Every reading of the local clock is an argument
  \<open>now\<close>. The conversions between slots, epochs and time are the operations; the lemmas show that
  \<^verbatim>\<open>StartTime\<close> adds up the durations of all earlier slots of the piecewise schedule and that \<^verbatim>\<open>At\<close>
  inverts it.
\<close>

section \<open>The parts of package time\<close>

type_synonym Time = int

definition time_Sub :: "Time \<Rightarrow> Time \<Rightarrow> int" where
  "time_Sub t u = max (- (2 ^ 63)) (min (2 ^ 63 - 1) (t - u))"

definition time_Unix :: "int \<Rightarrow> int \<Rightarrow> Time" where
  "time_Unix sec nsec = sec * 1000000000 + nsec"

text \<open>\<^verbatim>\<open>Time.Unix\<close>: whole seconds, rounded down.\<close>

definition unix_of :: "Time \<Rightarrow> int" where
  "unix_of t = t div 1000000000"

definition idiv :: "int \<Rightarrow> int \<Rightarrow> int result" where
  "idiv a b = (if b = 0 then Inl (Panic ''integer divide by zero'') else Inr (quot_i64 a b))"

section \<open>Slots and epochs\<close>

definition errOverflow :: error where
  "errOverflow = Err ''slot calculation overflows''"

definition MaxSlotBuffer :: u64 where "MaxSlotBuffer = 128"

definition ToEpoch :: "BeaconChainConfig \<Rightarrow> Slot \<Rightarrow> Epoch result" where
  "ToEpoch c slot = Slot_DivSlot slot (SlotsPerEpoch c)"

definition ToForkVersion :: "BeaconChainConfig \<Rightarrow> Slot \<Rightarrow> int result" where
  "ToForkVersion c slot = bindR (ToEpoch c slot) (\<lambda>epoch. Inr
     (if epoch \<ge> FuluForkEpoch c then Fulu
      else if epoch \<ge> ElectraForkEpoch c then Electra
      else if epoch \<ge> DenebForkEpoch c then Deneb
      else if epoch \<ge> CapellaForkEpoch c then Capella
      else if epoch \<ge> BellatrixForkEpoch c then Bellatrix
      else if epoch \<ge> AltairForkEpoch c then Altair
      else Phase0))"

definition EpochStart :: "BeaconChainConfig \<Rightarrow> Epoch \<Rightarrow> Slot result" where
  "EpochStart c epoch =
     (case Slot_SafeMul (SlotsPerEpoch c) epoch of
        Inl e \<Rightarrow> Inl (Wrap ''epoch start'' errOverflow)
      | Inr slot \<Rightarrow> Inr slot)"

definition UnsafeEpochStart :: "BeaconChainConfig \<Rightarrow> Epoch \<Rightarrow> Slot result" where
  "UnsafeEpochStart c epoch = must (EpochStart c epoch)"

definition EpochEnd :: "BeaconChainConfig \<Rightarrow> Epoch \<Rightarrow> Slot result" where
  "EpochEnd c epoch =
     (if epoch = max_u64 then Inl (Wrap ''epoch end'' errOverflow)
      else bindR (EpochStart c (epoch + 1)) (\<lambda>slot. Inr (slot - 1)))"

definition IsEpochStart :: "BeaconChainConfig \<Rightarrow> Slot \<Rightarrow> bool result" where
  "IsEpochStart c slot = bindR (umod slot (SlotsPerEpoch c)) (\<lambda>r. Inr (r = 0))"

definition IsEpochEnd :: "BeaconChainConfig \<Rightarrow> Slot \<Rightarrow> bool result" where
  "IsEpochEnd c slot = IsEpochStart c (slot + 1)"

definition SinceEpochStarts :: "BeaconChainConfig \<Rightarrow> Slot \<Rightarrow> Slot result" where
  "SinceEpochStarts c slot = umod slot (SlotsPerEpoch c)"

definition RoundUpToNearestEpoch :: "BeaconChainConfig \<Rightarrow> Slot \<Rightarrow> Slot result" where
  "RoundUpToNearestEpoch c slot = bindR (umod slot (SlotsPerEpoch c)) (\<lambda>r.
     Inr (if r \<noteq> 0 then slot - r + SlotsPerEpoch c else slot))"

definition AbsoluteValueSlotDifference :: "Slot \<Rightarrow> Slot \<Rightarrow> u64 result" where
  "AbsoluteValueSlotDifference x y = (if x > y then Slot_SubSlot x y else Slot_SubSlot y x)"

definition PrevSlot :: "Slot \<Rightarrow> Slot result" where
  "PrevSlot slot = (if slot > 0 then Slot_Sub slot 1 else Inr 0)"

definition SyncCommitteePeriod :: "BeaconChainConfig \<Rightarrow> Epoch \<Rightarrow> u64 result" where
  "SyncCommitteePeriod c e = udiv e (EpochsPerSyncCommitteePeriod c)"

definition SyncCommitteePeriodStartEpoch :: "BeaconChainConfig \<Rightarrow> Epoch \<Rightarrow> Epoch result" where
  "SyncCommitteePeriodStartEpoch c e = bindR (SyncCommitteePeriod c e) (\<lambda>p.
     Mul64 p (EpochsPerSyncCommitteePeriod c))"

definition MaxSafeEpoch :: "BeaconChainConfig \<Rightarrow> Epoch result" where
  "MaxSafeEpoch c = bindR (udiv max_u64 (SlotsPerEpoch c)) (\<lambda>q. Inr (q - 1))"

definition SafeEpochStartOrMax :: "BeaconChainConfig \<Rightarrow> Epoch \<Rightarrow> Slot result" where
  "SafeEpochStartOrMax c e = bindR (MaxSafeEpoch c) (\<lambda>me.
     if e > me then UnsafeEpochStart c me else UnsafeEpochStart c e)"

definition DivideSlotBy :: "BeaconChainConfig \<Rightarrow> int \<Rightarrow> int" where
  "DivideSlotBy c timesPerSlot =
     (if timesPerSlot = 0 then 0 else quot_i64 (SlotDuration c) timesPerSlot)"

definition MultiplySlotBy :: "BeaconChainConfig \<Rightarrow> int \<Rightarrow> int" where
  "MultiplySlotBy c n = time_Mul (SlotDuration c) n"

section \<open>The piecewise slot clock\<close>

text \<open>The loop of \<^verbatim>\<open>segmentOffsets\<close>: \<open>off\<close> is the offset of the segment at the head.\<close>

fun offsets_from :: "int \<Rightarrow> SlotTimeSegment list \<Rightarrow> int list" where
  "offsets_from off [] = []"
| "offsets_from off [s] = [off]"
| "offsets_from off (prev # s # rest) =
     off # offsets_from
       (to_i64 (off + time_Mul (time_Mul (i64_of_u64 (StartSlot s - StartSlot prev))
                                         (i64_of_u64 (DurationMillis prev))) Millisecond))
       (s # rest)"

definition segmentOffsets :: "BeaconChainConfig \<Rightarrow> SlotTimeSegment list \<times> int list" where
  "segmentOffsets c =
     (let segments = SlotTimeSchedule c in (segments, offsets_from 0 segments))"

text \<open>The scan that keeps the last position satisfying a condition:
  \<^verbatim>\<open>for i, s := range xs { if P(s) { k = i } }\<close>.\<close>

fun last_idx :: "('a \<Rightarrow> bool) \<Rightarrow> nat \<Rightarrow> nat \<Rightarrow> 'a list \<Rightarrow> nat" where
  "last_idx P i k [] = k"
| "last_idx P i k (x # xs) = last_idx P (Suc i) (if P x then i else k) xs"

definition SlotDurationAt :: "BeaconChainConfig \<Rightarrow> Slot \<Rightarrow> int result" where
  "SlotDurationAt c slot =
     (let segments = SlotTimeSchedule c
      in bindR (idx segments 0) (\<lambda>s0. Inr
           (fold (\<lambda>s d. if slot \<ge> StartSlot s then millis (DurationMillis s) else d)
              segments (millis (DurationMillis s0)))))"

definition StartTime :: "BeaconChainConfig \<Rightarrow> Time \<Rightarrow> Slot \<Rightarrow> Time result" where
  "StartTime c genesis slot =
     (let (segments, offsets) = segmentOffsets c;
          k = last_idx (\<lambda>s. slot \<ge> StartSlot s) 0 0 segments
      in bindR (idx segments k) (\<lambda>seg.
         bindR (wrapR ''slot is in the far distant future''
                  (Slot_SafeMul (slot - StartSlot seg) (DurationMillis seg))) (\<lambda>ms.
         bindR (idx offsets k) (\<lambda>off.
         Inr (genesis + to_i64 (off + millis ms))))))"

definition UnsafeStartTime :: "BeaconChainConfig \<Rightarrow> Time \<Rightarrow> Slot \<Rightarrow> Time result" where
  "UnsafeStartTime c genesis slot = must (StartTime c genesis slot)"

definition At :: "BeaconChainConfig \<Rightarrow> Time \<Rightarrow> Time \<Rightarrow> Slot result" where
  "At c genesis tm =
     (if tm < genesis then Inr 0
      else let elapsed = time_Sub tm genesis;
               (segments, offsets) = segmentOffsets c;
               k = last_idx (\<lambda>off. elapsed \<ge> off) 0 0 offsets
           in bindR (idx segments k) (\<lambda>seg.
              bindR (idx offsets k) (\<lambda>off.
              bindR (idiv (to_i64 (elapsed - off)) (millis (DurationMillis seg))) (\<lambda>q.
              Inr (StartSlot seg + u64_of_i64 q)))))"

definition slots_Duration :: "BeaconChainConfig \<Rightarrow> Time \<Rightarrow> Time \<Rightarrow> Slot result" where
  "slots_Duration c start end = (if end < start then Inr 0 else At c start end)"

definition CurrentSlot :: "BeaconChainConfig \<Rightarrow> Time \<Rightarrow> Time \<Rightarrow> Slot result" where
  "CurrentSlot c now genesis = At c genesis now"

definition EpochsSinceGenesis :: "BeaconChainConfig \<Rightarrow> Time \<Rightarrow> Time \<Rightarrow> Epoch result" where
  "EpochsSinceGenesis c now genesis = bindR (CurrentSlot c now genesis) (\<lambda>s.
     udiv s (SlotsPerEpoch c))"

definition ValidateClock :: "BeaconChainConfig \<Rightarrow> Time \<Rightarrow> Slot \<Rightarrow> Time \<Rightarrow> unit result" where
  "ValidateClock c now slot genesis =
     bindR (CurrentSlot c now genesis) (\<lambda>cur.
     bindR (Slot_Add cur MaxSlotBuffer) (\<lambda>maxPossibleSlot.
     guardR (\<not> slot > maxPossibleSlot)
       (Err ''slot exceeds max allowed value relative to the local clock'')))"

text \<open>\<^verbatim>\<open>VerifyTime\<close> reads the clock twice: first in \<^verbatim>\<open>ValidateClock\<close>, then for the comparison.\<close>

definition VerifyTime ::
    "BeaconChainConfig \<Rightarrow> Time \<Rightarrow> Time \<Rightarrow> Time \<Rightarrow> Slot \<Rightarrow> int \<Rightarrow> unit result" where
  "VerifyTime c now1 now2 genesis slot timeTolerance =
     bindR (StartTime c genesis slot) (\<lambda>slotTime.
     bindR (ValidateClock c now1 slot genesis) (\<lambda>_.
     guardR (\<not> time_Sub slotTime now2 > timeTolerance)
       (Err ''could not process slot from the future'')))"

definition SinceSlotStart :: "BeaconChainConfig \<Rightarrow> Slot \<Rightarrow> Time \<Rightarrow> Time \<Rightarrow> int result" where
  "SinceSlotStart c s genesis timestamp =
     bindR (StartTime c genesis s) (\<lambda>limit.
     if timestamp < limit then Inl (Err ''could not compute seconds since slot start: invalid timestamp'')
     else Inr (time_Sub timestamp limit))"

definition AttestationDueAt :: "BeaconChainConfig \<Rightarrow> Slot \<Rightarrow> int result" where
  "AttestationDueAt c slot = bindR (SlotDurationAt c slot) (\<lambda>d.
     bindR (ToEpoch c slot) (\<lambda>e. Inr (AttestationDue c d e)))"

definition AggregationDueAt :: "BeaconChainConfig \<Rightarrow> Slot \<Rightarrow> int result" where
  "AggregationDueAt c slot = bindR (SlotDurationAt c slot) (\<lambda>d.
     bindR (ToEpoch c slot) (\<lambda>e. Inr (AggregationDue c d e)))"

definition SyncMessageDueAt :: "BeaconChainConfig \<Rightarrow> Slot \<Rightarrow> int result" where
  "SyncMessageDueAt c slot = bindR (SlotDurationAt c slot) (\<lambda>d.
     bindR (ToEpoch c slot) (\<lambda>e. Inr (SyncMessageDue c d e)))"

definition ContributionDueAt :: "BeaconChainConfig \<Rightarrow> Slot \<Rightarrow> int result" where
  "ContributionDueAt c slot = bindR (SlotDurationAt c slot) (\<lambda>d.
     bindR (ToEpoch c slot) (\<lambda>e. Inr (ContributionDue c d e)))"

definition WithinVotingWindow :: "BeaconChainConfig \<Rightarrow> Time \<Rightarrow> Time \<Rightarrow> Slot \<Rightarrow> bool result" where
  "WithinVotingWindow c now genesis slot =
     bindR (UnsafeStartTime c genesis slot) (\<lambda>st.
     bindR (AttestationDueAt c slot) (\<lambda>due. Inr (time_Sub now st < due)))"

text \<open>The error of \<^verbatim>\<open>StartTime\<close> becomes the far-future time; a panic stays a panic.\<close>

definition VotingPeriodStartTime :: "BeaconChainConfig \<Rightarrow> u64 \<Rightarrow> Slot \<Rightarrow> u64 result" where
  "VotingPeriodStartTime c genesis slot =
     bindR (Slot_Mul (SlotsPerEpoch c) (EpochsPerEth1VotingPeriod c)) (\<lambda>slots.
     bindR (Slot_ModSlot slot slots) (\<lambda>r.
     case StartTime c (time_Unix (i64_of_u64 genesis) 0) (slot - r) of
       Inr start \<Rightarrow> Inr (u64_of_i64 (unix_of start))
     | Inl e \<Rightarrow> (if is_panic e then Inl e else Inr max_u64)))"

definition SecondsUntilNextEpochStart ::
    "BeaconChainConfig \<Rightarrow> Time \<Rightarrow> Time \<Rightarrow> Time \<Rightarrow> u64 result" where
  "SecondsUntilNextEpochStart c now1 now2 genesis =
     bindR (CurrentSlot c now1 genesis) (\<lambda>currentSlot.
     bindR (ToEpoch c currentSlot) (\<lambda>e.
     bindR (EpochStart c (e + 1)) (\<lambda>firstSlotOfNextEpoch.
     bindR (StartTime c genesis firstSlotOfNextEpoch) (\<lambda>nextEpochStartTime.
     Inr (u64_of_i64 (to_i64 (unix_of nextEpochStartTime - unix_of now2)))))))"

section \<open>The scan for the current segment\<close>

lemma last_idx_spec:
  assumes "k < length (ys @ xs)" "P ((ys @ xs) ! k)" "k < length ys"
      and "\<And>j. k < j \<Longrightarrow> j < length ys \<Longrightarrow> \<not> P (ys ! j)"
  defines "r \<equiv> last_idx P (length ys) k xs"
  shows "r < length (ys @ xs) \<and> P ((ys @ xs) ! r) \<and>
         (\<forall>j. r < j \<longrightarrow> j < length (ys @ xs) \<longrightarrow> \<not> P ((ys @ xs) ! j))"
  using assms(1-4) unfolding r_def
proof (induction xs arbitrary: ys k)
  case Nil
  then show ?case by simp
next
  case (Cons x xs)
  let ?k = "if P x then length ys else k"
  have "\<not> P ((ys @ [x]) ! j)" if "?k < j" "j < length (ys @ [x])" for j
    using that Cons.prems(3,4) by (cases "j = length ys") (auto simp: nth_append split: if_splits)
  moreover have "?k < length (ys @ [x])" "P (((ys @ [x]) @ xs) ! ?k)"
    using Cons.prems by (auto simp: nth_append)
  ultimately show ?case
    using Cons.IH [of ?k "ys @ [x]"] by simp
qed

lemma last_idx_props:
  assumes "xs \<noteq> []" "P (xs ! 0)"
  shows "last_idx P 0 0 xs < length xs" "P (xs ! last_idx P 0 0 xs)"
    "\<And>j. last_idx P 0 0 xs < j \<Longrightarrow> j < length xs \<Longrightarrow> \<not> P (xs ! j)"
proof -
  obtain x xs' where xs: "xs = x # xs'" using assms(1) by (cases xs) auto
  have "last_idx P 0 0 xs = last_idx P (length [x]) 0 xs'" using assms(2) xs by simp
  moreover note last_idx_spec [of 0 "[x]" xs' P]
  ultimately show "last_idx P 0 0 xs < length xs" "P (xs ! last_idx P 0 0 xs)"
    "\<And>j. last_idx P 0 0 xs < j \<Longrightarrow> j < length xs \<Longrightarrow> \<not> P (xs ! j)"
    using assms xs by auto
qed

lemma fold_last_idx:
  "k < length ys \<Longrightarrow>
   fold (\<lambda>s d. if P s then f s else d) xs (f ((ys @ xs) ! k)) =
   f ((ys @ xs) ! last_idx P (length ys) k xs)"
proof (induction xs arbitrary: ys k)
  case (Cons x xs)
  let ?k = "if P x then length ys else k"
  have "(if P x then f x else f ((ys @ x # xs) ! k)) = f (((ys @ [x]) @ xs) ! ?k)"
    using Cons.prems by (auto simp: nth_append)
  with Cons.IH [of ?k "ys @ [x]"] Cons.prems show ?case by simp
qed simp

text \<open>The segment in force at a slot.\<close>

definition seg_idx :: "BeaconChainConfig \<Rightarrow> Slot \<Rightarrow> nat" where
  "seg_idx c slot = last_idx (\<lambda>s. slot \<ge> StartSlot s) 0 0 (SlotTimeSchedule c)"

lemma schedule_nth_0: "SlotTimeSchedule c ! 0 = \<lparr>StartSlot = 0, DurationMillis = SlotDurationMillis c\<rparr>"
  using SlotTimeSchedule_hd [of c] by (simp add: hd_conv_nth)

lemma seg_idx_props:
  shows "seg_idx c slot < length (SlotTimeSchedule c)"
    and "StartSlot (SlotTimeSchedule c ! seg_idx c slot) \<le> slot"
    and "\<And>j. seg_idx c slot < j \<Longrightarrow> j < length (SlotTimeSchedule c) \<Longrightarrow>
           slot < StartSlot (SlotTimeSchedule c ! j)"
  using last_idx_props [of "SlotTimeSchedule c" "\<lambda>s. slot \<ge> StartSlot s"]
  unfolding seg_idx_def not_le by (simp_all add: schedule_nth_0)

lemma schedule_strict:
  "i < j \<Longrightarrow> j < length (SlotTimeSchedule c) \<Longrightarrow>
     StartSlot (SlotTimeSchedule c ! i) < StartSlot (SlotTimeSchedule c ! j)"
  using SlotTimeSchedule_ascending [of c]
  by (simp add: ascending_def sorted_wrt_iff_nth_less)

lemma seg_idx_eqI:
  assumes "k < length (SlotTimeSchedule c)" "StartSlot (SlotTimeSchedule c ! k) \<le> slot"
      and "Suc k < length (SlotTimeSchedule c) \<Longrightarrow> slot < StartSlot (SlotTimeSchedule c ! Suc k)"
  shows "seg_idx c slot = k"
proof (rule linorder_cases [of "seg_idx c slot" k])
  assume "seg_idx c slot < k"
  with seg_idx_props(3) [of c slot k] assms show ?thesis by simp
next
  assume *: "k < seg_idx c slot"
  note len = seg_idx_props(1) [of c slot]
  have "StartSlot (SlotTimeSchedule c ! Suc k) \<le> StartSlot (SlotTimeSchedule c ! seg_idx c slot)"
    using schedule_strict [of "Suc k" "seg_idx c slot" c] * len
    by (cases "Suc k = seg_idx c slot") auto
  with seg_idx_props(2) [of c slot] assms(3) * len show ?thesis by (meson Suc_lessI leD le_less_trans less_trans_Suc order.trans)
qed

lemma SlotDurationAt_seg:
  "SlotDurationAt c slot = Inr (millis (DurationMillis (SlotTimeSchedule c ! seg_idx c slot)))"
proof -
  obtain s0 rest where s: "SlotTimeSchedule c = s0 # rest"
    by (metis SlotTimeSchedule_ne list.exhaust)
  have "StartSlot s0 = 0" using schedule_nth_0 [of c] s by simp
  then show ?thesis
    using fold_last_idx [of 0 "[s0]" "\<lambda>s. slot \<ge> StartSlot s" "\<lambda>s. millis (DurationMillis s)" rest]
    by (simp add: SlotDurationAt_def seg_idx_def s idx_def)
qed

section \<open>Start times add up the slot durations\<close>

text \<open>The specification of the clock: a slot starts once all earlier slots have passed.\<close>

definition slot_ns :: "BeaconChainConfig \<Rightarrow> nat \<Rightarrow> int" where
  "slot_ns c j = (case SlotDurationAt c (of_nat j) of Inr d \<Rightarrow> d | Inl _ \<Rightarrow> 0)"

definition elapsed_before :: "BeaconChainConfig \<Rightarrow> nat \<Rightarrow> int" where
  "elapsed_before c n = sum_list (map (slot_ns c) [0..<n])"

text \<open>The schedules on which no intermediate product overflows: positive durations that fit a
  \<^verbatim>\<open>time.Duration\<close>, and a last segment that begins within its range.\<close>

definition schedule_ok :: "BeaconChainConfig \<Rightarrow> bool" where
  "schedule_ok c \<longleftrightarrow>
     SlotDurationMillis c \<noteq> 0 \<and>
     list_all (\<lambda>s. millis_ok (DurationMillis s)) (SlotTimeSchedule c) \<and>
     elapsed_before c (unat (StartSlot (last (SlotTimeSchedule c)))) < 2 ^ 63"

lemma elapsed_before_0 [simp]: "elapsed_before c 0 = 0"
  by (simp add: elapsed_before_def)

lemma elapsed_before_Suc: "elapsed_before c (Suc n) = elapsed_before c n + slot_ns c n"
  by (simp add: elapsed_before_def)

lemma schedule_durations_pos:
  assumes "SlotDurationMillis c \<noteq> 0" "s \<in> set (SlotTimeSchedule c)"
  shows "DurationMillis s \<noteq> 0"
  using assms by (auto simp: SlotTimeSchedule_def schedule_add_def split: if_splits)

text \<open>Start slot and duration (in nanoseconds) of the \<open>k\<close>-th segment.\<close>

definition seg_st :: "BeaconChainConfig \<Rightarrow> nat \<Rightarrow> nat" where
  "seg_st c k = unat (StartSlot (SlotTimeSchedule c ! k))"

definition seg_du :: "BeaconChainConfig \<Rightarrow> nat \<Rightarrow> int" where
  "seg_du c k = uint (DurationMillis (SlotTimeSchedule c ! k)) * 1000000"

lemma seg_st_strict: "i < j \<Longrightarrow> j < length (SlotTimeSchedule c) \<Longrightarrow> seg_st c i < seg_st c j"
  using schedule_strict [of i j c] by (simp add: seg_st_def word_less_nat_alt)

lemma seg_st_0 [simp]: "seg_st c 0 = 0"
  by (simp add: seg_st_def schedule_nth_0)

lemma seg_du_millis:
  assumes "schedule_ok c" "k < length (SlotTimeSchedule c)"
  shows "millis (DurationMillis (SlotTimeSchedule c ! k)) = seg_du c k" "1000000 \<le> seg_du c k"
    "seg_du c k < 2 ^ 63"
proof -
  let ?d = "DurationMillis (SlotTimeSchedule c ! k)"
  have ok: "millis_ok ?d" and "?d \<noteq> 0"
    using assms schedule_durations_pos [of c "SlotTimeSchedule c ! k"]
    by (auto simp: schedule_ok_def list_all_length)
  then have "1 \<le> uint ?d"
    by (simp add: word_neq_0_conv word_less_def)
  then show "millis ?d = seg_du c k" "1000000 \<le> seg_du c k" "seg_du c k < 2 ^ 63"
    using ok by (simp_all add: seg_du_def millis_exact millis_ok_def)
qed

lemma slot_ns_seg:
  assumes "schedule_ok c" "k < length (SlotTimeSchedule c)" "seg_st c k \<le> n" "n < 2 ^ 64"
      and "Suc k < length (SlotTimeSchedule c) \<Longrightarrow> n < seg_st c (Suc k)"
  shows "slot_ns c n = seg_du c k"
proof -
  have "unat (of_nat n :: u64) = n" using assms(4) by (rule unat_of_nat_u64)
  then have "seg_idx c (of_nat n) = k"
    using assms by (intro seg_idx_eqI) (simp_all add: seg_st_def word_le_nat_alt word_less_nat_alt)
  then show ?thesis
    using assms by (simp add: slot_ns_def SlotDurationAt_seg seg_du_millis)
qed

lemma elapsed_before_seg:
  assumes "schedule_ok c" "k < length (SlotTimeSchedule c)" "seg_st c k \<le> n" "n \<le> 2 ^ 64"
      and "Suc k < length (SlotTimeSchedule c) \<Longrightarrow> n \<le> seg_st c (Suc k)"
  shows "elapsed_before c n = elapsed_before c (seg_st c k) + int (n - seg_st c k) * seg_du c k"
  using assms(3-5)
proof (induction n rule: nat_induct_at_least)
  case (Suc n)
  have "elapsed_before c n = elapsed_before c (seg_st c k) + int (n - seg_st c k) * seg_du c k"
    using Suc.prems by (intro Suc.IH) (simp_all add: Suc_leD)
  moreover have "slot_ns c n = seg_du c k"
    using Suc assms(1,2) by (intro slot_ns_seg) simp_all
  moreover have "int (Suc n - seg_st c k) = int (n - seg_st c k) + 1"
    using Suc by simp
  ultimately show ?case
    by (simp add: elapsed_before_Suc algebra_simps)
qed simp

lemma slot_ns_ge: "schedule_ok c \<Longrightarrow> 1000000 \<le> slot_ns c n"
  by (simp add: slot_ns_def SlotDurationAt_seg seg_du_millis seg_idx_props(1))

lemma elapsed_before_mono:
  assumes "schedule_ok c" "m \<le> n"
  shows "elapsed_before c m + 1000000 * int (n - m) \<le> elapsed_before c n"
  using assms(2)
proof (induction n rule: nat_induct_at_least)
  case (Suc n)
  have "int (Suc n - m) = int (n - m) + 1" using Suc by simp
  with Suc slot_ns_ge [OF assms(1), of n] show ?case by (simp add: elapsed_before_Suc)
qed simp

lemma elapsed_before_lower: "schedule_ok c \<Longrightarrow> 1000000 * int n \<le> elapsed_before c n"
  using elapsed_before_mono [of c 0 n] by simp

text \<open>The offsets of the segments are exact.\<close>

lemma offsets_from_length [simp]: "length (offsets_from off xs) = length xs"
  by (induction off xs rule: offsets_from.induct) simp_all

lemma offsets_from_0: "xs \<noteq> [] \<Longrightarrow> offsets_from off xs ! 0 = off"
  by (induction off xs rule: offsets_from.induct) simp_all

lemma offsets_from_Suc:
  "Suc k < length xs \<Longrightarrow> offsets_from off xs ! Suc k =
     to_i64 (offsets_from off xs ! k +
       time_Mul (time_Mul (i64_of_u64 (StartSlot (xs ! Suc k) - StartSlot (xs ! k)))
         (i64_of_u64 (DurationMillis (xs ! k)))) Millisecond)"
proof (induction off xs arbitrary: k rule: offsets_from.induct)
  case (3 off prev s rest)
  then show ?case by (cases k) (simp_all add: offsets_from_0)
qed simp_all

lemma span_exact:
  fixes span dur :: u64
  assumes "uint span * uint dur * 1000000 < 2 ^ 63" "dur \<noteq> 0"
  shows "time_Mul (time_Mul (i64_of_u64 span) (i64_of_u64 dur)) Millisecond
       = uint span * uint dur * 1000000"
proof (cases "span = 0")
  case False
  have pos: "1 \<le> uint span" "1 \<le> uint dur"
    using False assms(2) by (simp_all add: word_neq_0_conv word_less_def)
  then have "uint span \<le> uint span * uint dur" "uint dur \<le> uint span * uint dur"
    by (simp_all add: mult_le_cancel_left1 mult_le_cancel_right1)
  moreover have prod: "uint span * uint dur < 9223372036855"
    using assms(1) unfolding two63 by linarith
  ultimately have "uint span < 9223372036855" "uint dur < 9223372036855"
    by linarith+
  then have "i64_of_u64 span = uint span" "i64_of_u64 dur = uint dur"
    unfolding i64_of_u64_def by (auto intro!: to_i64_id in_i64I)
  moreover have "to_i64 (uint span * uint dur) = uint span * uint dur"
    using prod by (intro to_i64_id in_i64I) simp_all
  moreover have "to_i64 (uint span * uint dur * 1000000) = uint span * uint dur * 1000000"
    using assms(1) by (intro to_i64_id in_i64I) simp_all
  ultimately show ?thesis by (simp add: time_Mul_def Millisecond_def)
qed (simp add: time_Mul_def i64_of_u64_def in_i64_def)

lemma seg_st_le_last:
  "k < length (SlotTimeSchedule c) \<Longrightarrow> seg_st c k \<le> unat (StartSlot (last (SlotTimeSchedule c)))"
  using seg_st_strict [of k "length (SlotTimeSchedule c) - 1" c]
  by (cases "k < length (SlotTimeSchedule c) - 1") (auto simp: seg_st_def last_conv_nth not_less
    dest: le_antisym less_imp_le_nat)

lemma seg_start_fits:
  assumes "schedule_ok c" "k < length (SlotTimeSchedule c)"
  shows "elapsed_before c (seg_st c k) < 2 ^ 63"
proof -
  have "elapsed_before c (seg_st c k)
      \<le> elapsed_before c (unat (StartSlot (last (SlotTimeSchedule c))))"
    using elapsed_before_mono [OF assms(1) seg_st_le_last [OF assms(2)]] by linarith
  with assms(1) show ?thesis by (simp add: schedule_ok_def)
qed

lemma uint_diff_seg:
  "i < j \<Longrightarrow> j < length (SlotTimeSchedule c) \<Longrightarrow>
     uint (StartSlot (SlotTimeSchedule c ! j) - StartSlot (SlotTimeSchedule c ! i))
     = int (seg_st c j - seg_st c i)"
  using schedule_strict [of i j c] unat_sub_u64 [of "StartSlot (SlotTimeSchedule c ! i)"
    "StartSlot (SlotTimeSchedule c ! j)"]
  unfolding seg_st_def by (metis less_imp_le of_nat_unat)

lemma offsets_exact:
  assumes "schedule_ok c" "k < length (SlotTimeSchedule c)"
  shows "offsets_from 0 (SlotTimeSchedule c) ! k = elapsed_before c (seg_st c k)"
  using assms(2)
proof (induction k)
  case (Suc k)
  let ?segs = "SlotTimeSchedule c"
  let ?span = "StartSlot (?segs ! Suc k) - StartSlot (?segs ! k)"
  let ?dur = "DurationMillis (?segs ! k)"
  have next_off: "elapsed_before c (seg_st c (Suc k))
      = elapsed_before c (seg_st c k) + int (seg_st c (Suc k) - seg_st c k) * seg_du c k"
    using Suc.prems seg_st_strict [of k "Suc k" c] assms(1)
    by (intro elapsed_before_seg) (auto simp: seg_st_def less_imp_le)
  have span: "uint ?span = int (seg_st c (Suc k) - seg_st c k)"
    using Suc.prems by (intro uint_diff_seg) simp_all
  have low: "0 \<le> elapsed_before c (seg_st c k)"
    using elapsed_before_lower [OF assms(1), of "seg_st c k"] by linarith
  have fits: "elapsed_before c (seg_st c (Suc k)) < 2 ^ 63"
    by (rule seg_start_fits [OF assms(1) Suc.prems])
  have eq: "uint ?span * uint ?dur * 1000000 = int (seg_st c (Suc k) - seg_st c k) * seg_du c k"
    by (simp add: span seg_du_def)
  have "?dur \<noteq> 0"
    using assms(1) Suc.prems schedule_durations_pos [of c "?segs ! k"] by (simp add: schedule_ok_def)
  moreover have "uint ?span * uint ?dur * 1000000 < 2 ^ 63"
    unfolding eq using next_off low fits by linarith
  ultimately have "time_Mul (time_Mul (i64_of_u64 ?span) (i64_of_u64 ?dur)) Millisecond
      = int (seg_st c (Suc k) - seg_st c k) * seg_du c k"
    using span_exact eq by simp
  moreover have "to_i64 (elapsed_before c (seg_st c (Suc k))) = elapsed_before c (seg_st c (Suc k))"
    using fits elapsed_before_lower [OF assms(1), of "seg_st c (Suc k)"]
    by (intro to_i64_id in_i64I) linarith+
  ultimately show ?case
    using Suc by (simp add: offsets_from_Suc next_off)
qed (simp add: offsets_from_0)

text \<open>A slot that starts within the range of a \<^verbatim>\<open>time.Duration\<close> gets the exact start time.\<close>

lemma StartTime_eq:
  assumes ok: "schedule_ok c" and fits: "elapsed_before c (unat slot) < 2 ^ 63"
  shows "StartTime c genesis slot = Inr (genesis + elapsed_before c (unat slot))"
proof -
  let ?k = "seg_idx c slot"
  let ?seg = "SlotTimeSchedule c ! ?k"
  note k = seg_idx_props(1) [of c slot]
  have st: "seg_st c ?k \<le> unat slot"
    using seg_idx_props(2) [of c slot] by (simp add: seg_st_def word_le_nat_alt)
  have eq: "elapsed_before c (unat slot)
      = elapsed_before c (seg_st c ?k) + int (unat slot - seg_st c ?k) * seg_du c ?k"
    using k st seg_idx_props(3) [of c slot "Suc ?k"]
    by (intro elapsed_before_seg [OF ok]) (auto simp: seg_st_def word_less_nat_alt less_imp_le)
  have low: "0 \<le> elapsed_before c (seg_st c ?k)"
    using elapsed_before_lower [OF ok, of "seg_st c ?k"] by linarith
  let ?w = "slot - StartSlot ?seg" and ?d = "DurationMillis ?seg"
  have w: "unat ?w = unat slot - seg_st c ?k"
    using seg_idx_props(2) [of c slot] by (simp add: seg_st_def unat_sub_u64)
  have prod: "int (unat ?w * unat ?d) * 1000000 = int (unat slot - seg_st c ?k) * seg_du c ?k"
    by (simp add: w seg_du_def)
  then have small: "int (unat ?w * unat ?d) * 1000000 < 2 ^ 63"
    using eq low fits by linarith
  then have "unat ?w * unat ?d < 9223372036854775808"
    unfolding two63 by linarith
  then have nat: "unat ?w * unat ?d < 2 ^ 64" by simp
  then have mul: "Slot_SafeMul ?w ?d = Inr (?w * ?d)" and un: "unat (?w * ?d) = unat ?w * unat ?d"
    by (simp_all add: slot_ops Mul64_cases unat_mult_u64)
  have u: "uint (?w * ?d) = int (unat ?w * unat ?d)"
    using un by (metis of_nat_unat)
  have "millis_ok (?w * ?d)"
    unfolding millis_ok_def u by (rule small)
  then have "millis (?w * ?d) = int (unat slot - seg_st c ?k) * seg_du c ?k"
    using prod by (simp only: millis_exact u)
  moreover have "to_i64 (elapsed_before c (unat slot)) = elapsed_before c (unat slot)"
    using fits elapsed_before_lower [OF ok, of "unat slot"] by (intro to_i64_id in_i64I) linarith+
  ultimately show ?thesis
    using k mul eq offsets_exact [OF ok k]
    by (simp add: StartTime_def segmentOffsets_def Let_def idx_def flip: seg_idx_def)
qed

text \<open>The segment that \<^verbatim>\<open>At\<close> finds is the one whose offset was passed last.\<close>

lemma At_segment:
  assumes ok: "schedule_ok c" and e: "0 \<le> e"
  defines "k \<equiv> last_idx (\<lambda>off. e \<ge> off) 0 0 (offsets_from 0 (SlotTimeSchedule c))"
  shows "k < length (SlotTimeSchedule c)" "elapsed_before c (seg_st c k) \<le> e"
    "Suc k < length (SlotTimeSchedule c) \<Longrightarrow> e < elapsed_before c (seg_st c (Suc k))"
    "offsets_from 0 (SlotTimeSchedule c) ! k = elapsed_before c (seg_st c k)"
proof -
  let ?os = "offsets_from 0 (SlotTimeSchedule c)"
  have ne: "?os \<noteq> []" by (metis SlotTimeSchedule_ne length_0_conv offsets_from_length)
  have "e \<ge> ?os ! 0" using e by (simp add: offsets_from_0)
  note p = last_idx_props [of ?os "\<lambda>off. e \<ge> off", OF ne this, folded k_def]
  show k: "k < length (SlotTimeSchedule c)" using p(1) by simp
  show off: "?os ! k = elapsed_before c (seg_st c k)" by (rule offsets_exact [OF ok k])
  show "elapsed_before c (seg_st c k) \<le> e" using p(2) off by simp
  show "e < elapsed_before c (seg_st c (Suc k))" if "Suc k < length (SlotTimeSchedule c)"
    using p(3) [of "Suc k"] that offsets_exact [OF ok that] by simp
qed

lemma At_slot:
  assumes ok: "schedule_ok c" and k: "k < length (SlotTimeSchedule c)"
      and e: "elapsed_before c (seg_st c k) \<le> e" "e < 2 ^ 63"
      and nxt: "Suc k < length (SlotTimeSchedule c) \<Longrightarrow> e < elapsed_before c (seg_st c (Suc k))"
  defines "q \<equiv> (e - elapsed_before c (seg_st c k)) div seg_du c k"
  defines "n \<equiv> seg_st c k + nat q"
  shows "0 \<le> q" "int n < 2 ^ 63" "elapsed_before c n \<le> e" "e < elapsed_before c (Suc n)"
proof -
  let ?r = "e - elapsed_before c (seg_st c k)"
  have du: "1000000 \<le> seg_du c k" by (rule seg_du_millis(2) [OF ok k])
  show q0: "0 \<le> q" using e(1) du by (simp add: q_def pos_imp_zdiv_nonneg_iff)
  have q: "q * seg_du c k \<le> ?r" "?r < (q + 1) * seg_du c k"
    using div_bounds [of "seg_du c k" ?r] du by (simp_all add: q_def)
  have "q * 1000000 \<le> q * seg_du c k" using du q0 by (intro mult_left_mono)
  then have "1000000 * int n \<le> e"
    using q(1) q0 elapsed_before_lower [OF ok, of "seg_st c k"] by (simp add: n_def)
  then show n: "int n < 2 ^ 63" using e(2) unfolding two63 by linarith
  have nx: "Suc n \<le> seg_st c (Suc k)" if "Suc k < length (SlotTimeSchedule c)"
  proof -
    let ?m = "seg_st c (Suc k) - seg_st c k"
    have "elapsed_before c (seg_st c (Suc k)) = elapsed_before c (seg_st c k) + int ?m * seg_du c k"
      using that seg_st_strict [of k "Suc k" c]
      by (intro elapsed_before_seg [OF ok]) (auto simp: seg_st_def less_imp_le)
    then have "q * seg_du c k < int ?m * seg_du c k"
      using nxt [OF that] q(1) by simp
    then have "q < int ?m" using du by (simp add: mult_less_cancel_right)
    then show ?thesis using q0 by (simp add: n_def)
  qed
  have "n < 2 ^ 64" using n by simp
  then have
    "elapsed_before c n = elapsed_before c (seg_st c k) + q * seg_du c k"
    "elapsed_before c (Suc n) = elapsed_before c (seg_st c k) + (q + 1) * seg_du c k"
    using q0 nx elapsed_before_seg [OF ok k, of n] elapsed_before_seg [OF ok k, of "Suc n"]
    by (simp_all add: n_def add.commute Suc_leD)
  then show "elapsed_before c n \<le> e" "e < elapsed_before c (Suc n)"
    using q by simp_all
qed

lemma At_bounds:
  assumes ok: "schedule_ok c" and e: "0 \<le> tm - genesis" "tm - genesis < 2 ^ 63"
  obtains s where "At c genesis tm = Inr s" "elapsed_before c (unat s) \<le> tm - genesis"
    "tm - genesis < elapsed_before c (Suc (unat s))"
proof -
  let ?e = "tm - genesis"
  define k where "k = last_idx (\<lambda>off. ?e \<ge> off) 0 0 (offsets_from 0 (SlotTimeSchedule c))"
  note seg = At_segment [OF ok e(1), folded k_def]
  let ?r = "?e - elapsed_before c (seg_st c k)"
  define q where "q = ?r div seg_du c k"
  define n where "n = seg_st c k + nat q"
  note at = At_slot [OF ok seg(1,2) e(2) seg(3), folded q_def, folded n_def]
  have sub: "time_Sub tm genesis = ?e"
    using e by (simp add: time_Sub_def)
  have r: "0 \<le> ?r" "?r < 2 ^ 63"
    using seg(2) e(2) elapsed_before_lower [OF ok, of "seg_st c k"] by linarith+
  have du: "1000000 \<le> seg_du c k" "seg_du c k < 2 ^ 63"
    using seg_du_millis [OF ok seg(1)] by simp_all
  have div: "idiv (to_i64 ?r) (seg_du c k) = Inr q"
    using r du by (simp add: idiv_def in_i64I quot_i64_nonneg q_def)
  have "unat (StartSlot (SlotTimeSchedule c ! k) + u64_of_i64 q) = n"
  proof -
    have "u64_of_i64 q = of_nat (nat q)"
      using at(1) by (simp add: u64_of_i64_def)
    then have "StartSlot (SlotTimeSchedule c ! k) + u64_of_i64 q = of_nat n"
      by (simp add: n_def seg_st_def)
    then show ?thesis using at(2) by (simp add: unat_of_nat_u64)
  qed
  moreover have "At c genesis tm = Inr (StartSlot (SlotTimeSchedule c ! k) + u64_of_i64 q)"
    using e(1) seg(1,4) div seg_du_millis(1) [OF ok seg(1)]
    by (simp add: At_def segmentOffsets_def Let_def sub idx_def flip: k_def)
  ultimately show ?thesis
    using that at(3,4) by metis
qed

text \<open>The slot at a given instant is determined by the start times around it.\<close>

lemma At_unique:
  assumes ok: "schedule_ok c" and e: "0 \<le> tm - genesis" "tm - genesis < 2 ^ 63"
      and n: "elapsed_before c (unat s) \<le> tm - genesis" "tm - genesis < elapsed_before c (Suc (unat s))"
  shows "At c genesis tm = Inr s"
proof -
  obtain s' where s': "At c genesis tm = Inr s'" "elapsed_before c (unat s') \<le> tm - genesis"
      "tm - genesis < elapsed_before c (Suc (unat s'))"
    by (rule At_bounds [OF ok e])
  have less: False
    if "Suc m \<le> m'" "elapsed_before c m' \<le> x" "x < elapsed_before c (Suc m)" for m m' x
    using elapsed_before_mono [OF ok that(1)] that(2,3) by linarith
  have "unat s = unat s'"
    using less [of "unat s" "unat s'"] less [of "unat s'" "unat s"] n s'(2,3) by force
  then have "s = s'" by (rule unsigned_word_eqI)
  with s'(1) show ?thesis by simp
qed

section \<open>Slots and epochs\<close>

lemma ToEpoch_ok [simp]: "SlotsPerEpoch c \<noteq> 0 \<Longrightarrow> ToEpoch c slot = Inr (slot div SlotsPerEpoch c)"
  by (simp add: ToEpoch_def)

lemma EpochStart_cases:
  "EpochStart c e = (if unat (SlotsPerEpoch c) * unat e < 2 ^ 64 then Inr (SlotsPerEpoch c * e)
                     else Inl (Wrap ''epoch start'' errOverflow))"
  by (simp add: EpochStart_def slot_ops Mul64_cases)

lemma unat_epoch_start:
  "EpochStart c e = Inr s \<Longrightarrow> unat s = unat (SlotsPerEpoch c) * unat e"
  by (auto simp: EpochStart_cases unat_mult_u64 split: if_splits)

lemma EpochEnd_Inr:
  assumes "SlotsPerEpoch c \<noteq> 0" "EpochEnd c e = Inr b"
  shows "unat b + 1 = unat (SlotsPerEpoch c) * (unat e + 1)"
proof -
  from assms(2) obtain s where "e \<noteq> max_u64" "EpochStart c (e + 1) = Inr s" "b = s - 1"
    by (auto simp: EpochEnd_def bindR_eq_Inr split: if_splits)
  moreover have "unat (e + 1) = unat e + 1"
    using \<open>e \<noteq> max_u64\<close> by (rule unat_plus_one_u64)
  moreover have "0 < unat (SlotsPerEpoch c)" using assms(1) by (simp add: unat_gt_0)
  ultimately have s: "unat s = unat (SlotsPerEpoch c) * (unat e + 1)" "b = s - 1"
    using unat_epoch_start by metis+
  then have "1 \<le> s" using \<open>0 < unat (SlotsPerEpoch c)\<close> by (simp add: word_le_nat_alt)
  then show ?thesis using s \<open>0 < unat (SlotsPerEpoch c)\<close> by (simp add: unat_sub_u64)
qed

section \<open>Properties of the slot clock\<close>

text \<open>A chain with two scheduled slot-time changes: 12 s slots, 6 s from slot 3, 2 s from slot 6,
  attestations due 700 ms and aggregates 1400 ms into a slot.\<close>

definition two_fork_config :: BeaconChainConfig where
  "two_fork_config = mainnetBeaconConfig
     \<lparr>SlotTimeForkOneSlot := 3, SlotTimeForkOneMillis := 6000,
      SlotTimeForkTwoSlot := 6, SlotTimeForkTwoMillis := 2000,
      AttestationOffsetMs := 700, AggregationOffsetMs := 1400\<rparr>"

lemma two_fork_schedule: "SlotTimeSchedule two_fork_config =
    [\<lparr>StartSlot = 0, DurationMillis = 12000\<rparr>, \<lparr>StartSlot = 3, DurationMillis = 6000\<rparr>,
     \<lparr>StartSlot = 6, DurationMillis = 2000\<rparr>]"
  by code_simp

lemma two_fork_ok: "schedule_ok two_fork_config"
  by code_simp

text \<open>C16: the start time of a slot is the genesis time plus the durations of all earlier slots,
  across every scheduled slot-time change, as long as the sum fits a time.Duration. The optimised
  computation from the start of the segment agrees with adding up the slots one by one.\<close>

theorem StartTime_sums_durations:
  assumes "schedule_ok c" and "elapsed_before c (unat slot) < 2 ^ 63"
  shows "StartTime c genesis slot = Inr (genesis + elapsed_before c (unat slot))"
  using assms by (rule StartTime_eq)

theorem StartTime_sums_durations_witness:
  "StartTime two_fork_config 1000 8 = Inr (1000 + 58 * 1000000000)"
proof -
  have "elapsed_before two_fork_config (unat (8 :: u64)) = 58 * 1000000000" by code_simp
  then show ?thesis
    using StartTime_sums_durations [OF two_fork_ok, of 8 1000] by simp
qed

text \<open>C7: At finds the slot in progress: for an instant at or after genesis it returns the slot
  \<open>s\<close> exactly when the instant lies in \<open>[StartTime s, StartTime (s + 1))\<close>, and it always returns.\<close>

theorem At_iff_in_slot:
  assumes "schedule_ok c" and "genesis \<le> tm" and "tm - genesis < 2 ^ 63"
  shows "At c genesis tm = Inr s \<longleftrightarrow>
           elapsed_before c (unat s) \<le> tm - genesis \<and>
           tm - genesis < elapsed_before c (Suc (unat s))"
    (is "?at \<longleftrightarrow> ?in")
proof
  assume at: ?at
  obtain s' where "At c genesis tm = Inr s'" "elapsed_before c (unat s') \<le> tm - genesis"
      "tm - genesis < elapsed_before c (Suc (unat s'))"
    using assms by (auto intro: At_bounds [of c tm genesis])
  with at show ?in by simp
next
  assume ?in
  then show ?at using assms by (intro At_unique) simp_all
qed

theorem At_iff_in_slot_witness: "At two_fork_config 0 (57 * 1000000000) = Inr 7"
proof -
  have "elapsed_before two_fork_config (unat (7 :: u64)) = 56 * 1000000000"
    "elapsed_before two_fork_config (Suc (unat (7 :: u64))) = 58 * 1000000000"
    by code_simp+
  then show ?thesis
    using At_iff_in_slot [OF two_fork_ok, of 0 "57 * 1000000000" 7] by simp
qed

text \<open>C17: At inverts StartTime, also across a scheduled slot-time change: the slot at the start
  time of \<open>slot\<close> is \<open>slot\<close>.\<close>

theorem At_StartTime:
  assumes "schedule_ok c" and "elapsed_before c (unat slot) < 2 ^ 63"
  shows "bindR (StartTime c genesis slot) (At c genesis) = Inr slot"
proof -
  have "0 \<le> elapsed_before c (unat slot)"
    using elapsed_before_lower [OF assms(1), of "unat slot"] by linarith
  moreover have "elapsed_before c (unat slot) < elapsed_before c (Suc (unat slot))"
    using slot_ns_ge [OF assms(1), of "unat slot"] by (simp add: elapsed_before_Suc)
  ultimately show ?thesis
    using assms by (simp add: StartTime_eq At_unique)
qed

theorem At_StartTime_witness:
  "bindR (StartTime two_fork_config 7 6) (At two_fork_config 7) = Inr 6"
proof -
  have "elapsed_before two_fork_config (unat (6 :: u64)) = 54 * 1000000000" by code_simp
  then show ?thesis
    using At_StartTime [OF two_fork_ok, of 6 7] by simp
qed

text \<open>C18: the slot that At reports is one fork choice accepts as started: the time since its start
  is not negative and below the slot's own duration.\<close>

theorem SinceSlotStart_of_At:
  assumes "schedule_ok c" and "genesis \<le> tm" and "tm - genesis < 2 ^ 63"
      and "At c genesis tm = Inr s"
  shows "\<exists>t d. SinceSlotStart c s genesis tm = Inr t \<and> SlotDurationAt c s = Inr d \<and> 0 \<le> t \<and> t < d"
proof -
  let ?b = "elapsed_before c (unat s)"
  obtain d where d: "SlotDurationAt c s = Inr d" by (simp add: SlotDurationAt_seg)
  obtain s' where s': "At c genesis tm = Inr s'" "elapsed_before c (unat s') \<le> tm - genesis"
      "tm - genesis < elapsed_before c (Suc (unat s'))"
    using assms(1-3) by (auto intro: At_bounds [of c tm genesis])
  then have b: "?b \<le> tm - genesis" "tm - genesis < ?b + d"
    using assms(4) d by (simp_all add: elapsed_before_Suc slot_ns_def)
  then have "StartTime c genesis s = Inr (genesis + ?b)"
    using assms by (intro StartTime_eq) simp_all
  moreover have "0 \<le> ?b" using elapsed_before_lower [OF assms(1), of "unat s"] by linarith
  ultimately have "SinceSlotStart c s genesis tm = Inr (tm - (genesis + ?b))"
    using b assms(3) by (simp add: SinceSlotStart_def time_Sub_def)
  with b d show ?thesis by auto
qed

theorem SinceSlotStart_of_At_witness:
  "\<exists>t d. SinceSlotStart two_fork_config 3 0 37000000000 = Inr t \<and>
         SlotDurationAt two_fork_config 3 = Inr d \<and> 0 \<le> t \<and> t < d"
proof -
  have "At two_fork_config 0 37000000000 = Inr 3" by code_simp
  then show ?thesis
    using SinceSlotStart_of_At [OF two_fork_ok, of 0 37000000000 3] by simp
qed

lemma uniform_elapsed:
  assumes "SlotTimeSchedule c = [\<lparr>StartSlot = 0, DurationMillis = SlotDurationMillis c\<rparr>]"
  shows "elapsed_before c n = int n * SlotDuration c"
proof -
  have "slot_ns c j = SlotDuration c" for j
    by (simp add: slot_ns_def SlotDurationAt_def assms idx_def SlotDuration_def)
  then show ?thesis by (induction n) (simp_all add: elapsed_before_Suc algebra_simps)
qed

lemma uniform_schedule_ok:
  assumes "SlotTimeSchedule c = [\<lparr>StartSlot = 0, DurationMillis = SlotDurationMillis c\<rparr>]"
      and "SlotDurationMillis c \<noteq> 0" "millis_ok (SlotDurationMillis c)"
  shows "schedule_ok c"
  using assms by (simp add: schedule_ok_def)

text \<open>C20: without a scheduled slot-time change the clock is the uniform arithmetic of a stock
  client: the slot at an instant is the elapsed time divided by the slot duration.\<close>

theorem At_uniform:
  assumes "SlotTimeForkOneSlot c = 0 \<or> SlotTimeForkOneMillis c = 0"
      and "SlotTimeForkTwoSlot c = 0 \<or> SlotTimeForkTwoMillis c = 0"
      and "SlotDurationMillis c \<noteq> 0" and "millis_ok (SlotDurationMillis c)"
      and "genesis \<le> tm" and "tm - genesis < 2 ^ 63"
  shows "At c genesis tm = Inr (word_of_int ((tm - genesis) div SlotDuration c))"
proof -
  let ?d = "SlotDuration c" and ?e = "tm - genesis"
  note sch = SlotTimeSchedule_uniform [OF assms(1,2)]
  note ok = uniform_schedule_ok [OF sch assms(3,4)]
  have d: "0 < ?d"
    using slot_ns_ge [OF ok, of 0] uniform_elapsed [OF sch, of "Suc 0"]
    by (simp add: elapsed_before_Suc)
  have q: "0 \<le> ?e div ?d" "?e div ?d < 2 ^ 64"
    using assms(5,6) d zdiv_mono2 [of ?e 1 ?d]
    by (simp_all add: pos_imp_zdiv_nonneg_iff)
  then have "unat (word_of_int (?e div ?d) :: u64) = nat (?e div ?d)"
    using unat_of_nat_u64 [of "nat (?e div ?d)"] by (simp add: nat_less_iff)
  then show ?thesis
    using div_bounds [OF d, of ?e] q assms(5,6)
    by (intro At_unique [OF ok]) (simp_all add: uniform_elapsed [OF sch] algebra_simps)
qed

theorem At_uniform_witness: "At mainnetBeaconConfig 0 (25 * 1000000000) = Inr 2"
proof -
  have d: "SlotDuration mainnetBeaconConfig = 12000000000"
    "SlotDurationMillis mainnetBeaconConfig = 12000" by code_simp+
  have f: "SlotTimeForkOneSlot mainnetBeaconConfig = 0" "SlotTimeForkTwoSlot mainnetBeaconConfig = 0"
    by (simp_all add: mainnetBeaconConfig_def)
  show ?thesis
    using At_uniform [of mainnetBeaconConfig 0 "25 * 1000000000"] by (simp add: d f millis_ok_def)
qed

text \<open>C19: after a configuration has passed ValidateDutyOffsets with an offset set, in every slot of
  the schedule attestations are due strictly before aggregates and aggregates strictly before the
  slot ends, before and after the Gloas fork.\<close>

theorem duties_ordered_in_every_slot:
  assumes "ValidateDutyOffsets c = Inr ()"
      and "AttestationOffsetMs c \<noteq> 0 \<or> AggregationOffsetMs c \<noteq> 0"
      and "FarFutureEpoch c = max_u64" and "1 < SlotsPerEpoch c"
  shows "\<exists>att agg d. AttestationDueAt c slot = Inr att \<and> AggregationDueAt c slot = Inr agg \<and>
           SlotDurationAt c slot = Inr d \<and> att < agg \<and> agg < d"
proof -
  let ?seg = "SlotTimeSchedule c ! seg_idx c slot" and ?e = "slot div SlotsPerEpoch c"
  have spe: "1 < unat (SlotsPerEpoch c)" using assms(4) by (simp add: word_less_nat_alt)
  then have "SlotsPerEpoch c \<noteq> 0" by auto
  have "unat slot div unat (SlotsPerEpoch c) \<le> unat slot div 2"
    using spe by (intro div_le_mono2) simp_all
  also have "\<dots> < 9223372036854775808" by (rule less_mult_imp_div_less) simp
  finally have "?e < max_u64"
    by (simp add: word_less_nat_alt unat_div_u64 unat_max_u64)
  moreover have "?seg \<in> set (SlotTimeSchedule c)" by (simp add: seg_idx_props(1))
  ultimately show ?thesis
    using ValidateDutyOffsets_sound [OF assms(1,2,3), of ?seg ?e] \<open>SlotsPerEpoch c \<noteq> 0\<close>
    by (simp add: AttestationDueAt_def AggregationDueAt_def SlotDurationAt_seg)
qed

theorem duties_ordered_in_every_slot_witness:
  "\<exists>att agg d. AttestationDueAt two_fork_config 7 = Inr att \<and>
     AggregationDueAt two_fork_config 7 = Inr agg \<and>
     SlotDurationAt two_fork_config 7 = Inr d \<and> att < agg \<and> agg < d"
proof -
  have "ValidateDutyOffsets two_fork_config = Inr ()" by code_simp
  moreover have "AttestationOffsetMs two_fork_config \<noteq> 0" "1 < SlotsPerEpoch two_fork_config"
    "FarFutureEpoch two_fork_config = max_u64"
    by code_simp+
  ultimately show ?thesis
    using duties_ordered_in_every_slot [of two_fork_config 7] by simp
qed

text \<open>C21: a slot belongs to an epoch exactly when it lies between the epoch's start and end slots.\<close>

theorem ToEpoch_iff_between:
  assumes "SlotsPerEpoch c \<noteq> 0" and "EpochStart c e = Inr a" and "EpochEnd c e = Inr b"
  shows "ToEpoch c slot = Inr e \<longleftrightarrow> a \<le> slot \<and> slot \<le> b"
proof -
  let ?n = "unat (SlotsPerEpoch c)"
  have n: "0 < ?n" using assms(1) by (simp add: unat_gt_0)
  have "ToEpoch c slot = Inr e \<longleftrightarrow> unat slot div ?n = unat e"
    using assms(1) by (simp add: u64_eq_iff unat_div_u64)
  also have "\<dots> \<longleftrightarrow> ?n * unat e \<le> unat slot \<and> unat slot < ?n * (unat e + 1)"
    using n by (rule div_eq_iff_between)
  also have "\<dots> \<longleftrightarrow> a \<le> slot \<and> slot \<le> b"
    unfolding word_le_nat_alt
    using unat_epoch_start [OF assms(2)] EpochEnd_Inr [OF assms(1,3)] by linarith
  finally show ?thesis .
qed

theorem ToEpoch_iff_between_witness:
  "EpochStart mainnetBeaconConfig 3 = Inr 96 \<and> EpochEnd mainnetBeaconConfig 3 = Inr 127 \<and>
   ToEpoch mainnetBeaconConfig 127 = Inr 3"
proof -
  have e: "EpochStart mainnetBeaconConfig 3 = Inr 96" "EpochEnd mainnetBeaconConfig 3 = Inr 127"
    by code_simp+
  have "SlotsPerEpoch mainnetBeaconConfig \<noteq> 0" by code_simp
  from ToEpoch_iff_between [OF this e, of 127] e show ?thesis by (simp del: ToEpoch_ok)
qed

text \<open>A start time beyond the range of a time.Duration is not reported as an error: the product in
  nanoseconds wraps, and slot 768614337 of a 12 s chain starts before genesis.\<close>

theorem StartTime_wraps:
  "StartTime mainnetBeaconConfig 0 768614337 = Inr (- 9223372029709551616)"
  by code_simp

end
