(* ===== verification/Multi_Value_Slice.thy ===== *)
theory Multi_Value_Slice
  imports Prelude "HOL-Library.Multiset"
begin

text \<open>
  The multi-value slice of \<^verbatim>\<open>src/container/multi-value-slice/multi_value_slice.go\<close>: one data structure
  that several objects share, each seeing its own list. A \<^verbatim>\<open>Value\<close> is a value with the identifiers of
  the objects that hold it; the items of an index are a list of such values. The lock is not
  part of the model, each operation runs alone. A range over the map of individual items treats every
  entry on its own, so the order does not matter and the model maps over the entries. The lemmas
  show that every operation acts on the list the object sees as the plain list operation does and leaves the lists of
  all other objects alone.
\<close>

section \<open>Plain lists\<close>

definition ErrOutOfBounds :: error where
  "ErrOutOfBounds = Err ''out of bounds''"

definition errIndex :: error where
  "errIndex = Wrap ''index'' ErrOutOfBounds"

text \<open>\<^verbatim>\<open>At\<close> and \<^verbatim>\<open>UpdateAt\<close> on the list that one object sees; \<^verbatim>\<open>EmptyMVSlice\<close> reads a plain slice this way.\<close>

definition mv_At :: "'a list \<Rightarrow> u64 \<Rightarrow> 'a result" where
  "mv_At xs i = (if unat i < length xs then Inr (xs ! unat i) else Inl errIndex)"

definition mv_UpdateAt :: "'a list \<Rightarrow> u64 \<Rightarrow> 'a \<Rightarrow> 'a list result" where
  "mv_UpdateAt xs i v = (if unat i < length xs then Inr (xs[unat i := v]) else Inl errIndex)"

section \<open>The data structure\<close>

record 'v mv_value =
  mv_val :: 'v
  mv_ids :: "u64 list"

type_synonym 'v mv_item = "'v mv_value list"

record 'v mv_slice =
  sharedItems :: "'v list"
  individualItems :: "nat \<rightharpoonup> 'v mv_item"
  appendedItems :: "'v mv_item list"
  cachedLengths :: "u64 \<rightharpoonup> nat"

section \<open>One item\<close>

definition deleteElemFromSlice :: "'a list \<Rightarrow> nat \<Rightarrow> 'a list" where
  "deleteElemFromSlice s i = butlast (s[i := last s])"

fun slices_Index :: "u64 list \<Rightarrow> u64 \<Rightarrow> nat option" where
  "slices_Index [] w = None"
| "slices_Index (x # xs) w = (if x = w then Some 0 else map_option Suc (slices_Index xs w))"

definition containsId :: "u64 list \<Rightarrow> u64 \<Rightarrow> nat \<times> bool" where
  "containsId ids wanted = (case slices_Index ids wanted of Some i \<Rightarrow> (i, True) | None \<Rightarrow> (0, False))"

text \<open>The value that an object holds in an item: the first whose identifiers contain it.\<close>

fun item_find :: "u64 \<Rightarrow> 'v mv_item \<Rightarrow> nat option" where
  "item_find obj [] = None"
| "item_find obj (v # vs) = (if snd (containsId (mv_ids v) obj) then Some 0 else map_option Suc (item_find obj vs))"

definition item_val :: "u64 \<Rightarrow> 'v mv_item \<Rightarrow> 'v option" where
  "item_val obj item = map_option (\<lambda>i. mv_val (item ! i)) (item_find obj item)"

text \<open>The loop that takes an object out of an item: a value that no object holds any more disappears.\<close>

definition item_remove :: "u64 \<Rightarrow> 'v mv_item \<Rightarrow> 'v mv_item" where
  "item_remove obj item = (case item_find obj item of None \<Rightarrow> item
     | Some vi \<Rightarrow> (let v = item ! vi in
         if length (mv_ids v) = 1 then deleteElemFromSlice item vi
         else item[vi := v\<lparr>mv_ids := deleteElemFromSlice (mv_ids v) (fst (containsId (mv_ids v) obj))\<rparr>]))"

text \<open>The loop that adds an object to the value it now holds, or adds that value.\<close>

fun item_add :: "u64 \<Rightarrow> 'v \<Rightarrow> 'v mv_item \<Rightarrow> 'v mv_item" where
  "item_add obj val [] = [\<lparr>mv_val = val, mv_ids = [obj]\<rparr>]"
| "item_add obj val (v # vs) =
     (if mv_val v = val then v\<lparr>mv_ids := mv_ids v @ [obj]\<rparr> # vs else v # item_add obj val vs)"

text \<open>The loop of \<^verbatim>\<open>Copy\<close>: the value that holds the source now also holds the destination.\<close>

definition item_copy :: "u64 \<Rightarrow> u64 \<Rightarrow> 'v mv_item \<Rightarrow> 'v mv_item" where
  "item_copy src dst item = (case item_find src item of None \<Rightarrow> item
     | Some vi \<Rightarrow> item[vi := (item ! vi)\<lparr>mv_ids := mv_ids (item ! vi) @ [dst]\<rparr>])"

section \<open>Operations\<close>

definition mv_Init :: "'v list \<Rightarrow> 'v mv_slice" where
  "mv_Init items = \<lparr>sharedItems = items, individualItems = Map.empty, appendedItems = [],
     cachedLengths = Map.empty\<rparr>"

definition mv_Len :: "'v mv_slice \<Rightarrow> u64 \<Rightarrow> nat" where
  "mv_Len s obj = (case cachedLengths s obj of None \<Rightarrow> length (sharedItems s) | Some l \<Rightarrow> l)"

text \<open>A loop over the appended items that stops at the first one without a value for the object.\<close>

fun appended_while :: "u64 \<Rightarrow> ('v mv_item \<Rightarrow> 'v mv_item) \<Rightarrow> 'v mv_item list \<Rightarrow> 'v mv_item list" where
  "appended_while obj f [] = []"
| "appended_while obj f (item # items) =
     (if item_find obj item \<noteq> None then f item # appended_while obj f items else item # items)"

definition mv_Copy :: "u64 \<Rightarrow> u64 \<Rightarrow> 'v mv_slice \<Rightarrow> 'v mv_slice" where
  "mv_Copy src dst s =
     s\<lparr>individualItems := (\<lambda>i. map_option (item_copy src dst) (individualItems s i)),
       appendedItems := appended_while src (item_copy src dst) (appendedItems s),
       cachedLengths := (case cachedLengths s src of None \<Rightarrow> cachedLengths s
                         | Some l \<Rightarrow> (cachedLengths s)(dst \<mapsto> l))\<rparr>"

text \<open>\<^verbatim>\<open>fillOriginalItems\<close>: the shared items, replaced by individual ones where the object has them.\<close>

definition fillOriginalItems :: "'v mv_slice \<Rightarrow> u64 \<Rightarrow> 'v list" where
  "fillOriginalItems s obj =
     map (\<lambda>(i, item). case individualItems s i of None \<Rightarrow> item
            | Some ind \<Rightarrow> (case item_val obj ind of None \<Rightarrow> item | Some v \<Rightarrow> v))
         (enumerate 0 (sharedItems s))"

fun appended_vals :: "u64 \<Rightarrow> 'v mv_item list \<Rightarrow> 'v list" where
  "appended_vals obj [] = []"
| "appended_vals obj (item # items) =
     (case item_val obj item of None \<Rightarrow> [] | Some v \<Rightarrow> v # appended_vals obj items)"

text \<open>\<^verbatim>\<open>Value\<close> writes into a slice of \<^verbatim>\<open>Len\<close> zero values; writing beyond it panics.\<close>

definition mv_Value :: "'v \<Rightarrow> 'v mv_slice \<Rightarrow> u64 \<Rightarrow> 'v list result" where
  "mv_Value zero s obj = (case cachedLengths s obj of
       None \<Rightarrow> Inr (fillOriginalItems s obj)
     | Some l \<Rightarrow> (let vals = fillOriginalItems s obj @ appended_vals obj (appendedItems s)
                  in if length vals \<le> l then Inr (vals @ replicate (l - length vals) zero)
                     else Inl (Panic ''index out of range'')))"

definition slice_At :: "'v mv_slice \<Rightarrow> u64 \<Rightarrow> u64 \<Rightarrow> 'v result" where
  "slice_At s obj index =
     (let i = unat index; n = length (sharedItems s) in
      if i \<ge> n + length (appendedItems s) then Inl errIndex
      else if i < n
      then Inr (case individualItems s i of None \<Rightarrow> sharedItems s ! i
                | Some ind \<Rightarrow> (case item_val obj ind of Some v \<Rightarrow> v | None \<Rightarrow> sharedItems s ! i))
      else (case item_val obj (appendedItems s ! (i - n)) of Some v \<Rightarrow> Inr v | None \<Rightarrow> Inl errIndex))"

definition updateOriginalItem :: "u64 \<Rightarrow> nat \<Rightarrow> 'v \<Rightarrow> 'v mv_slice \<Rightarrow> 'v mv_slice" where
  "updateOriginalItem obj i val s =
     (let ind = map_option (item_remove obj) (individualItems s i);
          s1 = s\<lparr>individualItems := (individualItems s)(i := ind)\<rparr> in
      if val = sharedItems s ! i then s1
      else s1\<lparr>individualItems := (individualItems s1)(i \<mapsto>
             (case ind of None \<Rightarrow> [\<lparr>mv_val = val, mv_ids = [obj]\<rparr>] | Some item \<Rightarrow> item_add obj val item))\<rparr>)"

definition updateAppendedItem :: "u64 \<Rightarrow> nat \<Rightarrow> 'v \<Rightarrow> 'v mv_slice \<Rightarrow> 'v mv_slice result" where
  "updateAppendedItem obj i val s =
     (let k = i - length (sharedItems s); item = appendedItems s ! k in
      if item_find obj item = None then Inl errIndex
      else Inr (s\<lparr>appendedItems := (appendedItems s)[k := item_add obj val (item_remove obj item)]\<rparr>))"

definition slice_UpdateAt :: "u64 \<Rightarrow> u64 \<Rightarrow> 'v \<Rightarrow> 'v mv_slice \<Rightarrow> 'v mv_slice result" where
  "slice_UpdateAt obj index val s =
     (let i = unat index; n = length (sharedItems s) in
      if i \<ge> n + length (appendedItems s) then Inl errIndex
      else if i < n then Inr (updateOriginalItem obj i val s)
      else updateAppendedItem obj i val s)"

text \<open>The loop of \<^verbatim>\<open>Append\<close>: the first item without a value for the object gets one; \<open>None\<close> when every
  item has one.\<close>

fun append_first :: "u64 \<Rightarrow> 'v \<Rightarrow> 'v mv_item list \<Rightarrow> 'v mv_item list option" where
  "append_first obj val [] = None"
| "append_first obj val (item # items) =
     (if item_find obj item = None then Some (item_add obj val item # items)
      else map_option ((#) item) (append_first obj val items))"

definition mv_Append :: "u64 \<Rightarrow> 'v \<Rightarrow> 'v mv_slice \<Rightarrow> 'v mv_slice" where
  "mv_Append obj val s =
     (let n = length (sharedItems s); fresh = [\<lparr>mv_val = val, mv_ids = [obj]\<rparr>] in
      if appendedItems s = []
      then s\<lparr>appendedItems := [fresh], cachedLengths := (cachedLengths s)(obj \<mapsto> n + 1)\<rparr>
      else case append_first obj val (appendedItems s) of
        Some items \<Rightarrow> s\<lparr>appendedItems := items, cachedLengths := (cachedLengths s)(obj \<mapsto>
            (case cachedLengths s obj of Some l \<Rightarrow> l + 1 | None \<Rightarrow> n + 1))\<rparr>
      | None \<Rightarrow> s\<lparr>appendedItems := appendedItems s @ [fresh], cachedLengths := (cachedLengths s)(obj \<mapsto>
            (case cachedLengths s obj of Some l \<Rightarrow> l | None \<Rightarrow> 0) + 1)\<rparr>)"

text \<open>\<^verbatim>\<open>Detach\<close> drops a map entry whose only value was the object's.\<close>

definition detach_individual :: "u64 \<Rightarrow> 'v mv_item \<Rightarrow> 'v mv_item option" where
  "detach_individual obj item =
     (case item_find obj item of None \<Rightarrow> Some item
      | Some vi \<Rightarrow> if length (mv_ids (item ! vi)) = 1 \<and> length item = 1 then None
                   else Some (item_remove obj item))"

definition mv_Detach :: "u64 \<Rightarrow> 'v mv_slice \<Rightarrow> 'v mv_slice" where
  "mv_Detach obj s =
     s\<lparr>individualItems := (\<lambda>i. Option.bind (individualItems s i) (detach_individual obj)),
       appendedItems := appended_while obj (item_remove obj) (appendedItems s),
       cachedLengths := (cachedLengths s)(obj := None)\<rparr>"

text \<open>The last loop of \<^verbatim>\<open>Reset\<close> leaves an item without any value behind and goes on.\<close>

fun reset_vals :: "u64 \<Rightarrow> 'v mv_item list \<Rightarrow> 'v list" where
  "reset_vals obj [] = []"
| "reset_vals obj (item # items) =
     (if item = [] then reset_vals obj items
      else case item_val obj item of None \<Rightarrow> [] | Some v \<Rightarrow> v # reset_vals obj items)"

definition mv_Reset :: "'v \<Rightarrow> u64 \<Rightarrow> 'v mv_slice \<Rightarrow> 'v mv_slice result" where
  "mv_Reset zero obj s =
     (let l = mv_Len s obj; vals = fillOriginalItems s obj @ reset_vals obj (appendedItems s)
      in if length vals \<le> l then Inr (mv_Init (vals @ replicate (l - length vals) zero))
         else Inl (Panic ''index out of range''))"

definition fragmentationLimit :: nat where "fragmentationLimit = 50000"

definition item_refs :: "'v mv_item \<Rightarrow> nat" where
  "item_refs item = sum_list (map (\<lambda>v. length (mv_ids v)) item)"

text \<open>The individual items of a slice as a list, in the order of their indices.\<close>

definition individual_list :: "'v mv_slice \<Rightarrow> 'v mv_item list" where
  "individual_list s = List.map_filter (individualItems s) [0..<length (sharedItems s)]"

definition IsFragmented :: "'v mv_slice \<Rightarrow> bool" where
  "IsFragmented s \<longleftrightarrow> sum_list (map item_refs (individual_list s))
     + sum_list (map item_refs (appendedItems s)) \<ge> fragmentationLimit"

section \<open>An item as a finite map\<close>

text \<open>The pairs of object and value that an item stores. An item is well-formed when no object occurs
  twice; then it is a map from objects to values.\<close>

definition item_pairs :: "'v mv_item \<Rightarrow> (u64 \<times> 'v) list" where
  "item_pairs item = concat (map (\<lambda>x. map (\<lambda>obj. (obj, mv_val x)) (mv_ids x)) item)"

definition item_ok :: "'v mv_item \<Rightarrow> bool" where
  "item_ok item \<longleftrightarrow> distinct (map fst (item_pairs item))"

lemma item_pairs_simps [simp]:
  "item_pairs [] = []"
  "item_pairs (x # item) = map (\<lambda>obj. (obj, mv_val x)) (mv_ids x) @ item_pairs item"
  by (simp_all add: item_pairs_def)

lemma slices_Index_Some:
  "slices_Index xs w = Some i \<Longrightarrow> i < length xs \<and> xs ! i = w"
  by (induction xs arbitrary: i) (auto split: if_splits)

lemma slices_Index_None: "slices_Index xs w = None \<longleftrightarrow> w \<notin> set xs"
  by (induction xs) auto

lemma containsId_found: "snd (containsId ids obj) \<longleftrightarrow> obj \<in> set ids"
  using slices_Index_None [of ids obj] by (auto simp: containsId_def split: option.splits)

lemma containsId_index: "obj \<in> set ids \<Longrightarrow> fst (containsId ids obj) < length ids \<and> ids ! fst (containsId ids obj) = obj"
  using slices_Index_None [of ids obj] slices_Index_Some [of ids obj]
  by (auto simp: containsId_def split: option.splits)

lemma item_find_Some:
  "item_find obj item = Some i \<Longrightarrow> i < length item \<and> obj \<in> set (mv_ids (item ! i))"
  by (induction item arbitrary: i) (auto simp: containsId_found split: if_splits)

lemma item_find_None: "item_find obj item = None \<longleftrightarrow> obj \<notin> fst ` set (item_pairs item)"
  by (induction item) (auto simp: containsId_found image_Un image_image)

lemma map_of_const: "map_of (map (\<lambda>k. (k, v)) ks) k = (if k \<in> set ks then Some v else None)"
  by (induction ks) auto

lemma item_val_map_of: "item_val obj item = map_of (item_pairs item) obj"
proof (induction item)
  case (Cons x item)
  then show ?case
    by (cases "item_find obj item")
       (auto simp: item_val_def containsId_found map_add_def map_of_const split: option.splits)
qed (simp add: item_val_def)

lemma item_val_None: "item_val obj item = None \<longleftrightarrow> item_find obj item = None"
  by (simp add: item_val_def)

lemma mset_item_pairs:
  "mset (item_pairs item) = (\<Sum>x \<in># mset item. image_mset (\<lambda>obj. (obj, mv_val x)) (mset (mv_ids x)))"
  by (induction item) simp_all

text \<open>Two well-formed items with the same pairs are the same map.\<close>

lemma map_of_mset_eq:
  assumes "mset xs = mset ys" "distinct (map fst xs)"
  shows "map_of xs = map_of ys \<and> distinct (map fst ys)"
proof -
  have "mset (map fst xs) = mset (map fst ys)" using assms(1) by simp
  then have "distinct (map fst ys)" using assms(2) mset_eq_imp_distinct_iff by blast
  moreover have "set xs = set ys" using assms(1) by (rule mset_eq_setD)
  ultimately show ?thesis using assms(2) map_of_inject_set by blast
qed

lemma mset_deleteElem:
  assumes "i < length xs"
  shows "mset (deleteElemFromSlice xs i) = mset xs - {#xs ! i#}"
proof -
  have ne: "xs \<noteq> []" using assms by auto
  have "mset (xs[i := last xs]) = add_mset (last xs) (mset xs - {#xs ! i#})"
    using assms by (simp add: mset_update)
  moreover have "last (xs[i := last xs]) = last xs"
    using ne assms by (simp add: last_list_update)
  moreover have "mset (butlast (xs[i := last xs])) = mset (xs[i := last xs]) - {#last (xs[i := last xs])#}"
    using ne by (metis add_mset_remove_trivial append_butlast_last_id list_update_nonempty mset_append
        mset_single_iff_right union_mset_add_mset_right mset.simps empty_neutral(2))
  ultimately show ?thesis by (simp add: deleteElemFromSlice_def)
qed

lemma mset_pairs_remove:
  assumes "item_find obj item = Some vi"
  shows "mset (item_pairs item) = add_mset (obj, mv_val (item ! vi)) (mset (item_pairs (item_remove obj item)))"
proof -
  let ?v = "item ! vi" and ?g = "\<lambda>x. image_mset (\<lambda>obj. (obj, mv_val x)) (mset (mv_ids x))"
  let ?j = "fst (containsId (mv_ids ?v) obj)"
  have vi: "vi < length item" "obj \<in> set (mv_ids ?v)" using item_find_Some [OF assms] by auto
  then have j: "?j < length (mv_ids ?v)" "mv_ids ?v ! ?j = obj" using containsId_index by fast+
  have "?v \<in># mset item" using vi(1) by simp
  then have split: "mset item = add_mset ?v (mset item - {#?v#})" by simp
  have all: "mset (item_pairs item) = ?g ?v + (\<Sum>x \<in># mset item - {#?v#}. ?g x)"
    unfolding mset_item_pairs by (subst split) simp
  show ?thesis
  proof (cases "length (mv_ids ?v) = 1")
    case True
    then have "mv_ids ?v = [obj]" using vi(2) by (cases "mv_ids ?v") auto
    moreover have "mset (item_pairs (item_remove obj item)) = (\<Sum>x \<in># mset item - {#?v#}. ?g x)"
      using True assms vi(1) by (simp add: item_remove_def Let_def mset_item_pairs mset_deleteElem)
    ultimately show ?thesis using all by simp
  next
    case False
    let ?w = "?v\<lparr>mv_ids := deleteElemFromSlice (mv_ids ?v) ?j\<rparr>"
    have "mset (item_pairs (item_remove obj item)) = ?g ?w + (\<Sum>x \<in># mset item - {#?v#}. ?g x)"
      using False assms vi(1) by (simp add: item_remove_def Let_def mset_item_pairs mset_update)
    moreover have "?g ?v = add_mset (obj, mv_val ?v) (?g ?w)"
    proof -
      have "mset (mv_ids ?v) = add_mset obj (mset (deleteElemFromSlice (mv_ids ?v) ?j))"
        using j vi(2) by (simp add: mset_deleteElem)
      then show ?thesis by simp
    qed
    ultimately show ?thesis using all by simp
  qed
qed

lemma item_remove_laws:
  assumes "item_ok item"
  shows "item_ok (item_remove obj item)"
    "item_val k (item_remove obj item) = (if k = obj then None else item_val k item)"
proof -
  have both: "item_ok (item_remove obj item) \<and>
    item_val k (item_remove obj item) = (if k = obj then None else item_val k item)"
  proof (cases "item_find obj item")
    case None
    then have "item_val obj item = None" by (simp add: item_val_def)
    then show ?thesis using None assms by (simp add: item_remove_def)
  next
    case (Some vi)
    let ?v = "mv_val (item ! vi)" and ?rest = "item_pairs (item_remove obj item)"
    have "mset (item_pairs item) = mset ((obj, ?v) # ?rest)"
      using mset_pairs_remove [OF Some] by simp
    from map_of_mset_eq [OF this] assms
    have m: "map_of (item_pairs item) = map_of ((obj, ?v) # ?rest)"
      and d: "distinct (map fst ((obj, ?v) # ?rest))" by (simp_all add: item_ok_def)
    then have "map_of ?rest obj = None" by (simp add: map_of_eq_None_iff)
    then show ?thesis using m d by (auto simp: item_ok_def item_val_map_of)
  qed
  then show "item_ok (item_remove obj item)"
    "item_val k (item_remove obj item) = (if k = obj then None else item_val k item)" by auto
qed

lemma mset_pairs_add:
  "mset (item_pairs (item_add obj val item)) = add_mset (obj, val) (mset (item_pairs item))"
  by (induction item) auto

lemma item_add_laws:
  assumes "item_ok item" "item_find obj item = None"
  shows "item_ok (item_add obj val item)"
    "item_val k (item_add obj val item) = (if k = obj then Some val else item_val k item)"
proof -
  have d: "distinct (map fst ((obj, val) # item_pairs item))"
    using assms by (auto simp: item_ok_def item_find_None)
  have "mset ((obj, val) # item_pairs item) = mset (item_pairs (item_add obj val item))"
    by (simp add: mset_pairs_add)
  from map_of_mset_eq [OF this d]
  have m: "map_of (item_pairs (item_add obj val item)) = (map_of (item_pairs item))(obj \<mapsto> val)"
    and d': "distinct (map fst (item_pairs (item_add obj val item)))" by simp_all
  show "item_ok (item_add obj val item)" using d' by (simp add: item_ok_def)
  show "item_val k (item_add obj val item) = (if k = obj then Some val else item_val k item)"
    by (simp add: item_val_map_of m)
qed

lemma mset_pairs_copy:
  assumes "item_find src item = Some vi"
  shows "mset (item_pairs (item_copy src dst item)) = add_mset (dst, mv_val (item ! vi)) (mset (item_pairs item))"
proof -
  let ?v = "item ! vi" and ?g = "\<lambda>x. image_mset (\<lambda>obj. (obj, mv_val x)) (mset (mv_ids x))"
  have vi: "vi < length item" using item_find_Some [OF assms] by auto
  then have "?v \<in># mset item" by simp
  then have split: "mset item = add_mset ?v (mset item - {#?v#})" by simp
  have "mset (item_pairs item) = ?g ?v + (\<Sum>x \<in># mset item - {#?v#}. ?g x)"
    unfolding mset_item_pairs by (subst split) simp
  then show ?thesis
    using assms vi by (simp add: item_copy_def mset_item_pairs mset_update)
qed

lemma item_copy_laws:
  assumes "item_ok item" "item_find dst item = None"
  shows "item_ok (item_copy src dst item)"
    "item_val k (item_copy src dst item) = (if k = dst then item_val src item else item_val k item)"
proof -
  have both: "item_ok (item_copy src dst item) \<and>
    item_val k (item_copy src dst item) = (if k = dst then item_val src item else item_val k item)"
  proof (cases "item_find src item")
    case None
    then show ?thesis using assms by (simp add: item_copy_def item_val_def)
  next
    case (Some vi)
    let ?v = "mv_val (item ! vi)"
    have d: "distinct (map fst ((dst, ?v) # item_pairs item))"
      using assms by (auto simp: item_ok_def item_find_None)
    have "mset ((dst, ?v) # item_pairs item) = mset (item_pairs (item_copy src dst item))"
      by (simp add: mset_pairs_copy [OF Some])
    from map_of_mset_eq [OF this d]
    have m: "map_of (item_pairs (item_copy src dst item)) = (map_of (item_pairs item))(dst \<mapsto> ?v)"
      and d': "distinct (map fst (item_pairs (item_copy src dst item)))" by simp_all
    have "item_val src item = Some ?v" using Some by (simp add: item_val_def)
    then show ?thesis using d' by (simp add: item_ok_def item_val_map_of m)
  qed
  then show "item_ok (item_copy src dst item)"
    "item_val k (item_copy src dst item) = (if k = dst then item_val src item else item_val k item)" by auto
qed

section \<open>The list an object sees\<close>

definition mv_view :: "'v mv_slice \<Rightarrow> u64 \<Rightarrow> 'v list" where
  "mv_view s obj = fillOriginalItems s obj @ appended_vals obj (appendedItems s)"

text \<open>The appended items that hold a value for an object come first.\<close>

fun holds_prefix :: "u64 \<Rightarrow> 'v mv_item list \<Rightarrow> bool" where
  "holds_prefix obj [] = True"
| "holds_prefix obj (item # items) =
     (if item_val obj item = None then list_all (\<lambda>x. item_val obj x = None) items else holds_prefix obj items)"

definition cached_ok :: "'v mv_slice \<Rightarrow> u64 \<Rightarrow> bool" where
  "cached_ok s obj \<longleftrightarrow> (case cachedLengths s obj of
        None \<Rightarrow> appended_vals obj (appendedItems s) = []
      | Some l \<Rightarrow> l = length (sharedItems s) + length (appended_vals obj (appendedItems s)))"

definition slice_ok :: "'v mv_slice \<Rightarrow> bool" where
  "slice_ok s \<longleftrightarrow>
     (\<forall>i item. individualItems s i = Some item \<longrightarrow> i < length (sharedItems s) \<and> item_ok item) \<and>
     (\<forall>item \<in> set (appendedItems s). item_ok item) \<and>
     (\<forall>obj. holds_prefix obj (appendedItems s)) \<and>
     (\<forall>obj. cached_ok s obj)"

text \<open>An object that the slice has never seen, or that was detached.\<close>

definition mv_fresh :: "'v mv_slice \<Rightarrow> u64 \<Rightarrow> bool" where
  "mv_fresh s obj \<longleftrightarrow> cachedLengths s obj = None \<and>
     (\<forall>i item. individualItems s i = Some item \<longrightarrow> item_val obj item = None)"

definition orig_val :: "'v mv_slice \<Rightarrow> u64 \<Rightarrow> nat \<Rightarrow> 'v" where
  "orig_val s obj i = (case individualItems s i of None \<Rightarrow> sharedItems s ! i
     | Some ind \<Rightarrow> (case item_val obj ind of None \<Rightarrow> sharedItems s ! i | Some v \<Rightarrow> v))"

lemma fillOriginalItems_eq: "fillOriginalItems s obj = map (orig_val s obj) [0..<length (sharedItems s)]"
  by (rule nth_equalityI) (simp_all add: fillOriginalItems_def orig_val_def nth_enumerate_eq)

lemma length_fill [simp]: "length (fillOriginalItems s obj) = length (sharedItems s)"
  by (simp add: fillOriginalItems_eq)

lemma appended_vals_none: "list_all (\<lambda>x. item_val obj x = None) items \<Longrightarrow> appended_vals obj items = []"
  by (cases items) auto

lemma holds_prefix_all_none: "list_all (\<lambda>x. item_val obj x = None) items \<Longrightarrow> holds_prefix obj items"
  by (cases items) auto

lemma holds_prefix_none:
  "holds_prefix obj items \<Longrightarrow> appended_vals obj items = [] \<Longrightarrow> list_all (\<lambda>x. item_val obj x = None) items"
  by (cases items) (auto split: if_splits)

lemma appended_nth:
  assumes "holds_prefix obj items" "j < length items"
  shows "item_val obj (items ! j)
    = (if j < length (appended_vals obj items) then Some (appended_vals obj items ! j) else None)"
  using assms
proof (induction items arbitrary: j)
  case (Cons item items)
  show ?case
  proof (cases "item_val obj item")
    case None
    with Cons.prems show ?thesis by (cases j) (auto simp: list_all_length)
  next
    case (Some v)
    with Cons show ?thesis by (cases j) auto
  qed
qed simp

lemma appended_vals_le: "length (appended_vals obj items) \<le> length items"
  by (induction items) (auto split: option.splits)

lemma slice_okD:
  assumes "slice_ok s"
  shows "individualItems s i = Some item \<Longrightarrow> i < length (sharedItems s)"
    "individualItems s i = Some item \<Longrightarrow> item_ok item"
    "item \<in> set (appendedItems s) \<Longrightarrow> item_ok item"
    "holds_prefix obj (appendedItems s)"
    "cached_ok s obj"
  using assms by (fastforce simp: slice_ok_def)+

lemma cached_ok_cong:
  "sharedItems s' = sharedItems s \<Longrightarrow> appendedItems s' = appendedItems s \<Longrightarrow> cachedLengths s' = cachedLengths s
     \<Longrightarrow> cached_ok s' obj = cached_ok s obj"
  by (simp add: cached_ok_def split: option.splits)

lemma mv_Len_view: "slice_ok s \<Longrightarrow> mv_Len s obj = length (mv_view s obj)"
  using slice_okD(5) [of s obj] by (auto simp: cached_ok_def mv_Len_def mv_view_def split: option.splits)

lemma mv_Value_view: "slice_ok s \<Longrightarrow> mv_Value zero s obj = Inr (mv_view s obj)"
  using slice_okD(5) [of s obj]
  by (auto simp: cached_ok_def mv_Value_def mv_view_def Let_def split: option.splits)

lemma slice_At_view:
  assumes "slice_ok s"
  shows "slice_At s obj i = mv_At (mv_view s obj) i"
proof (cases "unat i < length (sharedItems s)")
  case True
  then show ?thesis
    by (simp add: slice_At_def mv_At_def mv_view_def nth_append fillOriginalItems_eq orig_val_def Let_def
        split: option.splits)
next
  case False
  let ?j = "unat i - length (sharedItems s)" and ?app = "appendedItems s"
  have le: "length (appended_vals obj ?app) \<le> length ?app" by (rule appended_vals_le)
  show ?thesis
  proof (cases "?j < length ?app")
    case True
    then show ?thesis
      using appended_nth [OF slice_okD(4) [OF assms] True] False
      by (auto simp: slice_At_def mv_At_def mv_view_def nth_append Let_def)
  next
    case out: False
    then have "length (sharedItems s) + length ?app \<le> unat i" using False by linarith
    then show ?thesis using le by (simp add: slice_At_def mv_At_def mv_view_def Let_def)
  qed
qed

lemma mv_Init_laws: "slice_ok (mv_Init items)" "mv_view (mv_Init items) obj = items"
  "mv_fresh (mv_Init items) obj"
proof -
  have "orig_val (mv_Init items) obj = (!) items" by (rule ext) (simp add: orig_val_def mv_Init_def)
  then show "mv_view (mv_Init items) obj = items"
    by (simp add: mv_view_def fillOriginalItems_eq map_nth) (simp add: mv_Init_def map_nth)
qed (simp_all add: slice_ok_def cached_ok_def mv_Init_def mv_fresh_def)

section \<open>Effect of the operations on the lists\<close>

text \<open>What an object sees of the appended items depends only on the values it holds in them.\<close>

lemma appended_cong:
  assumes "map (item_val obj) items' = map (item_val obj) items"
  shows "appended_vals obj items' = appended_vals obj items" "holds_prefix obj items' = holds_prefix obj items"
proof -
  have "appended_vals obj items' = appended_vals obj items \<and> holds_prefix obj items' = holds_prefix obj items"
    using assms
  proof (induction items arbitrary: items')
    case (Cons item items)
    then obtain item' rest where i': "items' = item' # rest" "item_val obj item' = item_val obj item"
        "map (item_val obj) rest = map (item_val obj) items" by auto
    have "list_all (\<lambda>x. item_val obj x = None) rest = list_all (\<lambda>x. x = None) (map (item_val obj) rest)"
      by (simp add: list_all_iff)
    then have "list_all (\<lambda>x. item_val obj x = None) rest = list_all (\<lambda>x. item_val obj x = None) items"
      using i'(3) by (simp add: list_all_iff)
    then show ?case using Cons.IH [OF i'(3)] i'(1,2) by (auto split: option.splits)
  qed simp
  then show "appended_vals obj items' = appended_vals obj items" "holds_prefix obj items' = holds_prefix obj items"
    by auto
qed

lemma map_item_val_update:
  "item_val k new = item_val k (items ! j) \<Longrightarrow> map (item_val k) (items[j := new]) = map (item_val k) items"
  by (cases "j < length items") (auto simp: map_update list_update_same_conv list_update_beyond)

lemma appended_update:
  assumes "holds_prefix obj items" "j < length (appended_vals obj items)" "item_val obj new = Some v"
  shows "holds_prefix obj (items[j := new]) \<and>
    appended_vals obj (items[j := new]) = (appended_vals obj items)[j := v]"
  using assms
proof (induction items arbitrary: j)
  case (Cons item items)
  then show ?case by (cases j) (auto split: if_splits)
qed simp

lemma appended_snoc_none:
  assumes "item_val obj new = None" "holds_prefix obj items"
  shows "holds_prefix obj (items @ [new]) \<and> appended_vals obj (items @ [new]) = appended_vals obj items"
  using assms by (induction items) auto

lemma appended_snoc_full:
  assumes "item_val obj new = Some v" "list_all (\<lambda>x. item_val obj x \<noteq> None) items"
  shows "holds_prefix obj (items @ [new]) \<and> appended_vals obj (items @ [new]) = appended_vals obj items @ [v]"
  using assms by (induction items) auto

lemma append_first_None:
  "append_first obj val items = None \<Longrightarrow> list_all (\<lambda>x. item_val obj x \<noteq> None) items"
  by (induction items) (auto simp: item_val_None split: if_splits)

lemma append_first_Some:
  assumes "append_first obj val items = Some items'" "holds_prefix obj items" "list_all item_ok items"
  shows "holds_prefix obj items' \<and> appended_vals obj items' = appended_vals obj items @ [val] \<and>
    list_all item_ok items' \<and> (\<forall>k. k \<noteq> obj \<longrightarrow> map (item_val k) items' = map (item_val k) items)"
  using assms
proof (induction items arbitrary: items')
  case (Cons item items)
  show ?case
  proof (cases "item_find obj item")
    case None
    then have "items' = item_add obj val item # items" using Cons.prems(1) by simp
    moreover have "item_val obj item = None" using None by (simp add: item_val_def)
    ultimately show ?thesis
      using Cons.prems(2,3) item_add_laws [OF _ None] by (auto simp: appended_vals_none holds_prefix_all_none)
  next
    case (Some vi)
    then obtain rest where r: "append_first obj val items = Some rest" "items' = item # rest"
      using Cons.prems(1) by auto
    have "item_val obj item \<noteq> None" using Some by (simp add: item_val_def)
    then show ?thesis using Cons.IH [OF r(1)] Cons.prems(2,3) r(2) by auto
  qed
qed simp

lemma appended_while_map:
  assumes "\<And>item. item \<in> set items \<Longrightarrow> item_val k (f item) = item_val k item"
  shows "map (item_val k) (appended_while obj f items) = map (item_val k) items"
  using assms by (induction items) auto

lemma appended_while_ok:
  assumes "list_all item_ok items" "\<And>item. item \<in> set items \<Longrightarrow> item_ok (f item)"
  shows "list_all item_ok (appended_while obj f items)"
  using assms by (induction items) auto

lemma appended_while_remove:
  assumes "holds_prefix obj items" "\<And>item. item \<in> set items \<Longrightarrow> item_val obj (f item) = None"
  shows "list_all (\<lambda>x. item_val obj x = None) (appended_while obj f items)"
  using assms by (induction items) (auto simp: item_val_None split: if_splits)

lemma appended_while_copy:
  assumes "holds_prefix src items" "list_all (\<lambda>x. item_val dst x = None) items"
      and "\<And>item. item \<in> set items \<Longrightarrow> item_val dst (f item) = item_val src item"
  shows "holds_prefix dst (appended_while src f items) \<and>
    appended_vals dst (appended_while src f items) = appended_vals src items"
  using assms by (induction items) (auto simp: item_val_None split: option.splits if_splits)

text \<open>The state after an operation that changes what one object sees.\<close>

definition sees :: "'v mv_slice \<Rightarrow> u64 \<Rightarrow> 'v list \<Rightarrow> 'v mv_slice \<Rightarrow> bool" where
  "sees s obj xs s' \<longleftrightarrow> slice_ok s' \<and> sharedItems s' = sharedItems s \<and> mv_view s' obj = xs \<and>
     (\<forall>k. k \<noteq> obj \<longrightarrow> mv_view s' k = mv_view s k \<and> (mv_fresh s k \<longrightarrow> mv_fresh s' k))"

lemma map_upt_update: "i < n \<Longrightarrow> map (\<lambda>j. if j = i then v else f j) [0..<n] = (map f [0..<n])[i := v]"
  by (rule nth_equalityI) (auto simp: nth_list_update)

lemma updateOriginalItem_sees:
  assumes "slice_ok s" "i < length (sharedItems s)"
  shows "sees s obj ((mv_view s obj)[i := val]) (updateOriginalItem obj i val s)"
proof -
  let ?s' = "updateOriginalItem obj i val s" and ?n = "length (sharedItems s)"
  have same: "sharedItems ?s' = sharedItems s" "appendedItems ?s' = appendedItems s"
    "cachedLengths ?s' = cachedLengths s" by (simp_all add: updateOriginalItem_def Let_def)
  have other: "individualItems ?s' j = individualItems s j" if "j \<noteq> i" for j
    using that by (simp add: updateOriginalItem_def Let_def)
  have at: "(case individualItems ?s' i of None \<Rightarrow> True | Some item \<Rightarrow> item_ok item) \<and>
      orig_val ?s' k i = (if k = obj then val else orig_val s k i) \<and>
      (k \<noteq> obj \<longrightarrow> mv_fresh s k \<longrightarrow> Option.bind (individualItems ?s' i) (item_val k) = None)" for k
  proof (cases "individualItems s i")
    case None
    then show ?thesis
      by (simp add: updateOriginalItem_def Let_def orig_val_def item_val_map_of item_ok_def mv_fresh_def)
  next
    case (Some item)
    have ok: "item_ok item" using slice_okD(2) [OF assms(1) Some] .
    note rem = item_remove_laws [OF ok, where obj = obj]
    have none: "item_find obj (item_remove obj item) = None" using rem(2) [of obj] by (simp add: item_val_def)
    show ?thesis
      using Some rem item_add_laws [OF rem(1) none, where val = val]
      by (auto simp: updateOriginalItem_def Let_def orig_val_def mv_fresh_def split: option.splits)
  qed
  have orig: "orig_val ?s' k j = (if k = obj \<and> j = i then val else orig_val s k j)" for k j
  proof (cases "j = i")
    case True
    then show ?thesis using at [of k] by simp
  next
    case False
    then show ?thesis using other [OF False] same(1) by (simp add: orig_val_def split: option.splits)
  qed
  have "slice_ok ?s'"
    unfolding slice_ok_def
  proof (intro conjI allI impI ballI)
    fix j item assume j: "individualItems ?s' j = Some item"
    show "j < length (sharedItems ?s')"
      using j other [of j] slice_okD(1) [OF assms(1)] assms(2) same(1) by (cases "j = i") auto
    show "item_ok item"
      using j other [of j] slice_okD(2) [OF assms(1)] at by (cases "j = i") auto
  qed (use assms(1) same cached_ok_cong [OF same] in \<open>auto simp: slice_ok_def\<close>)
  moreover have "mv_view ?s' k = (if k = obj then (mv_view s obj)[i := val] else mv_view s k)" for k
  proof (cases "k = obj")
    case True
    then have "orig_val ?s' k = (\<lambda>j. if j = i then val else orig_val s obj j)" using orig by auto
    then show ?thesis
      using True assms(2) same by (simp add: mv_view_def fillOriginalItems_eq map_upt_update list_update_append)
  next
    case False
    then have "orig_val ?s' k = orig_val s k" using orig by auto
    then show ?thesis using False same by (simp add: mv_view_def fillOriginalItems_eq)
  qed
  moreover have "mv_fresh ?s' k" if "k \<noteq> obj" "mv_fresh s k" for k
  proof -
    have "item_val k item = None" if "individualItems ?s' j = Some item" for j item
      using that at [of k] other [of j] \<open>k \<noteq> obj\<close> \<open>mv_fresh s k\<close> by (cases "j = i") (auto simp: mv_fresh_def)
    then show ?thesis using that(2) same(3) by (simp add: mv_fresh_def)
  qed
  ultimately show ?thesis using same(1) by (simp add: sees_def)
qed

text \<open>Operations that leave the shared and individual items alone.\<close>

lemma sees_appendedI:
  assumes ok: "slice_ok s" and same: "sharedItems s' = sharedItems s" "individualItems s' = individualItems s"
      and items: "\<forall>item \<in> set (appendedItems s'). item_ok item"
      and other: "\<And>k. k \<noteq> obj \<Longrightarrow> holds_prefix k (appendedItems s') \<and>
        appended_vals k (appendedItems s') = appended_vals k (appendedItems s) \<and> cachedLengths s' k = cachedLengths s k"
      and obj: "holds_prefix obj (appendedItems s')" "appended_vals obj (appendedItems s') = xs"
        "cachedLengths s' obj = (if xs = [] then None else Some (length (sharedItems s) + length xs)) \<or>
         cachedLengths s' obj = Some (length (sharedItems s) + length xs)"
  shows "sees s obj (fillOriginalItems s obj @ xs) s'"
proof -
  have pre: "holds_prefix k (appendedItems s')" for k using other obj(1) by (cases "k = obj") auto
  have cached: "cached_ok s' k" for k
    using other [of k] obj slice_okD(5) [OF ok, of k] same(1)
    by (cases "k = obj") (auto simp: cached_ok_def split: if_splits option.splits)
  have fill: "fillOriginalItems s' k = fillOriginalItems s k" for k
    using same by (simp add: fillOriginalItems_def)
  have "slice_ok s'"
    using ok same items pre cached by (auto simp: slice_ok_def)
  then show ?thesis using other obj(2) fill same by (auto simp: sees_def mv_view_def mv_fresh_def)
qed

lemma updateAppendedItem_sees:
  assumes ok: "slice_ok s" and i: "length (sharedItems s) \<le> i" "i < length (mv_view s obj)"
  shows "\<exists>s'. updateAppendedItem obj i val s = Inr s' \<and> sees s obj ((mv_view s obj)[i := val]) s'"
proof -
  let ?k = "i - length (sharedItems s)" and ?items = "appendedItems s"
  let ?item = "?items ! ?k" and ?new = "item_add obj val (item_remove obj (?items ! ?k))"
  have k: "?k < length (appended_vals obj ?items)" using i by (simp add: mv_view_def)
  then have kl: "?k < length ?items" using appended_vals_le [of obj ?items] by linarith
  have iok: "item_ok ?item" using slice_okD(3) [OF ok] kl by simp
  note rem = item_remove_laws [OF iok, where obj = obj]
  have none: "item_find obj (item_remove obj ?item) = None" using rem(2) [of obj] by (simp add: item_val_def)
  note new = item_add_laws [OF rem(1) none, where val = val]
  have found: "item_find obj ?item \<noteq> None"
    using appended_nth [OF slice_okD(4) [OF ok] kl] k by (simp flip: item_val_None)
  define s' where "s' = s\<lparr>appendedItems := ?items[?k := ?new]\<rparr>"
  have upd: "updateAppendedItem obj i val s = Inr s'"
    using found by (simp add: updateAppendedItem_def Let_def s'_def)
  have objv: "holds_prefix obj (?items[?k := ?new]) \<and>
      appended_vals obj (?items[?k := ?new]) = (appended_vals obj ?items)[?k := val]"
    using new(2) [of obj] by (intro appended_update slice_okD(4) [OF ok] k) simp
  have "sees s obj (fillOriginalItems s obj @ (appended_vals obj ?items)[?k := val]) s'"
  proof (rule sees_appendedI [OF ok])
    show "\<forall>item \<in> set (appendedItems s'). item_ok item"
      using new(1) slice_okD(3) [OF ok] by (auto simp: s'_def dest!: set_update_subset_insert [THEN subsetD])
  next
    fix k assume "k \<noteq> obj"
    then have "map (item_val k) (?items[?k := ?new]) = map (item_val k) ?items"
      using new(2) rem(2) by (intro map_item_val_update) simp
    from appended_cong [OF this] show "holds_prefix k (appendedItems s') \<and>
        appended_vals k (appendedItems s') = appended_vals k (appendedItems s) \<and> cachedLengths s' k = cachedLengths s k"
      using slice_okD(4) [OF ok] by (simp add: s'_def)
  qed (use objv slice_okD(5) [OF ok, of obj] k in \<open>auto simp: s'_def cached_ok_def split: option.splits\<close>)
  then show ?thesis using upd i by (auto simp: mv_view_def list_update_append)
qed

lemma slice_UpdateAt_view:
  assumes ok: "slice_ok s"
  shows "case mv_UpdateAt (mv_view s obj) i val of
      Inl e \<Rightarrow> slice_UpdateAt obj i val s = Inl e
    | Inr xs \<Rightarrow> \<exists>s'. slice_UpdateAt obj i val s = Inr s' \<and> sees s obj xs s'"
proof (cases "unat i < length (sharedItems s)")
  case True
  then show ?thesis using updateOriginalItem_sees [OF ok True]
    by (simp add: mv_UpdateAt_def slice_UpdateAt_def Let_def mv_view_def)
next
  case False
  show ?thesis
  proof (cases "unat i < length (mv_view s obj)")
    case True
    then have "unat i < length (sharedItems s) + length (appendedItems s)"
      using appended_vals_le [of obj "appendedItems s"] by (simp add: mv_view_def)
    then show ?thesis using updateAppendedItem_sees [OF ok _ True] False True
      by (simp add: mv_UpdateAt_def slice_UpdateAt_def Let_def)
  next
    case out: False
    have "item_find obj (appendedItems s ! (unat i - length (sharedItems s))) = None"
      if "unat i < length (sharedItems s) + length (appendedItems s)"
      using appended_nth [OF slice_okD(4) [OF ok], of "unat i - length (sharedItems s)" obj] out that False
      by (simp add: mv_view_def flip: item_val_None)
    then show ?thesis using out False
      by (auto simp: mv_UpdateAt_def slice_UpdateAt_def updateAppendedItem_def Let_def)
  qed
qed

lemma fresh_item:
  "item_ok [\<lparr>mv_val = val, mv_ids = [obj]\<rparr>]"
  "item_val k [\<lparr>mv_val = val, mv_ids = [obj]\<rparr>] = (if k = obj then Some val else None)"
  by (simp_all add: item_ok_def item_val_map_of)

lemma mv_Append_view:
  assumes ok: "slice_ok s"
  shows "sees s obj (mv_view s obj @ [val]) (mv_Append obj val s)"
proof -
  let ?s' = "mv_Append obj val s" and ?items = "appendedItems s" and ?fresh = "[\<lparr>mv_val = val, mv_ids = [obj]\<rparr>]"
  have len: "cachedLengths s obj = Some l \<Longrightarrow> l = length (sharedItems s) + length (appended_vals obj ?items)"
    "cachedLengths s obj = None \<Longrightarrow> appended_vals obj ?items = []" for l
    using slice_okD(5) [OF ok, of obj] by (simp_all add: cached_ok_def)
  have "sees s obj (fillOriginalItems s obj @ (appended_vals obj ?items @ [val])) ?s'"
  proof (cases "append_first obj val ?items")
    case None
    have full: "list_all (\<lambda>x. item_val obj x \<noteq> None) ?items" by (rule append_first_None [OF None])
    have holder: "item_val obj ?fresh = Some val" by (simp add: fresh_item)
    have items: "appendedItems ?s' = ?items @ [?fresh]"
      using None by (cases "?items = []") (simp_all add: mv_Append_def Let_def)
    have cached: "cachedLengths ?s' obj = Some (length (sharedItems s) + length (appended_vals obj ?items @ [val]))"
    proof (cases "?items = []")
      case False
      then have "cachedLengths s obj \<noteq> None"
        using len(2) full by (cases ?items; cases "cachedLengths s obj") auto
      then show ?thesis using False None len(1) by (auto simp: mv_Append_def Let_def)
    qed (simp add: mv_Append_def Let_def)
    show ?thesis
    proof (rule sees_appendedI [OF ok])
      show "holds_prefix obj (appendedItems ?s')"
        "appended_vals obj (appendedItems ?s') = appended_vals obj ?items @ [val]"
        using appended_snoc_full [OF holder full] items by auto
    next
      fix k assume k: "k \<noteq> obj"
      have "cachedLengths ?s' k = cachedLengths s k"
        using k None by (simp add: mv_Append_def Let_def)
      then show "holds_prefix k (appendedItems ?s') \<and> appended_vals k (appendedItems ?s')
          = appended_vals k (appendedItems s) \<and> cachedLengths ?s' k = cachedLengths s k"
        using appended_snoc_none [of k ?fresh ?items] k items slice_okD(4) [OF ok] by (simp add: fresh_item(2))
    qed (use cached items slice_okD(3) [OF ok] fresh_item(1) None in \<open>auto simp: mv_Append_def Let_def\<close>)
  next
    case (Some items')
    then have ne: "?items \<noteq> []" by auto
    have "list_all item_ok ?items" using slice_okD(3) [OF ok] by (simp add: list_all_iff)
    note af = append_first_Some [OF Some slice_okD(4) [OF ok] this]
    have s': "?s' = s\<lparr>appendedItems := items', cachedLengths := (cachedLengths s)(obj \<mapsto>
            (case cachedLengths s obj of Some l \<Rightarrow> l + 1 | None \<Rightarrow> length (sharedItems s) + 1))\<rparr>"
      using ne Some by (simp add: mv_Append_def Let_def)
    have cached: "cachedLengths ?s' obj = Some (length (sharedItems s) + length (appended_vals obj ?items @ [val]))"
      using len by (auto simp: s' split: option.splits)
    show ?thesis
    proof (rule sees_appendedI [OF ok])
      fix k assume k: "k \<noteq> obj"
      have "map (item_val k) items' = map (item_val k) ?items" using af k by auto
      from appended_cong [OF this] k show "holds_prefix k (appendedItems ?s') \<and> appended_vals k (appendedItems ?s')
          = appended_vals k (appendedItems s) \<and> cachedLengths ?s' k = cachedLengths s k"
        using slice_okD(4) [OF ok] by (simp add: s')
    qed (use af cached in \<open>auto simp: s' list_all_iff\<close>)
  qed
  then show ?thesis by (simp add: mv_view_def)
qed

lemma fresh_appended:
  assumes "slice_ok s" "mv_fresh s obj"
  shows "list_all (\<lambda>x. item_val obj x = None) (appendedItems s)"
  using assms slice_okD(4,5) [OF assms(1), of obj]
  by (intro holds_prefix_none) (auto simp: mv_fresh_def cached_ok_def)

lemma mv_Copy_view:
  assumes ok: "slice_ok s" and fresh: "mv_fresh s dst" and ne: "src \<noteq> dst"
  shows "sees s dst (mv_view s src) (mv_Copy src dst s)"
proof -
  let ?s' = "mv_Copy src dst s" and ?items = "appendedItems s"
  have none: "list_all (\<lambda>x. item_val dst x = None) ?items" by (rule fresh_appended [OF ok fresh])
  have ind: "item_ok item \<and> item_find dst item = None" if "individualItems s i = Some item" for i item
    using that slice_okD(2) [OF ok] fresh by (auto simp: mv_fresh_def item_val_None)
  have app: "item_ok item \<and> item_find dst item = None" if "item \<in> set ?items" for item
    using that slice_okD(3) [OF ok] none by (auto simp: list_all_iff item_val_None)
  have orig: "orig_val ?s' k i = (if k = dst then orig_val s src i else orig_val s k i)" for k i
  proof (cases "individualItems s i")
    case (Some a)
    then have "item_val k (item_copy src dst a) = (if k = dst then item_val src a else item_val k a)" for k
      using ind [OF Some] by (intro item_copy_laws(2)) auto
    then show ?thesis using Some by (simp add: orig_val_def mv_Copy_def split: option.splits)
  qed (simp add: orig_val_def mv_Copy_def)
  have items: "\<forall>item \<in> set (appendedItems ?s'). item_ok item"
    using appended_while_ok [of ?items "item_copy src dst" src] app item_copy_laws(1)
    by (fastforce simp: mv_Copy_def list_all_iff)
  have dst: "holds_prefix dst (appendedItems ?s') \<and> appended_vals dst (appendedItems ?s') = appended_vals src ?items"
  proof -
    have "item_val dst (item_copy src dst item) = item_val src item" if "item \<in> set ?items" for item
      using app [OF that] item_copy_laws(2) [of item dst dst src] by simp
    from appended_while_copy [OF slice_okD(4) [OF ok] none this] show ?thesis by (simp add: mv_Copy_def)
  qed
  have others: "holds_prefix k (appendedItems ?s') \<and> appended_vals k (appendedItems ?s') = appended_vals k ?items"
    if "k \<noteq> dst" for k
  proof -
    have "map (item_val k) (appended_while src (item_copy src dst) ?items) = map (item_val k) ?items"
      using that app by (intro appended_while_map) (simp add: item_copy_laws(2))
    from appended_cong [OF this] show ?thesis using slice_okD(4) [OF ok] by (simp add: mv_Copy_def)
  qed
  have cached: "cached_ok ?s' k" for k
    using dst others [of k] slice_okD(5) [OF ok, of k] slice_okD(5) [OF ok, of src] fresh
    by (cases "k = dst") (auto simp: cached_ok_def mv_Copy_def mv_fresh_def split: option.splits)
  have "slice_ok ?s'"
    unfolding slice_ok_def
  proof (intro conjI allI impI)
    fix i item assume "individualItems ?s' i = Some item"
    then obtain it where "individualItems s i = Some it" "item = item_copy src dst it"
      by (auto simp: mv_Copy_def)
    then show "i < length (sharedItems ?s')" "item_ok item"
      using ind [of i] slice_okD(1) [OF ok] item_copy_laws(1) by (auto simp: mv_Copy_def)
  next
    fix obj show "holds_prefix obj (appendedItems ?s')" using dst others by (cases "obj = dst") auto
  qed (use items cached in auto)
  moreover have "mv_view ?s' k = (if k = dst then mv_view s src else mv_view s k)" for k
    using dst others [of k] orig by (auto simp: mv_view_def fillOriginalItems_eq mv_Copy_def)
  moreover have "mv_fresh ?s' k" if "k \<noteq> dst" "mv_fresh s k" for k
  proof -
    have "item_val k item = None" if i: "individualItems ?s' i = Some item" for i item
    proof -
      obtain it where it: "individualItems s i = Some it" "item = item_copy src dst it"
        using i by (auto simp: mv_Copy_def)
      then show ?thesis using ind [OF it(1)] \<open>k \<noteq> dst\<close> \<open>mv_fresh s k\<close>
        by (simp add: item_copy_laws(2) mv_fresh_def)
    qed
    then show ?thesis using that by (simp add: mv_fresh_def mv_Copy_def split: option.splits)
  qed
  moreover have "sharedItems ?s' = sharedItems s" by (simp add: mv_Copy_def)
  ultimately show ?thesis by (simp add: sees_def)
qed

lemma detach_individual_laws:
  assumes "item_ok item"
  shows "detach_individual obj item = Some item' \<Longrightarrow> item_ok item'"
    "Option.bind (detach_individual obj item) (item_val k) = (if k = obj then None else item_val k item)"
proof -
  note rem = item_remove_laws [OF assms, where obj = obj]
  show "detach_individual obj item = Some item' \<Longrightarrow> item_ok item'"
    using rem(1) assms by (auto simp: detach_individual_def split: option.splits if_splits)
  show "Option.bind (detach_individual obj item) (item_val k) = (if k = obj then None else item_val k item)"
  proof (cases "item_find obj item")
    case None
    then show ?thesis by (simp add: detach_individual_def item_val_def)
  next
    case (Some vi)
    note vi = item_find_Some [OF Some]
    show ?thesis
    proof (cases "length (mv_ids (item ! vi)) = 1 \<and> length item = 1")
      case True
      then have "vi = 0" using vi by simp
      with True vi obtain v where "item = [v]" "mv_ids v = [obj]"
        by (cases item; cases "mv_ids (item ! vi)") auto
      then show ?thesis using True Some by (auto simp: detach_individual_def item_val_map_of)
    next
      case False
      then show ?thesis using Some rem(2) by (auto simp: detach_individual_def)
    qed
  qed
qed

lemma mv_Detach_view:
  assumes ok: "slice_ok s"
  shows "sees s obj (sharedItems s) (mv_Detach obj s) \<and> mv_fresh (mv_Detach obj s) obj"
proof -
  let ?s' = "mv_Detach obj s" and ?items = "appendedItems s"
  have ind: "item_ok item" if "individualItems s i = Some item" for i item
    using that slice_okD(2) [OF ok] by blast
  have val: "Option.bind (individualItems ?s' i) (item_val k)
      = (if k = obj then None else Option.bind (individualItems s i) (item_val k))" for i k
  proof (cases "individualItems s i")
    case (Some a)
    then show ?thesis using detach_individual_laws(2) [OF ind [OF Some], of obj k] by (simp add: mv_Detach_def)
  qed (simp add: mv_Detach_def)
  have orig_bind: "orig_val t k i = (case Option.bind (individualItems t i) (item_val k) of
      None \<Rightarrow> sharedItems t ! i | Some v \<Rightarrow> v)" for t k i
    by (simp add: orig_val_def split: option.splits)
  have shared: "sharedItems ?s' = sharedItems s" by (simp add: mv_Detach_def)
  have orig: "orig_val ?s' k i = (if k = obj then sharedItems s ! i else orig_val s k i)" for k i
    unfolding orig_bind val shared by simp
  have objnone: "list_all (\<lambda>x. item_val obj x = None) (appendedItems ?s')"
  proof -
    have "list_all (\<lambda>x. item_val obj x = None) (appended_while obj (item_remove obj) ?items)"
      by (rule appended_while_remove [OF slice_okD(4) [OF ok]])
        (simp add: item_remove_laws(2) [OF slice_okD(3) [OF ok]])
    then show ?thesis by (simp add: mv_Detach_def)
  qed
  have others: "holds_prefix k (appendedItems ?s') \<and> appended_vals k (appendedItems ?s') = appended_vals k ?items"
    if "k \<noteq> obj" for k
  proof -
    have "map (item_val k) (appended_while obj (item_remove obj) ?items) = map (item_val k) ?items"
      using that by (intro appended_while_map) (simp add: item_remove_laws(2) [OF slice_okD(3) [OF ok]])
    from appended_cong [OF this] show ?thesis using slice_okD(4) [OF ok] by (simp add: mv_Detach_def)
  qed
  have "cached_ok ?s' k" for k
  proof (cases "k = obj")
    case True
    then show ?thesis using appended_vals_none [OF objnone] by (simp add: cached_ok_def mv_Detach_def)
  next
    case False
    then show ?thesis using others [OF False] slice_okD(5) [OF ok, of k]
      by (auto simp: cached_ok_def mv_Detach_def split: option.splits)
  qed
  moreover have "\<forall>item \<in> set (appendedItems ?s'). item_ok item"
    using appended_while_ok [of ?items "item_remove obj" obj] slice_okD(3) [OF ok] item_remove_laws(1)
    by (fastforce simp: mv_Detach_def list_all_iff)
  moreover have "holds_prefix k (appendedItems ?s')" for k
    using objnone others holds_prefix_all_none by (cases "k = obj") auto
  moreover have "i < length (sharedItems s) \<and> item_ok item" if it: "individualItems ?s' i = Some item" for i item
  proof -
    obtain y where y: "individualItems s i = Some y" "detach_individual obj y = Some item"
      using it by (auto simp: mv_Detach_def bind_eq_Some_conv)
    show ?thesis using slice_okD(1) [OF ok y(1)] detach_individual_laws(1) [OF ind [OF y(1)] y(2)] by blast
  qed
  ultimately have "slice_ok ?s'" using shared by (auto simp: slice_ok_def)
  moreover have "mv_view ?s' obj = sharedItems s"
  proof -
    have "orig_val ?s' obj = (!) (sharedItems s)" using orig by auto
    then show ?thesis
      using appended_vals_none [OF objnone] shared by (simp add: mv_view_def fillOriginalItems_eq map_nth)
  qed
  moreover have "mv_view ?s' k = mv_view s k" if "k \<noteq> obj" for k
  proof -
    have "orig_val ?s' k = orig_val s k" using orig that by auto
    then show ?thesis using others [OF that] shared by (simp add: mv_view_def fillOriginalItems_eq)
  qed
  moreover have "mv_fresh ?s' obj"
  proof -
    have "item_val obj item = None" if "individualItems ?s' i = Some item" for i item
      using val [of i obj] that by simp
    then show ?thesis by (simp add: mv_fresh_def mv_Detach_def)
  qed
  moreover have "mv_fresh ?s' k" if "k \<noteq> obj" "mv_fresh s k" for k
  proof -
    have "item_val k item = None" if "individualItems ?s' i = Some item" for i item
      using val [of i k] that \<open>k \<noteq> obj\<close> \<open>mv_fresh s k\<close>
      by (cases "individualItems s i") (auto simp: mv_fresh_def)
    then show ?thesis using that by (simp add: mv_fresh_def mv_Detach_def)
  qed
  ultimately show ?thesis using shared by (simp add: sees_def)
qed

lemma reset_vals_eq: "holds_prefix obj items \<Longrightarrow> reset_vals obj items = appended_vals obj items"
proof (induction items)
  case (Cons item items)
  show ?case
  proof (cases "item = []")
    case True
    have "list_all (\<lambda>x. item_val obj x = None) its \<Longrightarrow> reset_vals obj its = []" for its :: "'a mv_item list"
      by (induction its) auto
    then show ?thesis using True Cons.prems by (auto simp: item_val_def split: if_splits)
  next
    case False
    then show ?thesis using Cons by (auto split: option.splits if_splits)
  qed
qed simp

lemma mv_Reset_view:
  assumes "slice_ok s"
  shows "mv_Reset zero obj s = Inr (mv_Init (mv_view s obj))"
  using reset_vals_eq [OF slice_okD(4) [OF assms]] mv_Len_view [OF assms, of obj]
  by (simp add: mv_Reset_def mv_view_def Let_def)

section \<open>The contract and its client\<close>

text \<open>What the users of the slice rely on: objects that own separate lists. Objects not in use see the
  base list; the destination of a copy must not be in use.\<close>

datatype 'v mv_cmd =
  UpdateAtCmd u64 u64 'v
| AppendCmd u64 'v
| CopyCmd u64 u64
| DetachCmd u64

record 'v object_lists =
  ol_base :: "'v list"
  ol_lists :: "u64 \<Rightarrow> 'v list"
  ol_used :: "u64 set"

fun lists_allowed :: "'v mv_cmd \<Rightarrow> 'v object_lists \<Rightarrow> bool" where
  "lists_allowed (CopyCmd src dst) a = (dst \<notin> ol_used a \<and> src \<noteq> dst)"
| "lists_allowed cmd a = True"

fun lists_exec :: "'v mv_cmd \<Rightarrow> 'v object_lists \<Rightarrow> 'v object_lists result" where
  "lists_exec (UpdateAtCmd obj i v) a = bindR (mv_UpdateAt (ol_lists a obj) i v) (\<lambda>xs.
     Inr (a\<lparr>ol_lists := (ol_lists a)(obj := xs), ol_used := insert obj (ol_used a)\<rparr>))"
| "lists_exec (AppendCmd obj v) a =
     Inr (a\<lparr>ol_lists := (ol_lists a)(obj := ol_lists a obj @ [v]), ol_used := insert obj (ol_used a)\<rparr>)"
| "lists_exec (CopyCmd src dst) a =
     Inr (a\<lparr>ol_lists := (ol_lists a)(dst := ol_lists a src), ol_used := insert dst (ol_used a)\<rparr>)"
| "lists_exec (DetachCmd obj) a =
     Inr (a\<lparr>ol_lists := (ol_lists a)(obj := ol_base a), ol_used := ol_used a - {obj}\<rparr>)"

locale object_store =
  fixes invar :: "'s \<Rightarrow> bool"
    and base :: "'s \<Rightarrow> 'v list"
    and view :: "'s \<Rightarrow> u64 \<Rightarrow> 'v list"
    and fresh :: "'s \<Rightarrow> u64 \<Rightarrow> bool"
    and updateAt :: "u64 \<Rightarrow> u64 \<Rightarrow> 'v \<Rightarrow> 's \<Rightarrow> 's result"
    and append_to :: "u64 \<Rightarrow> 'v \<Rightarrow> 's \<Rightarrow> 's"
    and copy_to :: "u64 \<Rightarrow> u64 \<Rightarrow> 's \<Rightarrow> 's"
    and detach :: "u64 \<Rightarrow> 's \<Rightarrow> 's"
    and upd :: "'s \<Rightarrow> u64 \<Rightarrow> 'v list \<Rightarrow> 's \<Rightarrow> bool"
  assumes upd_law: "upd s obj xs s' \<Longrightarrow> invar s' \<and> base s' = base s \<and> view s' obj = xs \<and>
      (\<forall>k. k \<noteq> obj \<longrightarrow> view s' k = view s k \<and> (fresh s k \<longrightarrow> fresh s' k))"
    and update_law: "invar s \<Longrightarrow> (case mv_UpdateAt (view s obj) i v of
        Inl e \<Rightarrow> updateAt obj i v s = Inl e
      | Inr xs \<Rightarrow> \<exists>s'. updateAt obj i v s = Inr s' \<and> upd s obj xs s')"
    and append_law: "invar s \<Longrightarrow> upd s obj (view s obj @ [v]) (append_to obj v s)"
    and copy_law: "invar s \<Longrightarrow> fresh s dst \<Longrightarrow> src \<noteq> dst \<Longrightarrow> upd s dst (view s src) (copy_to src dst s)"
    and detach_law: "invar s \<Longrightarrow> upd s obj (base s) (detach obj s) \<and> fresh (detach obj s) obj"
begin

fun exec :: "'v mv_cmd \<Rightarrow> 's \<Rightarrow> 's result" where
  "exec (UpdateAtCmd obj i v) s = updateAt obj i v s"
| "exec (AppendCmd obj v) s = Inr (append_to obj v s)"
| "exec (CopyCmd src dst) s = Inr (copy_to src dst s)"
| "exec (DetachCmd obj) s = Inr (detach obj s)"

definition rel :: "'v object_lists \<Rightarrow> 's \<Rightarrow> bool" where
  "rel a s \<longleftrightarrow> invar s \<and> ol_base a = base s \<and> ol_lists a = view s \<and> (\<forall>k. k \<notin> ol_used a \<longrightarrow> fresh s k)"

lemma upd_rel:
  assumes "rel a s" "upd s obj xs s'" "\<forall>k. k \<notin> U \<longrightarrow> k \<notin> ol_used a \<or> k = obj \<and> fresh s' obj" "obj \<notin> U \<longrightarrow> fresh s' obj"
  shows "rel (a\<lparr>ol_lists := (ol_lists a)(obj := xs), ol_used := U\<rparr>) s'"
  using assms upd_law [OF assms(2)] by (auto simp: rel_def fun_eq_iff)

lemma exec_refines:
  assumes r: "rel a s" and ok: "lists_allowed cmd a"
  shows "case lists_exec cmd a of Inl e \<Rightarrow> exec cmd s = Inl e | Inr a' \<Rightarrow> \<exists>s'. exec cmd s = Inr s' \<and> rel a' s'"
proof (cases cmd)
  case (UpdateAtCmd obj i v)
  have "case mv_UpdateAt (ol_lists a obj) i v of Inl e \<Rightarrow> updateAt obj i v s = Inl e
      | Inr xs \<Rightarrow> \<exists>s'. updateAt obj i v s = Inr s' \<and> upd s obj xs s'"
    using r update_law by (simp add: rel_def)
  then show ?thesis
    using UpdateAtCmd upd_rel [OF r, of obj _ _ "insert obj (ol_used a)"]
    by (cases "mv_UpdateAt (ol_lists a obj) i v") auto
next
  case (AppendCmd obj v)
  have "upd s obj (ol_lists a obj @ [v]) (append_to obj v s)" using r append_law by (simp add: rel_def)
  from upd_rel [OF r this, of "insert obj (ol_used a)"] AppendCmd show ?thesis by auto
next
  case (CopyCmd src dst)
  have "upd s dst (ol_lists a src) (copy_to src dst s)"
    using r ok CopyCmd copy_law by (simp add: rel_def)
  from upd_rel [OF r this, of "insert dst (ol_used a)"] CopyCmd show ?thesis by auto
next
  case (DetachCmd obj)
  have "upd s obj (ol_base a) (detach obj s)" "fresh (detach obj s) obj"
    using r detach_law by (simp_all add: rel_def)
  from upd_rel [OF r this(1), of "ol_used a - {obj}"] this(2) DetachCmd show ?thesis by auto
qed

end

interpretation mv: object_store slice_ok sharedItems mv_view mv_fresh slice_UpdateAt mv_Append mv_Copy
    mv_Detach sees
proof (unfold_locales, goal_cases)
  case 1
  then show ?case by (simp add: sees_def)
next
  case 2
  then show ?case by (rule slice_UpdateAt_view)
next
  case 3
  then show ?case by (rule mv_Append_view)
next
  case 4
  then show ?case by (rule mv_Copy_view)
next
  case 5
  then show ?case by (rule mv_Detach_view)
qed

section \<open>Sequences of operations\<close>

fun slice_exec :: "'v mv_cmd \<Rightarrow> 'v mv_slice \<Rightarrow> 'v mv_slice result" where
  "slice_exec (UpdateAtCmd obj i v) s = slice_UpdateAt obj i v s"
| "slice_exec (AppendCmd obj v) s = Inr (mv_Append obj v s)"
| "slice_exec (CopyCmd src dst) s = Inr (mv_Copy src dst s)"
| "slice_exec (DetachCmd obj) s = Inr (mv_Detach obj s)"

definition init_lists :: "'v list \<Rightarrow> 'v object_lists" where
  "init_lists items = \<lparr>ol_base = items, ol_lists = (\<lambda>obj. items), ol_used = {}\<rparr>"

fun cmds_allowed :: "'v mv_cmd list \<Rightarrow> 'v object_lists \<Rightarrow> bool" where
  "cmds_allowed [] a = True"
| "cmds_allowed (cmd # cmds) a = (lists_allowed cmd a \<and>
     (case lists_exec cmd a of Inl e \<Rightarrow> True | Inr a' \<Rightarrow> cmds_allowed cmds a'))"

lemma slice_exec_mv: "slice_exec cmd = mv.exec cmd"
  by (cases cmd) (simp_all add: fun_eq_iff)

lemma slice_run_refines:
  assumes "mv.rel a s" "cmds_allowed cmds a"
  shows "case foldR lists_exec cmds a of Inl e \<Rightarrow> foldR slice_exec cmds s = Inl e
    | Inr a' \<Rightarrow> \<exists>s'. foldR slice_exec cmds s = Inr s' \<and> mv.rel a' s'"
  using assms
proof (induction cmds arbitrary: a s)
  case (Cons cmd cmds)
  have step: "case lists_exec cmd a of Inl e \<Rightarrow> slice_exec cmd s = Inl e
      | Inr a' \<Rightarrow> \<exists>s'. slice_exec cmd s = Inr s' \<and> mv.rel a' s'"
    unfolding slice_exec_mv using Cons.prems(2) by (intro mv.exec_refines [OF Cons.prems(1)]) simp
  show ?case
  proof (cases "lists_exec cmd a")
    case (Inr a1)
    with step obtain s1 where "slice_exec cmd s = Inr s1" "mv.rel a1 s1" by auto
    with Inr Cons.IH [of a1 s1] Cons.prems(2) show ?thesis by (simp split: sum.splits)
  qed (use step in auto)
qed simp

text \<open>C6: any sequence of updates, appends, copies to unused objects and detachments on a multi-value slice
  fails exactly when the same sequence on separate lists, one per object, fails. Otherwise every
  object reads, through each of Value, Len, At and Reset, exactly its own list: no operation on
  one object is visible to another.\<close>

theorem slice_refines_separate_lists:
  assumes "cmds_allowed cmds (init_lists items)"
  shows "case foldR lists_exec cmds (init_lists items) of
      Inl e \<Rightarrow> foldR slice_exec cmds (mv_Init items) = Inl e
    | Inr a \<Rightarrow> \<exists>s. foldR slice_exec cmds (mv_Init items) = Inr s \<and>
        (\<forall>obj i zero. mv_Value zero s obj = Inr (ol_lists a obj) \<and> mv_Len s obj = length (ol_lists a obj) \<and>
           slice_At s obj i = mv_At (ol_lists a obj) i \<and>
           mv_Reset zero obj s = Inr (mv_Init (ol_lists a obj)))"
proof -
  have "mv.rel (init_lists items) (mv_Init items)"
    unfolding mv.rel_def by (simp add: init_lists_def mv_Init_laws fun_eq_iff) (simp add: mv_Init_def)
  from slice_run_refines [OF this assms] show ?thesis
    by (cases "foldR lists_exec cmds (init_lists items)")
      (auto simp: mv.rel_def mv_Value_view mv_Len_view slice_At_view mv_Reset_view)
qed

theorem slice_refines_separate_lists_witness:
  "\<exists>s. foldR slice_exec [CopyCmd 1 2, UpdateAtCmd 2 0 (20 :: int), CopyCmd 2 3, AppendCmd 3 7,
          UpdateAtCmd 3 0 30, DetachCmd 2] (mv_Init [10]) = Inr s \<and>
       slice_At s 1 0 = Inr 10 \<and> slice_At s 2 0 = Inr 10 \<and> slice_At s 3 0 = Inr 30 \<and> slice_At s 3 1 = Inr 7"
  using slice_refines_separate_lists [of "[CopyCmd 1 2, UpdateAtCmd 2 0 20, CopyCmd 2 3, AppendCmd 3 7,
    UpdateAtCmd 3 0 30, DetachCmd 2]" "[10 :: int]"]
  by (auto simp: init_lists_def mv_UpdateAt_def mv_At_def)

end
