(* ===== verification/Beacon_State.thy ===== *)
theory Beacon_State
  imports Slottime Multi_Value_Slice
begin

text \<open>
  The beacon state of \<^verbatim>\<open>src/beacon-chain/state/state-native\<close>: the fields the modelled transition
  reads and writes, and the getters and setters on them. A multi-value slice is the list that the
  state sees through its identifier, which theory \<^verbatim>\<open>Multi_Value_Slice\<close> shows to be what the slice
  implements; an access out of its bounds returns the error of the source. Locks, reference
  counts and the bookkeeping of dirty Merkle branches have no effect on the values and are not part
  of the model. Every list and checkpoint of the state is non-nil.
\<close>

section \<open>Containers\<close>

type_synonym root = "u8 list"

record Validator =
  PublicKey :: "u8 list"
  WithdrawalCredentials :: "u8 list"
  EffectiveBalance :: Gwei
  Slashed :: bool
  ActivationEligibilityEpoch :: Epoch
  ActivationEpoch :: Epoch
  ExitEpoch :: Epoch
  WithdrawableEpoch :: Epoch

record Checkpoint =
  cp_Epoch :: Epoch
  cp_Root :: root

record PendingDeposit =
  pd_PublicKey :: "u8 list"
  pd_WithdrawalCredentials :: "u8 list"
  pd_Amount :: Gwei
  pd_Signature :: "u8 list"
  pd_Slot :: Slot

record PendingPartialWithdrawal =
  ppw_Index :: ValidatorIndex
  ppw_Amount :: Gwei
  ppw_WithdrawableEpoch :: Epoch

record PendingConsolidation =
  pc_SourceIndex :: ValidatorIndex
  pc_TargetIndex :: ValidatorIndex

record Withdrawal =
  wd_Index :: u64
  wd_ValidatorIndex :: ValidatorIndex
  wd_Address :: "u8 list"
  wd_Amount :: Gwei

record Eth1Data =
  e1_DepositRoot :: root
  e1_DepositCount :: u64
  e1_BlockHash :: root

record HistoricalSummary =
  hs_BlockSummaryRoot :: root
  hs_StateSummaryRoot :: root

record AttestationData =
  ad_Slot :: Slot
  ad_CommitteeIndex :: u64
  ad_BeaconBlockRoot :: root
  ad_Source :: Checkpoint
  ad_Target :: Checkpoint

record PendingAttestation =
  pa_AggregationBits :: "u8 list"
  pa_Data :: AttestationData
  pa_InclusionDelay :: Slot
  pa_ProposerIndex :: ValidatorIndex

record Fork =
  fk_PreviousVersion :: "u8 list"
  fk_CurrentVersion :: "u8 list"
  fk_Epoch :: Epoch

record BeaconBlockHeader =
  bh_Slot :: Slot
  bh_ProposerIndex :: ValidatorIndex
  bh_ParentRoot :: root
  bh_StateRoot :: root
  bh_BodyRoot :: root

record SyncCommittee =
  sc_Pubkeys :: "u8 list list"
  sc_AggregatePubkey :: "u8 list"

record BeaconState =
  bs_version :: int
  bs_genesisTime :: u64
  bs_slot :: Slot
  bs_fork :: Fork
  bs_latestBlockHeader :: BeaconBlockHeader
  bs_blockRoots :: "root list"
  bs_stateRoots :: "root list"
  bs_historicalRoots :: "root list"
  bs_historicalSummaries :: "HistoricalSummary list"
  bs_eth1Data :: Eth1Data
  bs_eth1DataVotes :: "Eth1Data list"
  bs_eth1DepositIndex :: u64
  bs_validators :: "Validator list"
  bs_balances :: "Gwei list"
  bs_randaoMixes :: "root list"
  bs_slashings :: "Gwei list"
  bs_previousEpochAttestations :: "PendingAttestation list"
  bs_currentEpochAttestations :: "PendingAttestation list"
  bs_previousEpochParticipation :: "u8 list"
  bs_currentEpochParticipation :: "u8 list"
  bs_justificationBits :: "u8 list"
  bs_previousJustifiedCheckpoint :: Checkpoint
  bs_currentJustifiedCheckpoint :: Checkpoint
  bs_finalizedCheckpoint :: Checkpoint
  bs_inactivityScores :: "u64 list"
  bs_currentSyncCommittee :: SyncCommittee
  bs_nextSyncCommittee :: SyncCommittee
  bs_nextWithdrawalIndex :: u64
  bs_nextWithdrawalValidatorIndex :: ValidatorIndex
  bs_depositRequestsStartIndex :: u64
  bs_depositBalanceToConsume :: Gwei
  bs_exitBalanceToConsume :: Gwei
  bs_earliestExitEpoch :: Epoch
  bs_consolidationBalanceToConsume :: Gwei
  bs_earliestConsolidationEpoch :: Epoch
  bs_pendingDeposits :: "PendingDeposit list"
  bs_pendingPartialWithdrawals :: "PendingPartialWithdrawal list"
  bs_pendingConsolidations :: "PendingConsolidation list"
  bs_proposerLookahead :: "ValidatorIndex list"

section \<open>Versions\<close>

definition errNotSupported :: "string \<Rightarrow> int \<Rightarrow> error" where
  "errNotSupported funcName ver = Err (funcName @ '' is not supported for '' @ version_String ver)"

definition since :: "int \<Rightarrow> string \<Rightarrow> BeaconState \<Rightarrow> 'a result \<Rightarrow> 'a result" where
  "since v funcName b m = (if bs_version b < v then Inl (errNotSupported funcName (bs_version b)) else m)"

section \<open>Validators and balances\<close>

definition NumValidators :: "BeaconState \<Rightarrow> nat" where
  "NumValidators b = length (bs_validators b)"

definition ValidatorAtIndex :: "BeaconState \<Rightarrow> ValidatorIndex \<Rightarrow> Validator result" where
  "ValidatorAtIndex b i = mv_At (bs_validators b) i"

definition ValidatorAtIndexReadOnly :: "BeaconState \<Rightarrow> ValidatorIndex \<Rightarrow> Validator result" where
  "ValidatorAtIndexReadOnly b i = mv_At (bs_validators b) i"

definition SetValidators :: "Validator list \<Rightarrow> BeaconState \<Rightarrow> BeaconState result" where
  "SetValidators val b = Inr (b\<lparr>bs_validators := val\<rparr>)"

definition UpdateValidatorAtIndex ::
    "ValidatorIndex \<Rightarrow> Validator \<Rightarrow> BeaconState \<Rightarrow> BeaconState result" where
  "UpdateValidatorAtIndex i val b =
     bindR (wrapR ''could not update validator'' (mv_UpdateAt (bs_validators b) i val)) (\<lambda>vs.
     Inr (b\<lparr>bs_validators := vs\<rparr>))"

definition AppendValidator :: "Validator \<Rightarrow> BeaconState \<Rightarrow> BeaconState result" where
  "AppendValidator val b = Inr (b\<lparr>bs_validators := bs_validators b @ [val]\<rparr>)"

text \<open>\<^verbatim>\<open>ReadFromEveryValidator\<close>: the callback's captured variables are the accumulator.\<close>

definition ReadFromEveryValidator ::
    "BeaconState \<Rightarrow> (nat \<Rightarrow> Validator \<Rightarrow> 'a \<Rightarrow> 'a result) \<Rightarrow> 'a \<Rightarrow> 'a result" where
  "ReadFromEveryValidator b f a = foldR (\<lambda>(i, v). f i v) (enumerate 0 (bs_validators b)) a"

text \<open>\<^verbatim>\<open>ApplyToEveryValidator\<close>: the callback returns \<open>None\<close> to leave a validator unchanged. The
  validator it is given at position \<open>i\<close> is the stored one, since earlier steps only replace
  earlier positions.\<close>

definition ApplyToEveryValidator ::
    "(nat \<Rightarrow> Validator \<Rightarrow> Validator option result) \<Rightarrow> BeaconState \<Rightarrow> BeaconState result" where
  "ApplyToEveryValidator f b =
     bindR (mapR (\<lambda>(i, v). bindR (f i v) (\<lambda>nv. Inr (case nv of None \<Rightarrow> v | Some w \<Rightarrow> w)))
              (enumerate 0 (bs_validators b))) (\<lambda>vs.
     Inr (b\<lparr>bs_validators := vs\<rparr>))"

definition BalanceAtIndex :: "BeaconState \<Rightarrow> ValidatorIndex \<Rightarrow> Gwei result" where
  "BalanceAtIndex b i = mv_At (bs_balances b) i"

definition BalancesLength :: "BeaconState \<Rightarrow> nat" where
  "BalancesLength b = length (bs_balances b)"

definition SetBalances :: "Gwei list \<Rightarrow> BeaconState \<Rightarrow> BeaconState result" where
  "SetBalances val b = Inr (b\<lparr>bs_balances := val\<rparr>)"

definition UpdateBalancesAtIndex :: "ValidatorIndex \<Rightarrow> Gwei \<Rightarrow> BeaconState \<Rightarrow> BeaconState result" where
  "UpdateBalancesAtIndex i val b =
     bindR (wrapR ''could not update balances'' (mv_UpdateAt (bs_balances b) i val)) (\<lambda>bs.
     Inr (b\<lparr>bs_balances := bs\<rparr>))"

definition AppendBalance :: "Gwei \<Rightarrow> BeaconState \<Rightarrow> BeaconState result" where
  "AppendBalance bal b = Inr (b\<lparr>bs_balances := bs_balances b @ [bal]\<rparr>)"

definition SetSlashings :: "Gwei list \<Rightarrow> BeaconState \<Rightarrow> BeaconState result" where
  "SetSlashings val b = Inr (b\<lparr>bs_slashings := val\<rparr>)"

definition UpdateSlashingsAtIndex :: "u64 \<Rightarrow> Gwei \<Rightarrow> BeaconState \<Rightarrow> BeaconState result" where
  "UpdateSlashingsAtIndex i val b =
     (if length (bs_slashings b) \<le> unat i then Inl (Err ''invalid index provided'')
      else Inr (b\<lparr>bs_slashings := (bs_slashings b)[unat i := val]\<rparr>))"

definition InactivityScores :: "BeaconState \<Rightarrow> u64 list result" where
  "InactivityScores b =
     (if bs_version b = Phase0 then Inl (errNotSupported ''InactivityScores'' (bs_version b))
      else Inr (bs_inactivityScores b))"

definition SetInactivityScores :: "u64 list \<Rightarrow> BeaconState \<Rightarrow> BeaconState result" where
  "SetInactivityScores val b =
     (if bs_version b = Phase0 then Inl (errNotSupported ''SetInactivityScores'' (bs_version b))
      else Inr (b\<lparr>bs_inactivityScores := val\<rparr>))"

definition AppendInactivityScore :: "u64 \<Rightarrow> BeaconState \<Rightarrow> BeaconState result" where
  "AppendInactivityScore s b =
     (if bs_version b = Phase0 then Inl (errNotSupported ''AppendInactivityScore'' (bs_version b))
      else Inr (b\<lparr>bs_inactivityScores := bs_inactivityScores b @ [s]\<rparr>))"

section \<open>Roots, randao, participation, checkpoints\<close>

definition BlockRootAtIndex :: "BeaconState \<Rightarrow> u64 \<Rightarrow> root result" where
  "BlockRootAtIndex b i = mv_At (bs_blockRoots b) i"

definition UpdateBlockRootAtIndex :: "u64 \<Rightarrow> root \<Rightarrow> BeaconState \<Rightarrow> BeaconState result" where
  "UpdateBlockRootAtIndex i r b =
     bindR (wrapR ''could not update block roots'' (mv_UpdateAt (bs_blockRoots b) i r)) (\<lambda>rs.
     Inr (b\<lparr>bs_blockRoots := rs\<rparr>))"

definition StateRootAtIndex :: "BeaconState \<Rightarrow> u64 \<Rightarrow> root result" where
  "StateRootAtIndex b i = mv_At (bs_stateRoots b) i"

definition UpdateStateRootAtIndex :: "u64 \<Rightarrow> root \<Rightarrow> BeaconState \<Rightarrow> BeaconState result" where
  "UpdateStateRootAtIndex i r b =
     bindR (wrapR ''could not update state roots'' (mv_UpdateAt (bs_stateRoots b) i r)) (\<lambda>rs.
     Inr (b\<lparr>bs_stateRoots := rs\<rparr>))"

definition RandaoMixAtIndex :: "BeaconState \<Rightarrow> u64 \<Rightarrow> root result" where
  "RandaoMixAtIndex b i = mv_At (bs_randaoMixes b) i"

definition RandaoMixesLength :: "BeaconState \<Rightarrow> nat" where
  "RandaoMixesLength b = length (bs_randaoMixes b)"

definition UpdateRandaoMixesAtIndex :: "u64 \<Rightarrow> root \<Rightarrow> BeaconState \<Rightarrow> BeaconState result" where
  "UpdateRandaoMixesAtIndex i v b =
     bindR (wrapR ''could not update randao mixes'' (mv_UpdateAt (bs_randaoMixes b) i v)) (\<lambda>rs.
     Inr (b\<lparr>bs_randaoMixes := rs\<rparr>))"

definition SetEth1DataVotes :: "Eth1Data list \<Rightarrow> BeaconState \<Rightarrow> BeaconState result" where
  "SetEth1DataVotes val b = Inr (b\<lparr>bs_eth1DataVotes := val\<rparr>)"

definition AppendHistoricalRoots :: "root \<Rightarrow> BeaconState \<Rightarrow> BeaconState result" where
  "AppendHistoricalRoots r b =
     (if bs_version b > Bellatrix then Inl (errNotSupported ''AppendHistoricalRoots'' (bs_version b))
      else Inr (b\<lparr>bs_historicalRoots := bs_historicalRoots b @ [r]\<rparr>))"

definition AppendHistoricalSummaries :: "HistoricalSummary \<Rightarrow> BeaconState \<Rightarrow> BeaconState result" where
  "AppendHistoricalSummaries s b = since Capella ''AppendHistoricalSummaries'' b
     (Inr (b\<lparr>bs_historicalSummaries := bs_historicalSummaries b @ [s]\<rparr>))"

definition CurrentEpochParticipation :: "BeaconState \<Rightarrow> u8 list result" where
  "CurrentEpochParticipation b =
     (if bs_version b = Phase0 then Inl (errNotSupported ''CurrentEpochParticipation'' (bs_version b))
      else Inr (bs_currentEpochParticipation b))"

definition PreviousEpochParticipation :: "BeaconState \<Rightarrow> u8 list result" where
  "PreviousEpochParticipation b =
     (if bs_version b = Phase0 then Inl (errNotSupported ''PreviousEpochParticipation'' (bs_version b))
      else Inr (bs_previousEpochParticipation b))"

definition SetCurrentParticipationBits :: "u8 list \<Rightarrow> BeaconState \<Rightarrow> BeaconState result" where
  "SetCurrentParticipationBits val b =
     (if bs_version b = Phase0 then Inl (errNotSupported ''SetCurrentParticipationBits'' (bs_version b))
      else Inr (b\<lparr>bs_currentEpochParticipation := val\<rparr>))"

definition SetPreviousParticipationBits :: "u8 list \<Rightarrow> BeaconState \<Rightarrow> BeaconState result" where
  "SetPreviousParticipationBits val b =
     (if bs_version b = Phase0 then Inl (errNotSupported ''SetPreviousParticipationBits'' (bs_version b))
      else Inr (b\<lparr>bs_previousEpochParticipation := val\<rparr>))"

definition AppendCurrentParticipationBits :: "u8 \<Rightarrow> BeaconState \<Rightarrow> BeaconState result" where
  "AppendCurrentParticipationBits v b =
     (if bs_version b = Phase0 then Inl (errNotSupported ''AppendCurrentParticipationBits'' (bs_version b))
      else Inr (b\<lparr>bs_currentEpochParticipation := bs_currentEpochParticipation b @ [v]\<rparr>))"

definition AppendPreviousParticipationBits :: "u8 \<Rightarrow> BeaconState \<Rightarrow> BeaconState result" where
  "AppendPreviousParticipationBits v b =
     (if bs_version b = Phase0 then Inl (errNotSupported ''AppendPreviousParticipationBits'' (bs_version b))
      else Inr (b\<lparr>bs_previousEpochParticipation := bs_previousEpochParticipation b @ [v]\<rparr>))"

definition MatchCurrentJustifiedCheckpoint :: "BeaconState \<Rightarrow> Checkpoint \<Rightarrow> bool" where
  "MatchCurrentJustifiedCheckpoint b c \<longleftrightarrow>
     (if cp_Epoch c \<noteq> cp_Epoch (bs_currentJustifiedCheckpoint b) then False
      else cp_Root c = cp_Root (bs_currentJustifiedCheckpoint b))"

definition MatchPreviousJustifiedCheckpoint :: "BeaconState \<Rightarrow> Checkpoint \<Rightarrow> bool" where
  "MatchPreviousJustifiedCheckpoint b c \<longleftrightarrow>
     (if cp_Epoch c \<noteq> cp_Epoch (bs_previousJustifiedCheckpoint b) then False
      else cp_Root c = cp_Root (bs_previousJustifiedCheckpoint b))"

definition FinalizedCheckpointEpoch :: "BeaconState \<Rightarrow> Epoch" where
  "FinalizedCheckpointEpoch b = cp_Epoch (bs_finalizedCheckpoint b)"

definition SetJustificationBits :: "u8 list \<Rightarrow> BeaconState \<Rightarrow> BeaconState result" where
  "SetJustificationBits val b = Inr (b\<lparr>bs_justificationBits := val\<rparr>)"

definition SetPreviousJustifiedCheckpoint :: "Checkpoint \<Rightarrow> BeaconState \<Rightarrow> BeaconState result" where
  "SetPreviousJustifiedCheckpoint val b = Inr (b\<lparr>bs_previousJustifiedCheckpoint := val\<rparr>)"

definition SetCurrentJustifiedCheckpoint :: "Checkpoint \<Rightarrow> BeaconState \<Rightarrow> BeaconState result" where
  "SetCurrentJustifiedCheckpoint val b = Inr (b\<lparr>bs_currentJustifiedCheckpoint := val\<rparr>)"

definition SetFinalizedCheckpoint :: "Checkpoint \<Rightarrow> BeaconState \<Rightarrow> BeaconState result" where
  "SetFinalizedCheckpoint val b = Inr (b\<lparr>bs_finalizedCheckpoint := val\<rparr>)"

definition SetSlot :: "Slot \<Rightarrow> BeaconState \<Rightarrow> BeaconState result" where
  "SetSlot val b = Inr (b\<lparr>bs_slot := val\<rparr>)"

section \<open>Withdrawals, deposits, consolidations\<close>

definition NextWithdrawalIndex :: "BeaconState \<Rightarrow> u64 result" where
  "NextWithdrawalIndex b = since Capella ''NextWithdrawalIndex'' b (Inr (bs_nextWithdrawalIndex b))"

definition NextWithdrawalValidatorIndex :: "BeaconState \<Rightarrow> ValidatorIndex result" where
  "NextWithdrawalValidatorIndex b =
     since Capella ''NextWithdrawalValidatorIndex'' b (Inr (bs_nextWithdrawalValidatorIndex b))"

definition SetNextWithdrawalIndex :: "u64 \<Rightarrow> BeaconState \<Rightarrow> BeaconState result" where
  "SetNextWithdrawalIndex i b =
     since Capella ''SetNextWithdrawalIndex'' b (Inr (b\<lparr>bs_nextWithdrawalIndex := i\<rparr>))"

definition SetNextWithdrawalValidatorIndex :: "ValidatorIndex \<Rightarrow> BeaconState \<Rightarrow> BeaconState result" where
  "SetNextWithdrawalValidatorIndex i b =
     since Capella ''SetNextWithdrawalValidatorIndex'' b (Inr (b\<lparr>bs_nextWithdrawalValidatorIndex := i\<rparr>))"

definition PendingPartialWithdrawals :: "BeaconState \<Rightarrow> PendingPartialWithdrawal list result" where
  "PendingPartialWithdrawals b =
     since Electra ''PendingPartialWithdrawals'' b (Inr (bs_pendingPartialWithdrawals b))"

definition NumPendingPartialWithdrawals :: "BeaconState \<Rightarrow> u64 result" where
  "NumPendingPartialWithdrawals b = since Electra ''NumPendingPartialWithdrawals'' b
     (Inr (of_nat (length (bs_pendingPartialWithdrawals b))))"

definition AppendPendingPartialWithdrawal ::
    "PendingPartialWithdrawal \<Rightarrow> BeaconState \<Rightarrow> BeaconState result" where
  "AppendPendingPartialWithdrawal w b = since Electra ''AppendPendingPartialWithdrawal'' b
     (Inr (b\<lparr>bs_pendingPartialWithdrawals := bs_pendingPartialWithdrawals b @ [w]\<rparr>))"

definition DequeuePendingPartialWithdrawals :: "u64 \<Rightarrow> BeaconState \<Rightarrow> BeaconState result" where
  "DequeuePendingPartialWithdrawals n b = since Electra ''DequeuePendingPartialWithdrawals'' b
     (if unat n > length (bs_pendingPartialWithdrawals b)
      then Inl (Err ''cannot dequeue more withdrawals than are in the queue'')
      else if n = 0 then Inr b
      else Inr (b\<lparr>bs_pendingPartialWithdrawals := drop (unat n) (bs_pendingPartialWithdrawals b)\<rparr>))"

text \<open>The sums wrap as the loops over \<^verbatim>\<open>uint64\<close> do.\<close>

definition PendingBalanceToWithdraw :: "BeaconState \<Rightarrow> ValidatorIndex \<Rightarrow> Gwei result" where
  "PendingBalanceToWithdraw b i = since Electra ''PendingBalanceToWithdraw'' b
     (Inr (fold (\<lambda>w acc. if ppw_Index w = i then acc + ppw_Amount w else acc)
             (bs_pendingPartialWithdrawals b) 0))"

definition HasPendingBalanceToWithdraw :: "BeaconState \<Rightarrow> ValidatorIndex \<Rightarrow> bool result" where
  "HasPendingBalanceToWithdraw b i = since Electra ''HasPendingBalanceToWithdraw'' b
     (Inr (list_ex (\<lambda>w. ppw_Index w = i \<and> ppw_Amount w > 0) (bs_pendingPartialWithdrawals b)))"

definition PendingConsolidations :: "BeaconState \<Rightarrow> PendingConsolidation list result" where
  "PendingConsolidations b = since Electra ''PendingConsolidations'' b (Inr (bs_pendingConsolidations b))"

definition NumPendingConsolidations :: "BeaconState \<Rightarrow> u64 result" where
  "NumPendingConsolidations b = since Electra ''NumPendingConsolidations'' b
     (Inr (of_nat (length (bs_pendingConsolidations b))))"

definition AppendPendingConsolidation :: "PendingConsolidation \<Rightarrow> BeaconState \<Rightarrow> BeaconState result" where
  "AppendPendingConsolidation v b = since Electra ''AppendPendingConsolidation'' b
     (Inr (b\<lparr>bs_pendingConsolidations := bs_pendingConsolidations b @ [v]\<rparr>))"

definition SetPendingConsolidations :: "PendingConsolidation list \<Rightarrow> BeaconState \<Rightarrow> BeaconState result" where
  "SetPendingConsolidations v b = since Electra ''SetPendingConsolidations'' b
     (Inr (b\<lparr>bs_pendingConsolidations := v\<rparr>))"

definition EarliestConsolidationEpoch :: "BeaconState \<Rightarrow> Epoch result" where
  "EarliestConsolidationEpoch b = since Electra ''EarliestConsolidationEpoch'' b
     (Inr (bs_earliestConsolidationEpoch b))"

definition ConsolidationBalanceToConsume :: "BeaconState \<Rightarrow> Gwei result" where
  "ConsolidationBalanceToConsume b = since Electra ''ConsolidationBalanceToConsume'' b
     (Inr (bs_consolidationBalanceToConsume b))"

definition SetEarliestConsolidationEpoch :: "Epoch \<Rightarrow> BeaconState \<Rightarrow> BeaconState result" where
  "SetEarliestConsolidationEpoch e b = since Electra ''SetEarliestConsolidationEpoch'' b
     (Inr (b\<lparr>bs_earliestConsolidationEpoch := e\<rparr>))"

definition SetConsolidationBalanceToConsume :: "Gwei \<Rightarrow> BeaconState \<Rightarrow> BeaconState result" where
  "SetConsolidationBalanceToConsume v b = since Electra ''SetConsolidationBalanceToConsume'' b
     (Inr (b\<lparr>bs_consolidationBalanceToConsume := v\<rparr>))"

definition PendingDeposits :: "BeaconState \<Rightarrow> PendingDeposit list result" where
  "PendingDeposits b = since Electra ''PendingDeposits'' b (Inr (bs_pendingDeposits b))"

definition AppendPendingDeposit :: "PendingDeposit \<Rightarrow> BeaconState \<Rightarrow> BeaconState result" where
  "AppendPendingDeposit pd b = since Electra ''AppendPendingDeposit'' b
     (Inr (b\<lparr>bs_pendingDeposits := bs_pendingDeposits b @ [pd]\<rparr>))"

definition SetPendingDeposits :: "PendingDeposit list \<Rightarrow> BeaconState \<Rightarrow> BeaconState result" where
  "SetPendingDeposits v b = since Electra ''SetPendingDeposits'' b (Inr (b\<lparr>bs_pendingDeposits := v\<rparr>))"

definition DepositBalanceToConsume :: "BeaconState \<Rightarrow> Gwei result" where
  "DepositBalanceToConsume b = since Electra ''DepositBalanceToConsume'' b
     (Inr (bs_depositBalanceToConsume b))"

definition SetDepositBalanceToConsume :: "Gwei \<Rightarrow> BeaconState \<Rightarrow> BeaconState result" where
  "SetDepositBalanceToConsume v b = since Electra ''SetDepositBalanceToConsume'' b
     (Inr (b\<lparr>bs_depositBalanceToConsume := v\<rparr>))"

definition ExitBalanceToConsume :: "BeaconState \<Rightarrow> Gwei result" where
  "ExitBalanceToConsume b = since Electra ''ExitBalanceToConsume'' b (Inr (bs_exitBalanceToConsume b))"

definition EarliestExitEpoch :: "BeaconState \<Rightarrow> Epoch result" where
  "EarliestExitEpoch b = since Electra ''EarliestExitEpoch'' b (Inr (bs_earliestExitEpoch b))"

definition SetExitBalanceToConsume :: "Gwei \<Rightarrow> BeaconState \<Rightarrow> BeaconState result" where
  "SetExitBalanceToConsume v b = since Electra ''SetExitBalanceToConsume'' b
     (Inr (b\<lparr>bs_exitBalanceToConsume := v\<rparr>))"

definition SetEarliestExitEpoch :: "Epoch \<Rightarrow> BeaconState \<Rightarrow> BeaconState result" where
  "SetEarliestExitEpoch e b = since Electra ''SetEarliestExitEpoch'' b
     (Inr (b\<lparr>bs_earliestExitEpoch := e\<rparr>))"

definition DepositRequestsStartIndex :: "BeaconState \<Rightarrow> u64 result" where
  "DepositRequestsStartIndex b = since Electra ''DepositRequestsStartIndex'' b
     (Inr (bs_depositRequestsStartIndex b))"

definition SetDepositRequestsStartIndex :: "u64 \<Rightarrow> BeaconState \<Rightarrow> BeaconState result" where
  "SetDepositRequestsStartIndex i b = since Electra ''SetDepositRequestsStartIndex'' b
     (Inr (b\<lparr>bs_depositRequestsStartIndex := i\<rparr>))"

section \<open>Pending attestations, sync committees, eth1 data, header, fork\<close>

definition phase0_only :: "string \<Rightarrow> BeaconState \<Rightarrow> 'a result \<Rightarrow> 'a result" where
  "phase0_only funcName b m =
     (if bs_version b \<noteq> Phase0 then Inl (errNotSupported funcName (bs_version b)) else m)"

definition RotateAttestations :: "BeaconState \<Rightarrow> BeaconState result" where
  "RotateAttestations b = phase0_only ''RotateAttestations'' b
     (Inr (b\<lparr>bs_previousEpochAttestations := bs_currentEpochAttestations b, bs_currentEpochAttestations := []\<rparr>))"

definition AppendCurrentEpochAttestations ::
    "BeaconChainConfig \<Rightarrow> PendingAttestation \<Rightarrow> BeaconState \<Rightarrow> BeaconState result" where
  "AppendCurrentEpochAttestations c val b = phase0_only ''AppendCurrentEpochAttestations'' b
     (bindR (CurrentEpochAttestationsLength c) (\<lambda>mx.
      if of_nat (length (bs_currentEpochAttestations b)) \<ge> mx
      then Inl (Err ''current pending attestation exceeds max length'')
      else Inr (b\<lparr>bs_currentEpochAttestations := bs_currentEpochAttestations b @ [val]\<rparr>)))"

definition AppendPreviousEpochAttestations ::
    "BeaconChainConfig \<Rightarrow> PendingAttestation \<Rightarrow> BeaconState \<Rightarrow> BeaconState result" where
  "AppendPreviousEpochAttestations c val b = phase0_only ''AppendPreviousEpochAttestations'' b
     (bindR (PreviousEpochAttestationsLength c) (\<lambda>mx.
      if of_nat (length (bs_previousEpochAttestations b)) \<ge> mx
      then Inl (Err ''previous pending attestation exceeds max length'')
      else Inr (b\<lparr>bs_previousEpochAttestations := bs_previousEpochAttestations b @ [val]\<rparr>)))"

definition SetPreviousEpochAttestations :: "PendingAttestation list \<Rightarrow> BeaconState \<Rightarrow> BeaconState result" where
  "SetPreviousEpochAttestations a b = phase0_only ''SetPreviousEpochAttestations'' b
     (Inr (b\<lparr>bs_previousEpochAttestations := a\<rparr>))"

definition SetCurrentEpochAttestations :: "PendingAttestation list \<Rightarrow> BeaconState \<Rightarrow> BeaconState result" where
  "SetCurrentEpochAttestations a b = phase0_only ''SetCurrentEpochAttestations'' b
     (Inr (b\<lparr>bs_currentEpochAttestations := a\<rparr>))"

definition CurrentSyncCommittee :: "BeaconState \<Rightarrow> SyncCommittee result" where
  "CurrentSyncCommittee b =
     (if bs_version b = Phase0 then Inl (errNotSupported ''CurrentSyncCommittee'' (bs_version b))
      else Inr (bs_currentSyncCommittee b))"

definition state_NextSyncCommittee :: "BeaconState \<Rightarrow> SyncCommittee result" where
  "state_NextSyncCommittee b =
     (if bs_version b = Phase0 then Inl (errNotSupported ''NextSyncCommittee'' (bs_version b))
      else Inr (bs_nextSyncCommittee b))"

definition SetCurrentSyncCommittee :: "SyncCommittee \<Rightarrow> BeaconState \<Rightarrow> BeaconState result" where
  "SetCurrentSyncCommittee val b =
     (if bs_version b = Phase0 then Inl (errNotSupported ''SetCurrentSyncCommittee'' (bs_version b))
      else Inr (b\<lparr>bs_currentSyncCommittee := val\<rparr>))"

definition SetNextSyncCommittee :: "SyncCommittee \<Rightarrow> BeaconState \<Rightarrow> BeaconState result" where
  "SetNextSyncCommittee val b =
     (if bs_version b = Phase0 then Inl (errNotSupported ''SetNextSyncCommittee'' (bs_version b))
      else Inr (b\<lparr>bs_nextSyncCommittee := val\<rparr>))"

definition SetEth1Data :: "Eth1Data \<Rightarrow> BeaconState \<Rightarrow> BeaconState result" where
  "SetEth1Data val b = Inr (b\<lparr>bs_eth1Data := val\<rparr>)"

definition SetEth1DepositIndex :: "u64 \<Rightarrow> BeaconState \<Rightarrow> BeaconState result" where
  "SetEth1DepositIndex val b = Inr (b\<lparr>bs_eth1DepositIndex := val\<rparr>)"

definition AppendEth1DataVotes :: "Eth1Data \<Rightarrow> BeaconState \<Rightarrow> BeaconState result" where
  "AppendEth1DataVotes val b = Inr (b\<lparr>bs_eth1DataVotes := bs_eth1DataVotes b @ [val]\<rparr>)"

definition SetLatestBlockHeader :: "BeaconBlockHeader \<Rightarrow> BeaconState \<Rightarrow> BeaconState result" where
  "SetLatestBlockHeader val b = Inr (b\<lparr>bs_latestBlockHeader := val\<rparr>)"

definition SetFork :: "Fork \<Rightarrow> BeaconState \<Rightarrow> BeaconState result" where
  "SetFork val b = Inr (b\<lparr>bs_fork := val\<rparr>)"

definition ProposerLookahead :: "BeaconState \<Rightarrow> ValidatorIndex list result" where
  "ProposerLookahead b = since Fulu ''ProposerLookahead'' b (Inr (bs_proposerLookahead b))"

definition SetProposerLookahead ::
    "BeaconChainConfig \<Rightarrow> ValidatorIndex list \<Rightarrow> BeaconState \<Rightarrow> BeaconState result" where
  "SetProposerLookahead c lookahead b = since Fulu ''SetProposerLookahead'' b
     (if int (length lookahead)
         \<noteq> to_i64 (i64_of_u64 (MinSeedLookahead c + 1) * i64_of_u64 (SlotsPerEpoch c))
      then Inl (Err ''invalid size for proposer lookahead'')
      else Inr (b\<lparr>bs_proposerLookahead := lookahead\<rparr>))"

section \<open>Read-only validators\<close>

text \<open>An empty credential slice panics when its first byte is read.\<close>

definition HasETH1WithdrawalCredentials :: "BeaconChainConfig \<Rightarrow> Validator \<Rightarrow> bool result" where
  "HasETH1WithdrawalCredentials c v = bindR (idx (WithdrawalCredentials v) 0) (\<lambda>b.
     Inr (b = ETH1AddressWithdrawalPrefixByte c))"

definition HasCompoundingWithdrawalCredentials :: "BeaconChainConfig \<Rightarrow> Validator \<Rightarrow> bool result" where
  "HasCompoundingWithdrawalCredentials c v = bindR (idx (WithdrawalCredentials v) 0) (\<lambda>b.
     Inr (b = CompoundingWithdrawalPrefixByte c))"

definition HasExecutionWithdrawalCredentials :: "BeaconChainConfig \<Rightarrow> Validator \<Rightarrow> bool result" where
  "HasExecutionWithdrawalCredentials c v = bindR (HasETH1WithdrawalCredentials c v) (\<lambda>e.
     if e then Inr True else HasCompoundingWithdrawalCredentials c v)"

section \<open>Laws of the accessors\<close>

lemma mv_At_Inr [simp]: "mv_At xs i = Inr x \<longleftrightarrow> unat i < length xs \<and> x = xs ! unat i"
  by (auto simp: mv_At_def)

lemma mv_At_ok [simp]: "unat i < length xs \<Longrightarrow> mv_At xs i = Inr (xs ! unat i)"
  by simp

lemma mv_UpdateAt_Inr [simp]:
  "mv_UpdateAt xs i v = Inr ys \<longleftrightarrow> unat i < length xs \<and> ys = xs[unat i := v]"
  by (auto simp: mv_UpdateAt_def)

lemma mv_UpdateAt_ok [simp]: "unat i < length xs \<Longrightarrow> mv_UpdateAt xs i v = Inr (xs[unat i := v])"
  by simp

lemma since_ok [simp]: "v \<le> bs_version b \<Longrightarrow> since v f b m = m"
  by (simp add: since_def)

lemma since_Inr: "since v f b m = Inr x \<longleftrightarrow> v \<le> bs_version b \<and> m = Inr x"
  by (auto simp: since_def)

lemma UpdateValidatorAtIndex_ok [simp]:
  "unat i < length (bs_validators b) \<Longrightarrow>
     UpdateValidatorAtIndex i v b = Inr (b\<lparr>bs_validators := (bs_validators b)[unat i := v]\<rparr>)"
  by (simp add: UpdateValidatorAtIndex_def)

lemma UpdateBalancesAtIndex_ok [simp]:
  "unat i < length (bs_balances b) \<Longrightarrow>
     UpdateBalancesAtIndex i v b = Inr (b\<lparr>bs_balances := (bs_balances b)[unat i := v]\<rparr>)"
  by (simp add: UpdateBalancesAtIndex_def)

lemma ReadFromEveryValidator_pure:
  "ReadFromEveryValidator b (\<lambda>i v a. Inr (f i v a)) a
     = Inr (fold (\<lambda>(i, v). f i v) (enumerate 0 (bs_validators b)) a)"
  unfolding ReadFromEveryValidator_def by (rule foldR_total) auto

lemma mapR_pure: "mapR (\<lambda>x. Inr (f x)) xs = Inr (map f xs)"
  by (induction xs) simp_all

lemma ApplyToEveryValidator_pure:
  "ApplyToEveryValidator (\<lambda>i v. Inr (f i v)) b
     = Inr (b\<lparr>bs_validators := map (\<lambda>(i, v). case f i v of None \<Rightarrow> v | Some w \<Rightarrow> w)
                                  (enumerate 0 (bs_validators b))\<rparr>)"
  by (simp add: ApplyToEveryValidator_def mapR_pure case_prod_unfold)

lemma HasETH1WithdrawalCredentials_ok [simp]:
  "WithdrawalCredentials v \<noteq> [] \<Longrightarrow> HasETH1WithdrawalCredentials c v
     = Inr (hd (WithdrawalCredentials v) = ETH1AddressWithdrawalPrefixByte c)"
  by (simp add: HasETH1WithdrawalCredentials_def hd_conv_nth)

lemma HasCompoundingWithdrawalCredentials_ok [simp]:
  "WithdrawalCredentials v \<noteq> [] \<Longrightarrow> HasCompoundingWithdrawalCredentials c v
     = Inr (hd (WithdrawalCredentials v) = CompoundingWithdrawalPrefixByte c)"
  by (simp add: HasCompoundingWithdrawalCredentials_def hd_conv_nth)

end
