(* ===== verification/Helpers.thy ===== *)
theory Helpers
  imports Beacon_State
begin

text \<open>
  The helpers of \<^verbatim>\<open>src/beacon-chain/core/helpers\<close> and \<^verbatim>\<open>src/beacon-chain/core/time\<close> that the epoch
  transition is built from: epochs of a state, activity and eligibility of validators, churn limits,
  balances, and recent block roots. \<^verbatim>\<open>TotalActiveBalance\<close> has the two operations of the balance cache
  as arguments; the callers use the value it computes on a miss, which is also what a coherent
  cache returns. \<^verbatim>\<open>ActiveValidatorCount\<close> is modelled on the path that misses the committee cache.
\<close>

section \<open>Epochs of a state\<close>

definition CurrentEpoch :: "BeaconChainConfig \<Rightarrow> BeaconState \<Rightarrow> Epoch result" where
  "CurrentEpoch c s = ToEpoch c (bs_slot s)"

definition PrevEpoch :: "BeaconChainConfig \<Rightarrow> BeaconState \<Rightarrow> Epoch result" where
  "PrevEpoch c s = bindR (CurrentEpoch c s) (\<lambda>e. Inr (if e = 0 then 0 else e - 1))"

definition NextEpoch :: "BeaconChainConfig \<Rightarrow> BeaconState \<Rightarrow> Epoch result" where
  "NextEpoch c s = bindR (ToEpoch c (bs_slot s)) (\<lambda>e. Inr (e + 1))"

definition HigherEqualThanAltairVersionAndEpoch :: "BeaconChainConfig \<Rightarrow> BeaconState \<Rightarrow> Epoch \<Rightarrow> bool" where
  "HigherEqualThanAltairVersionAndEpoch c s e \<longleftrightarrow> bs_version s \<ge> Altair \<and> e \<ge> AltairForkEpoch c"

definition CanUpgradeToAltair :: "BeaconChainConfig \<Rightarrow> Slot \<Rightarrow> bool result" where
  "CanUpgradeToAltair c slot = bindR (IsEpochStart c slot) (\<lambda>epochStart.
     bindR (ToEpoch c slot) (\<lambda>e. Inr (epochStart \<and> e = AltairForkEpoch c)))"

definition CanUpgradeToBellatrix :: "BeaconChainConfig \<Rightarrow> Slot \<Rightarrow> bool result" where
  "CanUpgradeToBellatrix c slot = bindR (IsEpochStart c slot) (\<lambda>epochStart.
     bindR (ToEpoch c slot) (\<lambda>e. Inr (epochStart \<and> e = BellatrixForkEpoch c)))"

definition CanUpgradeToCapella :: "BeaconChainConfig \<Rightarrow> Slot \<Rightarrow> bool result" where
  "CanUpgradeToCapella c slot = bindR (IsEpochStart c slot) (\<lambda>epochStart.
     bindR (ToEpoch c slot) (\<lambda>e. Inr (epochStart \<and> e = CapellaForkEpoch c)))"

definition CanUpgradeToDeneb :: "BeaconChainConfig \<Rightarrow> Slot \<Rightarrow> bool result" where
  "CanUpgradeToDeneb c slot = bindR (IsEpochStart c slot) (\<lambda>epochStart.
     bindR (ToEpoch c slot) (\<lambda>e. Inr (epochStart \<and> e = DenebForkEpoch c)))"

definition CanUpgradeToElectra :: "BeaconChainConfig \<Rightarrow> Slot \<Rightarrow> bool result" where
  "CanUpgradeToElectra c slot = bindR (IsEpochStart c slot) (\<lambda>epochStart.
     bindR (ToEpoch c slot) (\<lambda>e. Inr (epochStart \<and> e = ElectraForkEpoch c)))"

definition CanUpgradeToFulu :: "BeaconChainConfig \<Rightarrow> Slot \<Rightarrow> bool result" where
  "CanUpgradeToFulu c slot = bindR (IsEpochStart c slot) (\<lambda>epochStart.
     bindR (ToEpoch c slot) (\<lambda>e. Inr (epochStart \<and> e = FuluForkEpoch c)))"

definition CanProcessEpoch :: "BeaconChainConfig \<Rightarrow> BeaconState \<Rightarrow> bool result" where
  "CanProcessEpoch c s = bindR (umod (bs_slot s + 1) (SlotsPerEpoch c)) (\<lambda>r. Inr (r = 0))"

section \<open>Status of validators\<close>

definition checkValidatorActiveStatus :: "Epoch \<Rightarrow> Epoch \<Rightarrow> Epoch \<Rightarrow> bool" where
  "checkValidatorActiveStatus activationEpoch exitEpoch epoch \<longleftrightarrow>
     activationEpoch \<le> epoch \<and> epoch < exitEpoch"

definition IsActiveValidator :: "Validator \<Rightarrow> Epoch \<Rightarrow> bool" where
  "IsActiveValidator v epoch = checkValidatorActiveStatus (ActivationEpoch v) (ExitEpoch v) epoch"

definition IsActiveValidatorUsingTrie :: "Validator \<Rightarrow> Epoch \<Rightarrow> bool" where
  "IsActiveValidatorUsingTrie v epoch = checkValidatorActiveStatus (ActivationEpoch v) (ExitEpoch v) epoch"

definition IsActiveNonSlashedValidatorUsingTrie :: "Validator \<Rightarrow> Epoch \<Rightarrow> bool" where
  "IsActiveNonSlashedValidatorUsingTrie v epoch \<longleftrightarrow>
     checkValidatorActiveStatus (ActivationEpoch v) (ExitEpoch v) epoch \<and> \<not> Slashed v"

definition checkValidatorSlashable :: "Epoch \<Rightarrow> Epoch \<Rightarrow> bool \<Rightarrow> Epoch \<Rightarrow> bool" where
  "checkValidatorSlashable activationEpoch withdrawableEpoch slashed epoch \<longleftrightarrow>
     epoch < withdrawableEpoch \<and> activationEpoch \<le> epoch \<and> \<not> slashed"

definition IsSlashableValidator :: "Epoch \<Rightarrow> Epoch \<Rightarrow> bool \<Rightarrow> Epoch \<Rightarrow> bool" where
  "IsSlashableValidator activationEpoch withdrawableEpoch slashed epoch =
     checkValidatorSlashable activationEpoch withdrawableEpoch slashed epoch"

definition IsSlashableValidatorUsingTrie :: "Validator \<Rightarrow> Epoch \<Rightarrow> bool" where
  "IsSlashableValidatorUsingTrie v epoch =
     checkValidatorSlashable (ActivationEpoch v) (WithdrawableEpoch v) (Slashed v) epoch"

definition ActiveValidatorCount :: "BeaconState \<Rightarrow> Epoch \<Rightarrow> u64 result" where
  "ActiveValidatorCount s epoch = ReadFromEveryValidator s
     (\<lambda>i v count. Inr (if IsActiveValidatorUsingTrie v epoch then count + 1 else count)) 0"

definition ActivationExitEpoch :: "BeaconChainConfig \<Rightarrow> Epoch \<Rightarrow> Epoch" where
  "ActivationExitEpoch c epoch = epoch + 1 + MaxSeedLookahead c"

definition calculateChurnLimit :: "BeaconChainConfig \<Rightarrow> u64 \<Rightarrow> u64 result" where
  "calculateChurnLimit c activeValidatorCount =
     bindR (udiv activeValidatorCount (ChurnLimitQuotient c)) (\<lambda>churnLimit.
     Inr (if churnLimit < MinPerEpochChurnLimit c then MinPerEpochChurnLimit c else churnLimit))"

definition ValidatorActivationChurnLimit :: "BeaconChainConfig \<Rightarrow> u64 \<Rightarrow> u64 result" where
  "ValidatorActivationChurnLimit c n = calculateChurnLimit c n"

definition ValidatorExitChurnLimit :: "BeaconChainConfig \<Rightarrow> u64 \<Rightarrow> u64 result" where
  "ValidatorExitChurnLimit c n = calculateChurnLimit c n"

definition ValidatorActivationChurnLimitDeneb :: "BeaconChainConfig \<Rightarrow> u64 \<Rightarrow> u64 result" where
  "ValidatorActivationChurnLimitDeneb c n = bindR (calculateChurnLimit c n) (\<lambda>limit.
     Inr (if limit > MaxPerEpochActivationChurnLimit c then MaxPerEpochActivationChurnLimit c
          else limit))"

definition isEligibleForActivationQueue :: "BeaconChainConfig \<Rightarrow> Epoch \<Rightarrow> Gwei \<Rightarrow> bool" where
  "isEligibleForActivationQueue c activationEligibilityEpoch effectiveBalance \<longleftrightarrow>
     activationEligibilityEpoch = FarFutureEpoch c \<and> effectiveBalance = MaxEffectiveBalance c"

definition isEligibleForActivationQueueElectra :: "BeaconChainConfig \<Rightarrow> Epoch \<Rightarrow> Gwei \<Rightarrow> bool" where
  "isEligibleForActivationQueueElectra c activationEligibilityEpoch effectiveBalance \<longleftrightarrow>
     activationEligibilityEpoch = FarFutureEpoch c \<and> effectiveBalance \<ge> MinActivationBalance c"

definition IsEligibleForActivationQueue :: "BeaconChainConfig \<Rightarrow> Validator \<Rightarrow> Epoch \<Rightarrow> bool" where
  "IsEligibleForActivationQueue c v currentEpoch =
     (if currentEpoch \<ge> ElectraForkEpoch c
      then isEligibleForActivationQueueElectra c (ActivationEligibilityEpoch v) (EffectiveBalance v)
      else isEligibleForActivationQueue c (ActivationEligibilityEpoch v) (EffectiveBalance v))"

definition isEligibleForActivation :: "BeaconChainConfig \<Rightarrow> Epoch \<Rightarrow> Epoch \<Rightarrow> Epoch \<Rightarrow> bool" where
  "isEligibleForActivation c activationEligibilityEpoch activationEpoch finalizedEpoch \<longleftrightarrow>
     activationEligibilityEpoch \<le> finalizedEpoch \<and> activationEpoch = FarFutureEpoch c"

definition IsEligibleForActivation :: "BeaconChainConfig \<Rightarrow> BeaconState \<Rightarrow> Validator \<Rightarrow> bool" where
  "IsEligibleForActivation c s v =
     isEligibleForActivation c (ActivationEligibilityEpoch v) (ActivationEpoch v)
       (FinalizedCheckpointEpoch s)"

definition IsEligibleForActivationUsingROVal :: "BeaconChainConfig \<Rightarrow> BeaconState \<Rightarrow> Validator \<Rightarrow> bool" where
  "IsEligibleForActivationUsingROVal c s v =
     isEligibleForActivation c (ActivationEligibilityEpoch v) (ActivationEpoch v)
       (FinalizedCheckpointEpoch s)"

text \<open>The search runs from the last validator down; \<open>j\<close> positions are left to inspect.\<close>

fun lastActivated_from :: "BeaconChainConfig \<Rightarrow> BeaconState \<Rightarrow> nat \<Rightarrow> ValidatorIndex result" where
  "lastActivated_from c s 0 = Inr 0"
| "lastActivated_from c s (Suc j) =
     bindR (ValidatorAtIndexReadOnly s (of_nat j)) (\<lambda>v.
     bindR (CurrentEpoch c s) (\<lambda>e.
     if IsActiveValidatorUsingTrie v e then Inr (of_nat j) else lastActivated_from c s j))"

definition LastActivatedValidatorIndex :: "BeaconChainConfig \<Rightarrow> BeaconState \<Rightarrow> ValidatorIndex result" where
  "LastActivatedValidatorIndex c s = lastActivated_from c s (NumValidators s)"

definition IsSameWithdrawalCredentials :: "Validator \<Rightarrow> Validator \<Rightarrow> bool" where
  "IsSameWithdrawalCredentials a b \<longleftrightarrow>
     (if length (WithdrawalCredentials a) \<le> 12 \<or> length (WithdrawalCredentials b) \<le> 12 then False
      else drop 12 (WithdrawalCredentials a) = drop 12 (WithdrawalCredentials b))"

definition ValidatorMaxEffectiveBalance :: "BeaconChainConfig \<Rightarrow> Validator \<Rightarrow> Gwei result" where
  "ValidatorMaxEffectiveBalance c v = bindR (HasCompoundingWithdrawalCredentials c v) (\<lambda>b.
     Inr (if b then MaxEffectiveBalanceElectra c else MinActivationBalance c))"

text \<open>\<^verbatim>\<open>&&\<close> evaluates its right operand only when the left one holds.\<close>

definition IsFullyWithdrawableValidator ::
    "BeaconChainConfig \<Rightarrow> Validator \<Rightarrow> Gwei \<Rightarrow> Epoch \<Rightarrow> int \<Rightarrow> bool result" where
  "IsFullyWithdrawableValidator c v balance epoch fork =
     (if balance \<le> 0 then Inr False
      else if fork \<ge> Electra
      then bindR (HasExecutionWithdrawalCredentials c v) (\<lambda>h. Inr (h \<and> WithdrawableEpoch v \<le> epoch))
      else bindR (HasETH1WithdrawalCredentials c v) (\<lambda>h. Inr (h \<and> WithdrawableEpoch v \<le> epoch)))"

definition isPartiallyWithdrawableValidatorElectra ::
    "BeaconChainConfig \<Rightarrow> Validator \<Rightarrow> Gwei \<Rightarrow> Epoch \<Rightarrow> bool result" where
  "isPartiallyWithdrawableValidatorElectra c v balance epoch =
     bindR (ValidatorMaxEffectiveBalance c v) (\<lambda>maxEB.
     bindR (HasExecutionWithdrawalCredentials c v) (\<lambda>h.
     Inr (h \<and> EffectiveBalance v = maxEB \<and> balance > maxEB)))"

definition isPartiallyWithdrawableValidatorCapella ::
    "BeaconChainConfig \<Rightarrow> Validator \<Rightarrow> Gwei \<Rightarrow> Epoch \<Rightarrow> bool result" where
  "isPartiallyWithdrawableValidatorCapella c v balance epoch =
     bindR (HasETH1WithdrawalCredentials c v) (\<lambda>h.
     Inr (h \<and> balance > MaxEffectiveBalance c \<and> EffectiveBalance v = MaxEffectiveBalance c))"

definition IsPartiallyWithdrawableValidator ::
    "BeaconChainConfig \<Rightarrow> Validator \<Rightarrow> Gwei \<Rightarrow> Epoch \<Rightarrow> int \<Rightarrow> bool result" where
  "IsPartiallyWithdrawableValidator c v balance epoch fork =
     (if fork < Electra then isPartiallyWithdrawableValidatorCapella c v balance epoch
      else isPartiallyWithdrawableValidatorElectra c v balance epoch)"

section \<open>Churn\<close>

definition BalanceChurnLimit :: "BeaconChainConfig \<Rightarrow> Gwei \<Rightarrow> Gwei result" where
  "BalanceChurnLimit c activeBalance =
     bindR (udiv activeBalance (ChurnLimitQuotient c)) (\<lambda>q.
     let churn = max (MinPerEpochChurnLimitElectra c) q
     in bindR (umod churn (EffectiveBalanceIncrement c)) (\<lambda>r. Inr (churn - r)))"

definition ActivationExitChurnLimit :: "BeaconChainConfig \<Rightarrow> Gwei \<Rightarrow> Gwei result" where
  "ActivationExitChurnLimit c activeBalance = bindR (BalanceChurnLimit c activeBalance) (\<lambda>l.
     Inr (min (MaxPerEpochActivationExitChurnLimit c) l))"

definition ConsolidationChurnLimit :: "BeaconChainConfig \<Rightarrow> Gwei \<Rightarrow> Gwei result" where
  "ConsolidationChurnLimit c activeBalance = bindR (BalanceChurnLimit c activeBalance) (\<lambda>l.
     bindR (ActivationExitChurnLimit c activeBalance) (\<lambda>a. Inr (l - a)))"

section \<open>Balances\<close>

definition TotalBalance :: "BeaconChainConfig \<Rightarrow> BeaconState \<Rightarrow> ValidatorIndex list \<Rightarrow> Gwei" where
  "TotalBalance c s indices =
     (let total = fold (\<lambda>i total. case ValidatorAtIndexReadOnly s i of
                          Inl e \<Rightarrow> total | Inr v \<Rightarrow> total + EffectiveBalance v) indices 0
      in if total < EffectiveBalanceIncrement c then EffectiveBalanceIncrement c else total)"

text \<open>What \<^verbatim>\<open>TotalActiveBalance\<close> computes when the cache misses.\<close>

definition computeTotalActiveBalance :: "BeaconChainConfig \<Rightarrow> BeaconState \<Rightarrow> Gwei result" where
  "computeTotalActiveBalance c s =
     bindR (ToEpoch c (bs_slot s)) (\<lambda>epoch.
     bindR (ReadFromEveryValidator s (\<lambda>i v total.
              Inr (if IsActiveValidatorUsingTrie v epoch then total + EffectiveBalance v else total)) 0)
       (\<lambda>total. Inr (max (EffectiveBalanceIncrement c) total)))"

definition ErrNotFound :: error where
  "ErrNotFound = Err ''not found in cache''"

definition TotalActiveBalance ::
    "BeaconChainConfig \<Rightarrow> (BeaconState \<Rightarrow> Gwei result) \<Rightarrow> (BeaconState \<Rightarrow> Gwei \<Rightarrow> unit result)
       \<Rightarrow> BeaconState \<Rightarrow> Gwei result" where
  "TotalActiveBalance c cacheGet cacheAdd s =
     (case cacheGet s of
        Inr bal \<Rightarrow> Inr bal
      | Inl e \<Rightarrow> if err_is e ErrNotFound
                then bindR (computeTotalActiveBalance c s) (\<lambda>t. bindR (cacheAdd s t) (\<lambda>u. Inr t))
                else Inl e)"

definition IncreaseBalanceWithVal :: "Gwei \<Rightarrow> Gwei \<Rightarrow> Gwei result" where
  "IncreaseBalanceWithVal currBalance delta = Add64 currBalance delta"

definition IncreaseBalance :: "ValidatorIndex \<Rightarrow> Gwei \<Rightarrow> BeaconState \<Rightarrow> BeaconState result" where
  "IncreaseBalance i delta s =
     bindR (BalanceAtIndex s i) (\<lambda>balAtIdx.
     bindR (IncreaseBalanceWithVal balAtIdx delta) (\<lambda>newBal.
     UpdateBalancesAtIndex i newBal s))"

definition DecreaseBalanceWithVal :: "Gwei \<Rightarrow> Gwei \<Rightarrow> Gwei" where
  "DecreaseBalanceWithVal currBalance delta = (if delta > currBalance then 0 else currBalance - delta)"

definition DecreaseBalance :: "ValidatorIndex \<Rightarrow> Gwei \<Rightarrow> BeaconState \<Rightarrow> BeaconState result" where
  "DecreaseBalance i delta s =
     bindR (BalanceAtIndex s i) (\<lambda>balAtIdx.
     UpdateBalancesAtIndex i (DecreaseBalanceWithVal balAtIdx delta) s)"

definition FinalityDelay :: "Epoch \<Rightarrow> Epoch \<Rightarrow> Epoch" where
  "FinalityDelay prevEpoch finalizedEpoch = prevEpoch - finalizedEpoch"

definition IsInInactivityLeak :: "BeaconChainConfig \<Rightarrow> Epoch \<Rightarrow> Epoch \<Rightarrow> bool" where
  "IsInInactivityLeak c prevEpoch finalizedEpoch \<longleftrightarrow>
     FinalityDelay prevEpoch finalizedEpoch > MinEpochsToInactivityPenalty c"

section \<open>Recent roots\<close>

definition BlockRootAtSlot :: "BeaconChainConfig \<Rightarrow> BeaconState \<Rightarrow> Slot \<Rightarrow> root result" where
  "BlockRootAtSlot c s slot =
     (if max_u64 - slot < SlotsPerHistoricalRoot c then Inl (Err ''slot overflows uint64'')
      else if slot \<ge> bs_slot s \<or> bs_slot s > slot + SlotsPerHistoricalRoot c
      then Inl (Err ''slot out of bounds'')
      else bindR (umod slot (SlotsPerHistoricalRoot c)) (BlockRootAtIndex s))"

definition StateRootAtSlot :: "BeaconChainConfig \<Rightarrow> BeaconState \<Rightarrow> Slot \<Rightarrow> root result" where
  "StateRootAtSlot c s slot =
     (if slot \<ge> bs_slot s \<or> bs_slot s > slot + SlotsPerHistoricalRoot c
      then Inl (Err ''slot out of bounds'')
      else bindR (umod slot (SlotsPerHistoricalRoot c)) (StateRootAtIndex s))"

definition BlockRoot :: "BeaconChainConfig \<Rightarrow> BeaconState \<Rightarrow> Epoch \<Rightarrow> root result" where
  "BlockRoot c s epoch = bindR (EpochStart c epoch) (BlockRootAtSlot c s)"

definition RandaoMix :: "BeaconChainConfig \<Rightarrow> BeaconState \<Rightarrow> Epoch \<Rightarrow> root result" where
  "RandaoMix c s epoch = bindR (umod epoch (EpochsPerHistoricalVector c)) (RandaoMixAtIndex s)"

definition DepositRequestsStarted :: "BeaconState \<Rightarrow> bool" where
  "DepositRequestsStarted s \<longleftrightarrow>
     (if bs_version s < Electra then False
      else case DepositRequestsStartIndex s of
             Inl e \<Rightarrow> False | Inr requestsStartIndex \<Rightarrow> bs_eth1DepositIndex s = requestsStartIndex)"

end
