(* ===== verification/Validators.thy ===== *)
theory Validators
  imports Helpers
begin

text \<open>
  Exits and slashings of \<^verbatim>\<open>src/beacon-chain/core/validators\<close>, with the exit churn of
  \<^verbatim>\<open>state-native/setters_churn.go\<close> and the consolidation churn of \<^verbatim>\<open>core/electra/churn.go\<close>. The
  \<^verbatim>\<open>ExitInfo\<close> that callers share through a pointer is passed in and returned. The proposer index
  that \<^verbatim>\<open>SlashValidator\<close> rewards is an argument. The lemmas treat the two churn queues through one
  interface: a queue of epochs that each admit a fixed balance.
\<close>

section \<open>Churn queues\<close>

definition exitEpochAndUpdateChurn ::
    "BeaconChainConfig \<Rightarrow> Gwei \<Rightarrow> Gwei \<Rightarrow> BeaconState \<Rightarrow> (Epoch \<times> BeaconState) result" where
  "exitEpochAndUpdateChurn c totalActiveBalance exitBalance b =
     bindR (ToEpoch c (bs_slot b)) (\<lambda>cur.
     let earliest = max (bs_earliestExitEpoch b) (ActivationExitEpoch c cur) in
     bindR (ActivationExitChurnLimit c totalActiveBalance) (\<lambda>perEpochChurn.
     let toConsume = (if bs_earliestExitEpoch b < earliest then perEpochChurn
                      else bs_exitBalanceToConsume b) in
     bindR (if exitBalance > toConsume
            then bindR (udiv (exitBalance - toConsume - 1) perEpochChurn) (\<lambda>q.
                 let additionalEpochs = q + 1
                 in Inr (earliest + additionalEpochs, toConsume + additionalEpochs * perEpochChurn))
            else Inr (earliest, toConsume)) (\<lambda>(earliest', toConsume').
     Inr (earliest', b\<lparr>bs_exitBalanceToConsume := toConsume' - exitBalance,
                       bs_earliestExitEpoch := earliest'\<rparr>))))"

definition ExitEpochAndUpdateChurn ::
    "BeaconChainConfig \<Rightarrow> Gwei \<Rightarrow> BeaconState \<Rightarrow> (Epoch \<times> BeaconState) result" where
  "ExitEpochAndUpdateChurn c exitBalance b = since Electra ''ExitEpochAndUpdateChurn'' b
     (bindR (computeTotalActiveBalance c b) (\<lambda>activeBal.
      exitEpochAndUpdateChurn c activeBal exitBalance b))"

definition ExitEpochAndUpdateChurnForTotalBal ::
    "BeaconChainConfig \<Rightarrow> Gwei \<Rightarrow> Gwei \<Rightarrow> BeaconState \<Rightarrow> (Epoch \<times> BeaconState) result" where
  "ExitEpochAndUpdateChurnForTotalBal c totalActiveBalance exitBalance b =
     since Electra ''ExitEpochAndUpdateChurnForTotalBal'' b
       (exitEpochAndUpdateChurn c totalActiveBalance exitBalance b)"

definition ComputeConsolidationEpochAndUpdateChurn ::
    "BeaconChainConfig \<Rightarrow> Gwei \<Rightarrow> BeaconState \<Rightarrow> (Epoch \<times> BeaconState) result" where
  "ComputeConsolidationEpochAndUpdateChurn c consolidationBalance s =
     bindR (EarliestConsolidationEpoch s) (\<lambda>earliestEpoch.
     bindR (ToEpoch c (bs_slot s)) (\<lambda>cur.
     let earliest = max earliestEpoch (ActivationExitEpoch c cur) in
     bindR (computeTotalActiveBalance c s) (\<lambda>activeBal.
     bindR (ConsolidationChurnLimit c activeBal) (\<lambda>perEpochChurn.
     bindR (if earliestEpoch < earliest then Inr perEpochChurn
            else ConsolidationBalanceToConsume s) (\<lambda>toConsume.
     bindR (if consolidationBalance > toConsume
            then bindR (Div64 (consolidationBalance - toConsume - 1) perEpochChurn) (\<lambda>q.
                 let additionalEpochs = q + 1
                 in Inr (earliest + additionalEpochs, toConsume + additionalEpochs * perEpochChurn))
            else Inr (earliest, toConsume)) (\<lambda>(earliest', toConsume').
     bindR (SetConsolidationBalanceToConsume (toConsume' - consolidationBalance) s) (\<lambda>s1.
     bindR (SetEarliestConsolidationEpoch earliest' s1) (\<lambda>s2.
     Inr (earliest', s2)))))))))"

section \<open>Exits\<close>

record ExitInfo =
  HighestExitEpoch :: Epoch
  Churn :: u64
  xi_TotalActiveBalance :: Gwei

definition ErrValidatorAlreadyExited :: error where
  "ErrValidatorAlreadyExited = Err ''validator already exited''"

definition exitInfo_step :: "BeaconChainConfig \<Rightarrow> Epoch \<Rightarrow> Validator \<Rightarrow> ExitInfo \<Rightarrow> ExitInfo" where
  "exitInfo_step c currentEpoch v x =
     (let e = ExitEpoch v;
          x1 = (if e \<noteq> FarFutureEpoch c
                then if e > HighestExitEpoch x then x\<lparr>HighestExitEpoch := e, Churn := 1\<rparr>
                     else if e = HighestExitEpoch x then x\<lparr>Churn := Churn x + 1\<rparr> else x
                else x)
      in if IsActiveValidatorUsingTrie v currentEpoch
         then x1\<lparr>xi_TotalActiveBalance := xi_TotalActiveBalance x1 + EffectiveBalance v\<rparr> else x1)"

definition ExitInformation :: "BeaconChainConfig \<Rightarrow> BeaconState \<Rightarrow> ExitInfo result" where
  "ExitInformation c s =
     bindR (ToEpoch c (bs_slot s)) (\<lambda>currentEpoch.
     bindR (ReadFromEveryValidator s (\<lambda>i v x. Inr (exitInfo_step c currentEpoch v x))
              \<lparr>HighestExitEpoch = 0, Churn = 0, xi_TotalActiveBalance = 0\<rparr>) (\<lambda>x.
     Inr (x\<lparr>xi_TotalActiveBalance := max (EffectiveBalanceIncrement c) (xi_TotalActiveBalance x)\<rparr>)))"

definition initiateValidatorExitPreElectra ::
    "BeaconChainConfig \<Rightarrow> BeaconState \<Rightarrow> ExitInfo \<Rightarrow> ExitInfo result" where
  "initiateValidatorExitPreElectra c s x =
     bindR (CurrentEpoch c s) (\<lambda>cur.
     let exitableEpoch = ActivationExitEpoch c cur;
         x1 = (if exitableEpoch > HighestExitEpoch x
               then x\<lparr>HighestExitEpoch := exitableEpoch, Churn := 0\<rparr> else x) in
     bindR (wrapR ''could not get active validator count'' (ActiveValidatorCount s cur)) (\<lambda>n.
     bindR (ValidatorExitChurnLimit c n) (\<lambda>currentChurn.
     if Churn x1 \<ge> currentChurn
     then bindR (Epoch_SafeAdd (HighestExitEpoch x1) 1) (\<lambda>e.
          Inr (x1\<lparr>HighestExitEpoch := e, Churn := 1\<rparr>))
     else Inr (x1\<lparr>Churn := Churn x1 + 1\<rparr>))))"

text \<open>What both entry points do once the exit epoch is known.\<close>

definition finishExit ::
    "BeaconChainConfig \<Rightarrow> ValidatorIndex \<Rightarrow> Validator \<Rightarrow> ExitInfo \<Rightarrow> BeaconState \<Rightarrow> (BeaconState \<times> ExitInfo) result" where
  "finishExit c i v x s =
     bindR (Epoch_SafeAddEpoch (HighestExitEpoch x) (MinValidatorWithdrawabilityDelay c)) (\<lambda>w.
     bindR (UpdateValidatorAtIndex i (v\<lparr>ExitEpoch := HighestExitEpoch x, WithdrawableEpoch := w\<rparr>) s)
       (\<lambda>s'. Inr (s', x)))"

definition InitiateValidatorExit ::
    "BeaconChainConfig \<Rightarrow> ValidatorIndex \<Rightarrow> ExitInfo \<Rightarrow> BeaconState \<Rightarrow> (BeaconState \<times> ExitInfo) result" where
  "InitiateValidatorExit c i x s =
     bindR (ValidatorAtIndex s i) (\<lambda>v.
     if ExitEpoch v \<noteq> FarFutureEpoch c then Inl ErrValidatorAlreadyExited
     else if bs_version s < Electra
     then bindR (initiateValidatorExitPreElectra c s x) (\<lambda>x'. finishExit c i v x' s)
     else bindR (ExitEpochAndUpdateChurn c (EffectiveBalance v) s) (\<lambda>(e, s').
          finishExit c i v (x\<lparr>HighestExitEpoch := e\<rparr>) s'))"

definition InitiateValidatorExitForTotalBal ::
    "BeaconChainConfig \<Rightarrow> ValidatorIndex \<Rightarrow> ExitInfo \<Rightarrow> Gwei \<Rightarrow> BeaconState \<Rightarrow> (BeaconState \<times> ExitInfo) result" where
  "InitiateValidatorExitForTotalBal c i x totalActiveBalance s =
     bindR (ValidatorAtIndex s i) (\<lambda>v.
     if ExitEpoch v \<noteq> FarFutureEpoch c then Inl ErrValidatorAlreadyExited
     else if bs_version s < Electra
     then bindR (initiateValidatorExitPreElectra c s x) (\<lambda>x'. finishExit c i v x' s)
     else bindR (ExitEpochAndUpdateChurnForTotalBal c totalActiveBalance (EffectiveBalance v) s)
            (\<lambda>(e, s'). finishExit c i v (x\<lparr>HighestExitEpoch := e\<rparr>) s'))"

text \<open>The callers ignore \<^verbatim>\<open>ErrValidatorAlreadyExited\<close>, with which the state comes back unchanged.\<close>

definition ignoreAlreadyExited ::
    "(BeaconState \<times> ExitInfo) \<Rightarrow> (BeaconState \<times> ExitInfo) result \<Rightarrow> (BeaconState \<times> ExitInfo) result" where
  "ignoreAlreadyExited unchanged m =
     (case m of Inr r \<Rightarrow> Inr r
      | Inl e \<Rightarrow> if err_is e ErrValidatorAlreadyExited then Inr unchanged else Inl e)"

section \<open>Slashing\<close>

definition SlashingParamsPerVersion :: "BeaconChainConfig \<Rightarrow> int \<Rightarrow> (u64 \<times> u64 \<times> u64) result" where
  "SlashingParamsPerVersion c v =
     (if v \<ge> Electra then Inr (MinSlashingPenaltyQuotientElectra c, ProposerRewardQuotient c,
                               WhistleBlowerRewardQuotientElectra c)
      else if v \<ge> Bellatrix then Inr (MinSlashingPenaltyQuotientBellatrix c, ProposerRewardQuotient c,
                                      WhistleBlowerRewardQuotient c)
      else if v \<ge> Altair then Inr (MinSlashingPenaltyQuotientAltair c, ProposerRewardQuotient c,
                                   WhistleBlowerRewardQuotient c)
      else if v \<ge> Phase0 then Inr (MinSlashingPenaltyQuotient c, ProposerRewardQuotient c,
                                   WhistleBlowerRewardQuotient c)
      else Inl (Err (''unknown state version '' @ version_String v)))"

definition SlashValidator ::
    "BeaconChainConfig \<Rightarrow> (BeaconState \<Rightarrow> ValidatorIndex result) \<Rightarrow> ValidatorIndex \<Rightarrow> ExitInfo
       \<Rightarrow> BeaconState \<Rightarrow> (BeaconState \<times> ExitInfo) result" where
  "SlashValidator c BeaconProposerIndex slashedIdx x s =
     bindR (wrapR ''could not initiate validator exit''
       (ignoreAlreadyExited (s, x)
          (InitiateValidatorExitForTotalBal c slashedIdx x (xi_TotalActiveBalance x) s))) (\<lambda>(s1, x1).
     bindR (ToEpoch c (bs_slot s1)) (\<lambda>currentEpoch.
     bindR (ValidatorAtIndex s1 slashedIdx) (\<lambda>v0.
     let v = v0\<lparr>Slashed := True, WithdrawableEpoch :=
                 MaxEpoch (WithdrawableEpoch v0) (currentEpoch + EpochsPerSlashingsVector c)\<rparr> in
     bindR (UpdateValidatorAtIndex slashedIdx v s1) (\<lambda>s2.
     bindR (umod currentEpoch (EpochsPerSlashingsVector c)) (\<lambda>si.
     bindR (idx (bs_slashings s2) (unat si)) (\<lambda>currentSlashing.
     bindR (UpdateSlashingsAtIndex si (currentSlashing + EffectiveBalance v) s2) (\<lambda>s3.
     bindR (wrapR ''could not get slashing parameters per version''
              (SlashingParamsPerVersion c (bs_version s3))) (\<lambda>(slashingQuotient, proposerQ, whistleQ).
     bindR (wrapR ''failed to compute slashing slashingPenalty''
              (Div64 (EffectiveBalance v) slashingQuotient)) (\<lambda>slashingPenalty.
     bindR (DecreaseBalance slashedIdx slashingPenalty s3) (\<lambda>s4.
     bindR (wrapR ''could not get proposer idx'' (BeaconProposerIndex s4)) (\<lambda>proposerIdx.
     bindR (wrapR ''failed to compute whistleblowerReward''
              (Div64 (EffectiveBalance v) whistleQ)) (\<lambda>whistleblowerReward.
     bindR (wrapR ''failed to compute proposer reward''
              (Div64 whistleblowerReward proposerQ)) (\<lambda>proposerReward.
     bindR (IncreaseBalance proposerIdx proposerReward s4) (\<lambda>s5.
     bindR (IncreaseBalance proposerIdx (whistleblowerReward - proposerReward) s5) (\<lambda>s6.
     Inr (s6, x1))))))))))))))))"

section \<open>Index queries\<close>

definition indices_where :: "(Validator \<Rightarrow> bool) \<Rightarrow> Validator list \<Rightarrow> ValidatorIndex list" where
  "indices_where P vs = map (\<lambda>(i, v). of_nat i) (filter (\<lambda>(i, v). P v) (enumerate 0 vs))"

definition ActivatedValidatorIndices :: "Epoch \<Rightarrow> Validator list \<Rightarrow> ValidatorIndex list" where
  "ActivatedValidatorIndices epoch vs =
     indices_where (\<lambda>v. ActivationEpoch v \<le> epoch \<and> epoch < ExitEpoch v) vs"

definition SlashedValidatorIndices :: "BeaconChainConfig \<Rightarrow> Epoch \<Rightarrow> Validator list \<Rightarrow> ValidatorIndex list" where
  "SlashedValidatorIndices c epoch vs = indices_where (\<lambda>v.
     WithdrawableEpoch v = MaxEpoch (WithdrawableEpoch v) (epoch + EpochsPerSlashingsVector c) \<and> Slashed v) vs"

definition ExitedValidatorIndices :: "BeaconChainConfig \<Rightarrow> Epoch \<Rightarrow> Validator list \<Rightarrow> ValidatorIndex list" where
  "ExitedValidatorIndices c epoch vs =
     indices_where (\<lambda>v. ExitEpoch v = epoch \<and> EffectiveBalance v > EjectionBalance c) vs"

definition EjectedValidatorIndices :: "BeaconChainConfig \<Rightarrow> Epoch \<Rightarrow> Validator list \<Rightarrow> ValidatorIndex list" where
  "EjectedValidatorIndices c epoch vs =
     indices_where (\<lambda>v. ExitEpoch v = epoch \<and> EffectiveBalance v \<le> EjectionBalance c) vs"

section \<open>One step of a churn queue\<close>

text \<open>The two churn updates share this computation on the earliest epoch and the balance left in it.\<close>

definition churn_advance :: "u64 \<Rightarrow> u64 \<Rightarrow> u64 \<Rightarrow> u64 \<Rightarrow> u64 \<times> u64" where
  "churn_advance churn b e t =
     (if b > t then let a = (b - t - 1) div churn + 1 in (e + a, t + a * churn) else (e, t))"

lemma churn_advance_nat:
  fixes churn b e t :: u64
  assumes "churn \<noteq> 0" "unat t \<le> unat churn" "unat e + unat b < 2 ^ 63" "unat b + unat churn < 2 ^ 63"
      and adv: "churn_advance churn b e t = (e', t')"
  shows "unat b \<le> unat t'" "unat t' - unat b \<le> unat churn"
    "0 < unat b \<Longrightarrow> unat t' - unat b < unat churn"
    "unat e \<le> unat e'" "unat e' \<le> unat e + unat b"
    "int (unat e') * int (unat churn) - int (unat t' - unat b)
       = int (unat e) * int (unat churn) - int (unat t) + int (unat b)"
proof -
  let ?B = "unat b" and ?T = "unat t" and ?C = "unat churn" and ?E = "unat e"
  have C: "0 < ?C" using assms(1) by (simp add: unat_gt_0)
  have goals: "?B \<le> unat t' \<and> unat t' - ?B \<le> ?C \<and> (0 < ?B \<longrightarrow> unat t' - ?B < ?C) \<and>
      ?E \<le> unat e' \<and> unat e' \<le> ?E + ?B \<and>
      int (unat e') * int ?C - int (unat t' - ?B) = int ?E * int ?C - int ?T + int ?B"
  proof (cases "b > t")
    case False
    then have "e' = e" "t' = t" "?B \<le> ?T"
      using adv by (simp_all add: churn_advance_def word_less_nat_alt)
    then show ?thesis using assms(2) by (auto simp: of_nat_diff)
  next
    case True
    then have BT: "?T < ?B" by (simp add: word_less_nat_alt)
    define Q where "Q = (?B - ?T - 1) div ?C"
    let ?a = "(b - t - 1) div churn + 1"
    have "unat (b - t - 1) = ?B - ?T - 1"
      using BT by (simp add: unat_sub_u64 word_le_nat_alt)
    then have q: "unat ((b - t - 1) div churn) = Q" by (simp add: unat_div_u64 Q_def)
    have Qle: "Q \<le> ?B - ?T - 1" unfolding Q_def by (rule div_le_dividend)
    have QC: "?C * Q \<le> ?B - ?T - 1" "?B - ?T - 1 < ?C * (Q + 1)"
      using div_eq_iff_between [OF C, of "?B - ?T - 1" Q] by (simp_all add: Q_def)
    have a: "unat ?a = Q + 1"
      using q Qle BT assms(3) by (subst unat_add_u64) simp_all
    have aC: "unat (?a * churn) = ?C * Q + ?C"
      using a QC(1) assms(4) BT by (subst unat_mult_u64) (simp_all add: algebra_simps)
    have "unat (t + ?a * churn) = ?T + (?C * Q + ?C)"
      using aC QC(1) BT assms(4) by (subst unat_add_u64) simp_all
    moreover have "unat (e + ?a) = ?E + (Q + 1)"
      using a Qle BT assms(3) by (subst unat_add_u64) simp_all
    moreover have "e' = e + ?a" "t' = t + ?a * churn"
      using adv True by (auto simp: churn_advance_def Let_def)
    ultimately show ?thesis
      using QC Qle BT by (auto simp: of_nat_diff algebra_simps)
  qed
  then show "?B \<le> unat t'" "unat t' - ?B \<le> ?C" "0 < ?B \<Longrightarrow> unat t' - ?B < ?C"
    "?E \<le> unat e'" "unat e' \<le> ?E + ?B"
    "int (unat e') * int ?C - int (unat t' - ?B) = int ?E * int ?C - int ?T + int ?B"
    by blast+
qed

section \<open>The contract of a churn queue\<close>

text \<open>
  Epochs are numbered, each admits the same balance \<open>churn\<close>, and \<open>remaining\<close> is what is left of
  it in the \<open>earliest\<close> epoch. The balance admitted so far, counted from epoch 0, is
  \<open>earliest * churn - remaining\<close>; a request that arrives when \<open>earliest\<close> has been overtaken by \<open>first\<close>
  starts at the beginning of \<open>first\<close>.
\<close>

locale churn_queue =
  fixes churn earliest remaining first :: "'s \<Rightarrow> nat"
    and step :: "u64 \<Rightarrow> 's \<Rightarrow> (u64 \<times> 's) result"
    and valid :: "'s \<Rightarrow> bool"
  assumes step_law:
    "valid s \<Longrightarrow> 0 < churn s \<Longrightarrow> remaining s \<le> churn s \<Longrightarrow>
     max (earliest s) (first s) + unat b < 2 ^ 63 \<Longrightarrow> unat b + churn s < 2 ^ 63 \<Longrightarrow>
     \<exists>e s'. step b s = Inr (e, s') \<and> valid s' \<and> unat e = earliest s' \<and> churn s' = churn s \<and>
       first s' = first s \<and> remaining s' \<le> churn s \<and> (0 < unat b \<longrightarrow> remaining s' < churn s) \<and>
       first s \<le> earliest s' \<and> earliest s' \<le> max (earliest s) (first s) + unat b \<and>
       int (earliest s') * int (churn s) - int (remaining s')
         = (if earliest s < first s then int (first s) * int (churn s) - int (churn s)
            else int (earliest s) * int (churn s) - int (remaining s)) + int (unat b)"
begin

definition admitted :: "'s \<Rightarrow> int" where
  "admitted s = (if earliest s < first s then int (first s) * int (churn s) - int (churn s)
                 else int (earliest s) * int (churn s) - int (remaining s))"

primrec run :: "u64 list \<Rightarrow> 's \<Rightarrow> 's result" where
  "run [] s = Inr s"
| "run (b # bs) s = bindR (step b s) (\<lambda>(e, s'). run bs s')"

text \<open>A sequence of requests is admitted in full, without a gap and without exceeding the churn of
  any epoch: the total is exactly what the queue has advanced by.\<close>

lemma run_admits:
  assumes "valid s" "0 < churn s" "remaining s \<le> churn s"
      and "max (earliest s) (first s) + sum_list (map unat bs) < 2 ^ 63"
      and "sum_list (map unat bs) + churn s < 2 ^ 63"
  shows "\<exists>s'. run bs s = Inr s' \<and> churn s' = churn s \<and> first s' = first s \<and> remaining s' \<le> churn s \<and>
           (bs \<noteq> [] \<longrightarrow> first s \<le> earliest s' \<and>
              int (earliest s') * int (churn s) - int (remaining s')
                = admitted s + int (sum_list (map unat bs)))"
  using assms
proof (induction bs arbitrary: s)
  case (Cons b bs)
  obtain e s1 where s1: "step b s = Inr (e, s1)" "valid s1" "churn s1 = churn s" "first s1 = first s"
      "remaining s1 \<le> churn s" "first s \<le> earliest s1"
      "earliest s1 \<le> max (earliest s) (first s) + unat b"
      "int (earliest s1) * int (churn s) - int (remaining s1) = admitted s + int (unat b)"
    using step_law [of s b] Cons.prems unfolding admitted_def by auto
  have adm: "admitted s1 = admitted s + int (unat b)"
    using s1 by (simp add: admitted_def)
  have "max (earliest s1) (first s1) + sum_list (map unat bs) < 2 ^ 63"
    using Cons.prems(4) s1(4,6,7) by (simp add: max_def split: if_splits)
  moreover have "sum_list (map unat bs) + churn s1 < 2 ^ 63"
    using Cons.prems(5) s1(3) by simp
  ultimately obtain s2 where s2: "run bs s1 = Inr s2" "churn s2 = churn s1" "first s2 = first s1"
      "remaining s2 \<le> churn s1"
      "bs \<noteq> [] \<longrightarrow> first s1 \<le> earliest s2 \<and> int (earliest s2) * int (churn s1) - int (remaining s2)
         = admitted s1 + int (sum_list (map unat bs))"
    using Cons.IH [of s1] Cons.prems(2) s1(2,3,5) by auto
  show ?case
  proof (cases "bs = []")
    case True
    then show ?thesis using s1 by auto
  next
    case False
    then show ?thesis using s1 s2 adm by auto
  qed
qed simp

lemma admitted_window:
  assumes "0 < churn s" "remaining s \<le> churn s" "first s \<le> earliest s"
  shows "(int (earliest s) - 1) * int (churn s) \<le> admitted s \<and> admitted s \<le> int (earliest s) * int (churn s)"
  using assms by (simp add: admitted_def algebra_simps)

end

section \<open>Both queues meet the contract\<close>

text \<open>The states of a queue in which a request is answered from the configured limits.\<close>

definition exit_churn :: "BeaconChainConfig \<Rightarrow> Gwei \<Rightarrow> nat" where
  "exit_churn c tab = (case ActivationExitChurnLimit c tab of Inr l \<Rightarrow> unat l | Inl _ \<Rightarrow> 0)"

definition consolidation_churn :: "BeaconChainConfig \<Rightarrow> BeaconState \<Rightarrow> nat" where
  "consolidation_churn c s =
     (case bindR (computeTotalActiveBalance c s) (ConsolidationChurnLimit c) of
        Inr l \<Rightarrow> unat l | Inl _ \<Rightarrow> 0)"

definition first_exit :: "BeaconChainConfig \<Rightarrow> BeaconState \<Rightarrow> nat" where
  "first_exit c s = (case ToEpoch c (bs_slot s) of
     Inr e \<Rightarrow> unat (ActivationExitEpoch c e) | Inl _ \<Rightarrow> 0)"

lemma ActivationExitChurnLimit_total:
  "valid_config c \<Longrightarrow> \<exists>l. ActivationExitChurnLimit c tab = Inr l"
  by (simp add: ActivationExitChurnLimit_def BalanceChurnLimit_def Let_def)

lemma max_less: "max a b = (if a < b then b else a)" for a b :: "'a::linorder"
  by (auto simp: max_def)

lemma exitEpochAndUpdateChurn_eq:
  assumes "valid_config c" "ActivationExitChurnLimit c tab = Inr l" "l \<noteq> 0"
  shows "exitEpochAndUpdateChurn c tab b s =
     (let first = ActivationExitEpoch c (bs_slot s div SlotsPerEpoch c);
          (e', t') = churn_advance l b (max (bs_earliestExitEpoch s) first)
                       (if bs_earliestExitEpoch s < first then l else bs_exitBalanceToConsume s)
      in Inr (e', s\<lparr>bs_exitBalanceToConsume := t' - b, bs_earliestExitEpoch := e'\<rparr>))"
  using assms
  by (cases "bs_earliestExitEpoch s < ActivationExitEpoch c (bs_slot s div SlotsPerEpoch c)")
     (simp_all add: exitEpochAndUpdateChurn_def churn_advance_def Let_def max_less)

lemma unat_max: "unat (max a b :: u64) = max (unat a) (unat b)"
  by (simp add: max_def word_le_nat_alt)

text \<open>The conclusion of the contract, from one step of \<open>churn_advance\<close>.\<close>

lemma churn_advance_contract:
  fixes e f r l b :: u64
  assumes "l \<noteq> 0" "unat r \<le> unat l"
      and "max (unat e) (unat f) + unat b < 2 ^ 63" "unat b + unat l < 2 ^ 63"
      and adv: "churn_advance l b (max e f) (if e < f then l else r) = (e', t')"
  shows "unat (t' - b) \<le> unat l \<and> (0 < unat b \<longrightarrow> unat (t' - b) < unat l) \<and>
    unat f \<le> unat e' \<and> unat e' \<le> max (unat e) (unat f) + unat b \<and>
    int (unat e') * int (unat l) - int (unat (t' - b))
      = (if unat e < unat f then int (unat f) * int (unat l) - int (unat l)
         else int (unat e) * int (unat l) - int (unat r)) + int (unat b)"
proof -
  let ?t = "if e < f then l else r"
  have t: "unat ?t \<le> unat l" using assms(2) by simp
  have m: "unat (max e f) + unat b < 2 ^ 63" using assms(3) by (simp add: unat_max)
  note adv' = churn_advance_nat [OF assms(1) t m assms(4) adv]
  have sub: "unat (t' - b) = unat t' - unat b"
    using adv'(1) by (intro unat_sub_u64) (simp add: word_le_nat_alt)
  have "unat f \<le> unat (max e f)" by (simp add: unat_max)
  then have f: "unat f \<le> unat e'" using adv'(4) by linarith
  have eq: "int (unat (max e f)) * int (unat l) - int (unat ?t)
      = (if unat e < unat f then int (unat f) * int (unat l) - int (unat l)
         else int (unat e) * int (unat l) - int (unat r))"
    by (cases "e < f") (simp_all add: max_less flip: word_less_nat_alt)
  show ?thesis
    unfolding sub using adv'(2,3) f adv'(5) [unfolded unat_max] adv'(6) [unfolded eq] by blast
qed

interpretation exit_queue: churn_queue "\<lambda>s. exit_churn c tab" "\<lambda>s. unat (bs_earliestExitEpoch s)"
    "\<lambda>s. unat (bs_exitBalanceToConsume s)" "first_exit c"
    "exitEpochAndUpdateChurn c tab" "\<lambda>s. valid_config c"
  for c tab
proof (unfold_locales, goal_cases)
  case (1 s b)
  obtain l where l: "ActivationExitChurnLimit c tab = Inr l"
    using ActivationExitChurnLimit_total 1(1) by blast
  let ?f = "ActivationExitEpoch c (bs_slot s div SlotsPerEpoch c)"
  have churn: "exit_churn c tab = unat l" using l by (simp add: exit_churn_def)
  have first: "first_exit c s' = unat ?f" if "bs_slot s' = bs_slot s" for s'
    using 1(1) that by (simp add: first_exit_def)
  have nz: "l \<noteq> 0" using 1(2) churn by (auto simp: unat_gt_0)
  obtain e' t' where adv: "churn_advance l b (max (bs_earliestExitEpoch s) ?f)
      (if bs_earliestExitEpoch s < ?f then l else bs_exitBalanceToConsume s) = (e', t')"
    by (cases "churn_advance l b (max (bs_earliestExitEpoch s) ?f)
      (if bs_earliestExitEpoch s < ?f then l else bs_exitBalanceToConsume s)")
  have "exitEpochAndUpdateChurn c tab b s
      = Inr (e', s\<lparr>bs_exitBalanceToConsume := t' - b, bs_earliestExitEpoch := e'\<rparr>)"
    using exitEpochAndUpdateChurn_eq [OF 1(1) l nz, of b s] adv by (simp add: Let_def)
  then show ?case
    using churn_advance_contract [OF nz _ _ _ adv] 1 by (simp add: churn first)
qed

lemma computeTotalActiveBalance_total:
  "valid_config c \<Longrightarrow> \<exists>t. computeTotalActiveBalance c s = Inr t"
  by (simp add: computeTotalActiveBalance_def ReadFromEveryValidator_pure)

lemma computeTotalActiveBalance_cong:
  "bs_slot s' = bs_slot s \<Longrightarrow> bs_validators s' = bs_validators s \<Longrightarrow>
     computeTotalActiveBalance c s' = computeTotalActiveBalance c s"
  by (simp add: computeTotalActiveBalance_def ReadFromEveryValidator_def)

lemma ConsolidationChurnLimit_total:
  "valid_config c \<Longrightarrow> \<exists>l. ConsolidationChurnLimit c t = Inr l"
  by (simp add: ConsolidationChurnLimit_def ActivationExitChurnLimit_def BalanceChurnLimit_def Let_def)

lemma ComputeConsolidationEpochAndUpdateChurn_eq:
  assumes "valid_config c" "Electra \<le> bs_version s" "computeTotalActiveBalance c s = Inr t"
      and "ConsolidationChurnLimit c t = Inr l" "l \<noteq> 0"
  shows "ComputeConsolidationEpochAndUpdateChurn c b s =
     (let first = ActivationExitEpoch c (bs_slot s div SlotsPerEpoch c);
          (e', t') = churn_advance l b (max (bs_earliestConsolidationEpoch s) first)
                       (if bs_earliestConsolidationEpoch s < first then l
                        else bs_consolidationBalanceToConsume s)
      in Inr (e', s\<lparr>bs_consolidationBalanceToConsume := t' - b, bs_earliestConsolidationEpoch := e'\<rparr>))"
  using assms
  by (cases "bs_earliestConsolidationEpoch s < ActivationExitEpoch c (bs_slot s div SlotsPerEpoch c)")
     (simp_all add: ComputeConsolidationEpochAndUpdateChurn_def churn_advance_def Let_def max_less
        EarliestConsolidationEpoch_def ConsolidationBalanceToConsume_def Div64_def
        SetConsolidationBalanceToConsume_def SetEarliestConsolidationEpoch_def)

interpretation consolidation_queue: churn_queue "consolidation_churn c"
    "\<lambda>s. unat (bs_earliestConsolidationEpoch s)" "\<lambda>s. unat (bs_consolidationBalanceToConsume s)"
    "first_exit c" "ComputeConsolidationEpochAndUpdateChurn c"
    "\<lambda>s. valid_config c \<and> Electra \<le> bs_version s"
  for c
proof (unfold_locales, goal_cases)
  case (1 s b)
  obtain t where t: "computeTotalActiveBalance c s = Inr t"
    using computeTotalActiveBalance_total 1(1) by blast
  obtain l where l: "ConsolidationChurnLimit c t = Inr l"
    using ConsolidationChurnLimit_total 1(1) by blast
  let ?f = "ActivationExitEpoch c (bs_slot s div SlotsPerEpoch c)"
  have churn: "consolidation_churn c s' = unat l"
    if "bs_slot s' = bs_slot s" "bs_validators s' = bs_validators s" for s'
    using t l computeTotalActiveBalance_cong [OF that] by (simp add: consolidation_churn_def)
  have first: "first_exit c s' = unat ?f" if "bs_slot s' = bs_slot s" for s'
    using 1(1) that by (simp add: first_exit_def)
  have nz: "l \<noteq> 0" using 1(2) churn by (auto simp: unat_gt_0)
  obtain e' t' where adv: "churn_advance l b (max (bs_earliestConsolidationEpoch s) ?f)
      (if bs_earliestConsolidationEpoch s < ?f then l else bs_consolidationBalanceToConsume s) = (e', t')"
    by (cases "churn_advance l b (max (bs_earliestConsolidationEpoch s) ?f)
      (if bs_earliestConsolidationEpoch s < ?f then l else bs_consolidationBalanceToConsume s)")
  have "ComputeConsolidationEpochAndUpdateChurn c b s
      = Inr (e', s\<lparr>bs_consolidationBalanceToConsume := t' - b, bs_earliestConsolidationEpoch := e'\<rparr>)"
    using ComputeConsolidationEpochAndUpdateChurn_eq [OF _ _ t l nz, of b] 1(1) adv by (simp add: Let_def)
  then show ?case
    using churn_advance_contract [OF nz _ _ _ adv] 1 by (simp add: churn first)
qed

section \<open>Exits before Electra\<close>

text \<open>What \<^verbatim>\<open>ExitInfo\<close> says about the registry: the last epoch in which a validator exits, and how
  many exit then.\<close>

definition exits_at :: "Epoch \<Rightarrow> Validator list \<Rightarrow> nat" where
  "exits_at e vs = length (filter (\<lambda>v. ExitEpoch v = e) vs)"

definition exit_info_ok :: "BeaconChainConfig \<Rightarrow> ExitInfo \<Rightarrow> Validator list \<Rightarrow> bool" where
  "exit_info_ok c x vs \<longleftrightarrow>
     HighestExitEpoch x \<noteq> FarFutureEpoch c \<and>
     (\<forall>v \<in> set vs. ExitEpoch v \<noteq> FarFutureEpoch c \<longrightarrow> ExitEpoch v \<le> HighestExitEpoch x) \<and>
     unat (Churn x) = exits_at (HighestExitEpoch x) vs"

lemma exits_at_zero: "(\<And>v. v \<in> set vs \<Longrightarrow> ExitEpoch v \<noteq> e) \<Longrightarrow> exits_at e vs = 0"
  by (auto simp: exits_at_def filter_empty_conv)

lemma exits_at_snoc: "exits_at e (vs @ [v]) = exits_at e vs + (if ExitEpoch v = e then 1 else 0)"
  by (simp add: exits_at_def)

lemma exits_at_le: "exits_at e vs \<le> length vs"
  by (simp add: exits_at_def)

lemma exits_at_update:
  assumes "i < length vs" "ExitEpoch (vs ! i) \<noteq> e"
  shows "exits_at e (vs[i := w]) = exits_at e vs + (if ExitEpoch w = e then 1 else 0)"
proof -
  have vs: "vs = take i vs @ vs ! i # drop (Suc i) vs" by (rule id_take_nth_drop [OF assms(1)])
  have "exits_at e (vs[i := w]) = length (filter (\<lambda>v. ExitEpoch v = e) (take i vs)) +
      length (filter (\<lambda>v. ExitEpoch v = e) (drop (Suc i) vs)) + (if ExitEpoch w = e then 1 else 0)"
    using assms(1) by (simp add: exits_at_def upd_conv_take_nth_drop)
  moreover have "exits_at e vs = length (filter (\<lambda>v. ExitEpoch v = e) (take i vs)) +
      length (filter (\<lambda>v. ExitEpoch v = e) (drop (Suc i) vs))"
    using assms(2) by (subst vs) (simp add: exits_at_def)
  ultimately show ?thesis by simp
qed

lemma exitInfo_step_ok:
  assumes "FarFutureEpoch c = max_u64" "exit_info_ok c x vs" "length vs < 2 ^ 63"
  shows "exit_info_ok c (exitInfo_step c cur v x) (vs @ [v])"
proof -
  have ch: "unat (Churn x) < 2 ^ 63"
    using assms(2,3) exits_at_le [of "HighestExitEpoch x" vs] by (simp add: exit_info_ok_def)
  then have plus: "unat (Churn x + 1) = unat (Churn x) + 1"
    using unat_add_u64 [of "Churn x" 1] by simp
  have gt: "exits_at (ExitEpoch v) vs = 0"
    if "ExitEpoch v > HighestExitEpoch x" "ExitEpoch v \<noteq> FarFutureEpoch c"
    using assms(2) that by (intro exits_at_zero) (auto simp: exit_info_ok_def)
  show ?thesis
    using assms(2) plus gt
    by (auto simp: exit_info_ok_def exitInfo_step_def Let_def exits_at_snoc intro: less_imp_le
        order.trans)
qed

lemma exitInfo_fold_ok:
  assumes "FarFutureEpoch c = max_u64" "exit_info_ok c x vs" "length vs + length ws < 2 ^ 63"
  shows "exit_info_ok c (fold (\<lambda>(i, v). exitInfo_step c cur v) (enumerate k ws) x) (vs @ ws)"
  using assms(2,3)
proof (induction ws arbitrary: x vs k)
  case (Cons w ws)
  have "exit_info_ok c (exitInfo_step c cur w x) (vs @ [w])"
    using Cons.prems by (intro exitInfo_step_ok assms(1)) simp_all
  from Cons.IH [OF this, of "Suc k"] Cons.prems(2) show ?case by simp
qed simp

lemma exit_info_ok_total: "exit_info_ok c (x\<lparr>xi_TotalActiveBalance := t\<rparr>) vs = exit_info_ok c x vs"
  by (simp add: exit_info_ok_def)

lemma ExitInformation_ok:
  assumes "valid_config c" "length (bs_validators s) < 2 ^ 63" "ExitInformation c s = Inr x"
  shows "exit_info_ok c x (bs_validators s)"
proof -
  have "exit_info_ok c \<lparr>HighestExitEpoch = 0, Churn = 0, xi_TotalActiveBalance = 0\<rparr> []"
    using assms(1) by (simp add: exit_info_ok_def exits_at_def max_u64_def)
  from exitInfo_fold_ok [OF _ this, of "bs_validators s" _ 0] assms show ?thesis
    by (auto simp: ExitInformation_def ReadFromEveryValidator_pure exit_info_ok_total)
qed

text \<open>The epoch an exit is assigned to, and its place in that epoch's churn.\<close>

lemma initiatePreElectra_cases:
  assumes "initiateValidatorExitPreElectra c s x = Inr x'"
      and "ActiveValidatorCount s (bs_slot s div SlotsPerEpoch c) = Inr n"
      and "ValidatorExitChurnLimit c n = Inr lim" "valid_config c"
  obtains y where "y = (if ActivationExitEpoch c (bs_slot s div SlotsPerEpoch c) > HighestExitEpoch x
      then x\<lparr>HighestExitEpoch := ActivationExitEpoch c (bs_slot s div SlotsPerEpoch c), Churn := 0\<rparr> else x)"
    and "Churn y \<ge> lim \<longrightarrow> HighestExitEpoch y \<noteq> max_u64 \<and>
          x' = y\<lparr>HighestExitEpoch := HighestExitEpoch y + 1, Churn := 1\<rparr>"
    and "\<not> Churn y \<ge> lim \<longrightarrow> x' = y\<lparr>Churn := Churn y + 1\<rparr>"
proof -
  let ?e = "ActivationExitEpoch c (bs_slot s div SlotsPerEpoch c)"
  define y where "y = (if ?e > HighestExitEpoch x then x\<lparr>HighestExitEpoch := ?e, Churn := 0\<rparr> else x)"
  have *: "(if Churn y \<ge> lim
      then bindR (Epoch_SafeAdd (HighestExitEpoch y) 1) (\<lambda>e. Inr (y\<lparr>HighestExitEpoch := e, Churn := 1\<rparr>))
      else Inr (y\<lparr>Churn := Churn y + 1\<rparr>)) = Inr x'"
    using assms unfolding y_def
    by (simp add: initiateValidatorExitPreElectra_def CurrentEpoch_def Let_def)
  have "HighestExitEpoch y \<noteq> max_u64" if "Churn y \<ge> lim"
    using * that by (auto simp: epoch_ops Add64_Inr bindR_eq_Inr unat_max_u64)
  with * show ?thesis
    by (cases "Churn y \<ge> lim") (intro that [OF y_def]; auto simp: epoch_ops Add64_Inr bindR_eq_Inr)+
qed

lemma finishExit_Inr:
  "finishExit c i v x s = Inr (s', x') \<longleftrightarrow>
     x' = x \<and> unat i < length (bs_validators s) \<and>
     unat (HighestExitEpoch x) + unat (MinValidatorWithdrawabilityDelay c) < 2 ^ 64 \<and>
     s' = s\<lparr>bs_validators := (bs_validators s)[unat i := v\<lparr>ExitEpoch := HighestExitEpoch x,
              WithdrawableEpoch := HighestExitEpoch x + MinValidatorWithdrawabilityDelay c\<rparr>]\<rparr>"
  by (auto simp: finishExit_def epoch_ops Add64_Inr bindR_eq_Inr UpdateValidatorAtIndex_def)

lemma exit_info_ok_advance:
  assumes "exit_info_ok c x vs" "HighestExitEpoch x < e" "e \<noteq> FarFutureEpoch c"
  shows "exit_info_ok c (x\<lparr>HighestExitEpoch := e, Churn := 0\<rparr>) vs"
proof -
  have "exits_at e vs = 0"
    using assms by (intro exits_at_zero) (auto simp: exit_info_ok_def)
  with assms show ?thesis by (auto simp: exit_info_ok_def intro: order.trans less_imp_le)
qed

lemma exit_info_ok_assign:
  assumes "exit_info_ok c x vs" "i < length vs" "ExitEpoch (vs ! i) = FarFutureEpoch c"
      and "ExitEpoch w = HighestExitEpoch x" "unat (Churn x) + 1 < 2 ^ 64"
  shows "exit_info_ok c (x\<lparr>Churn := Churn x + 1\<rparr>) (vs[i := w])"
proof -
  have "exits_at (HighestExitEpoch x) (vs[i := w]) = exits_at (HighestExitEpoch x) vs + 1"
    using exits_at_update [OF assms(2), of "HighestExitEpoch x" w] assms(1,3,4)
    by (auto simp: exit_info_ok_def)
  moreover have "unat (Churn x + 1) = unat (Churn x) + 1"
    using assms(5) unat_add_u64 [of "Churn x" 1] by simp
  ultimately show ?thesis
    using assms(1,4) by (auto simp: exit_info_ok_def dest!: set_update_subset_insert [THEN subsetD])
qed

section \<open>Properties\<close>

text \<open>A sequence of exit requests, answered one after the other within an epoch.\<close>

definition process_exit_requests ::
    "BeaconChainConfig \<Rightarrow> Gwei \<Rightarrow> Gwei list \<Rightarrow> BeaconState \<Rightarrow> BeaconState result" where
  "process_exit_requests c tab bs s =
     foldR (\<lambda>b s. bindR (exitEpochAndUpdateChurn c tab b s) (\<lambda>(e, s'). Inr s')) bs s"

lemma process_exit_requests_run: "process_exit_requests c tab bs s = exit_queue.run c tab bs s"
proof (induction bs arbitrary: s)
  case (Cons b bs)
  then show ?case
    by (cases "exitEpochAndUpdateChurn c tab b s") (auto simp: process_exit_requests_def)
qed (simp add: process_exit_requests_def)

text \<open>A state for the witnesses below: two active validators with 32 and 2048 ETH, epoch 10.\<close>

definition val0 :: Validator where
  "val0 = \<lparr>PublicKey = [1], WithdrawalCredentials = [1], EffectiveBalance = 32000000000, Slashed = False,
     ActivationEligibilityEpoch = 0, ActivationEpoch = 0, ExitEpoch = max_u64, WithdrawableEpoch = max_u64\<rparr>"

definition cp0 :: Checkpoint where
  "cp0 = \<lparr>cp_Epoch = 0, cp_Root = []\<rparr>"

definition eth1data0 :: Eth1Data where
  "eth1data0 = \<lparr>e1_DepositRoot = [], e1_DepositCount = 0, e1_BlockHash = []\<rparr>"

definition state0 :: BeaconState where
  "state0 = \<lparr>bs_version = Electra, bs_genesisTime = 0, bs_slot = 320,
     bs_fork = \<lparr>fk_PreviousVersion = [], fk_CurrentVersion = [], fk_Epoch = 0\<rparr>,
     bs_latestBlockHeader = \<lparr>bh_Slot = 319, bh_ProposerIndex = 0, bh_ParentRoot = [], bh_StateRoot = [],
       bh_BodyRoot = []\<rparr>,
     bs_blockRoots = [], bs_stateRoots = [],
     bs_historicalRoots = [], bs_historicalSummaries = [], bs_eth1Data = eth1data0, bs_eth1DataVotes = [],
     bs_eth1DepositIndex = 0, bs_validators = [val0, val0\<lparr>EffectiveBalance := 2048000000000\<rparr>],
     bs_balances = [32000000000, 2048000000000], bs_randaoMixes = [], bs_slashings = [0, 0],
     bs_previousEpochAttestations = [], bs_currentEpochAttestations = [],
     bs_previousEpochParticipation = [0, 7], bs_currentEpochParticipation = [0, 7],
     bs_justificationBits = [0], bs_previousJustifiedCheckpoint = cp0,
     bs_currentJustifiedCheckpoint = cp0, bs_finalizedCheckpoint = cp0, bs_inactivityScores = [0, 0],
     bs_currentSyncCommittee = \<lparr>sc_Pubkeys = [], sc_AggregatePubkey = []\<rparr>,
     bs_nextSyncCommittee = \<lparr>sc_Pubkeys = [], sc_AggregatePubkey = []\<rparr>,
     bs_nextWithdrawalIndex = 0, bs_nextWithdrawalValidatorIndex = 0,
     bs_depositRequestsStartIndex = 0, bs_depositBalanceToConsume = 0, bs_exitBalanceToConsume = 0,
     bs_earliestExitEpoch = 0, bs_consolidationBalanceToConsume = 0, bs_earliestConsolidationEpoch = 0,
     bs_pendingDeposits = [], bs_pendingPartialWithdrawals = [], bs_pendingConsolidations = [],
     bs_proposerLookahead = []\<rparr>"

text \<open>C15: exit requests that arrive within an epoch are admitted in full and in order at exactly the
  churn rate: the queue advances by the requested balance, from the first exitable epoch when it
  was empty, no epoch admits more than the per-epoch churn and none is skipped.\<close>

theorem exit_requests_at_churn_rate:
  assumes "valid_config c" and "0 < exit_churn c tab"
      and "unat (bs_exitBalanceToConsume s) \<le> exit_churn c tab" and "bs \<noteq> []"
      and "max (unat (bs_earliestExitEpoch s)) (first_exit c s) + sum_list (map unat bs) < 2 ^ 63"
      and "sum_list (map unat bs) + exit_churn c tab < 2 ^ 63"
  shows "\<exists>s'. process_exit_requests c tab bs s = Inr s' \<and>
           unat (bs_exitBalanceToConsume s') \<le> exit_churn c tab \<and>
           first_exit c s \<le> unat (bs_earliestExitEpoch s') \<and>
           int (unat (bs_earliestExitEpoch s')) * int (exit_churn c tab)
             - int (unat (bs_exitBalanceToConsume s'))
           = (if unat (bs_earliestExitEpoch s) < first_exit c s
              then int (first_exit c s) * int (exit_churn c tab) - int (exit_churn c tab)
              else int (unat (bs_earliestExitEpoch s)) * int (exit_churn c tab)
                   - int (unat (bs_exitBalanceToConsume s)))
             + int (sum_list (map unat bs))"
  using exit_queue.run_admits [OF assms(1,2,3,5,6)] assms(4)
  unfolding process_exit_requests_run exit_queue.admitted_def by blast

theorem exit_requests_at_churn_rate_witness:
  "\<exists>s'. process_exit_requests mainnetBeaconConfig 2080000000000 [32000000000, 2048000000000] state0
          = Inr s' \<and> unat (bs_exitBalanceToConsume s') \<le> 128000000000 \<and>
        15 \<le> unat (bs_earliestExitEpoch s') \<and>
        int (unat (bs_earliestExitEpoch s')) * 128000000000 - int (unat (bs_exitBalanceToConsume s'))
          = 15 * 128000000000 - 128000000000 + 2080000000000"
proof -
  have "ActivationExitChurnLimit mainnetBeaconConfig 2080000000000 = Inr 128000000000" by code_simp
  then have churn: "exit_churn mainnetBeaconConfig 2080000000000 = 128000000000"
    by (simp add: exit_churn_def)
  have "ToEpoch mainnetBeaconConfig (bs_slot state0) = Inr 10"
    "ActivationExitEpoch mainnetBeaconConfig 10 = 15" by code_simp+
  then have first: "first_exit mainnetBeaconConfig state0 = 15"
    by (simp only: first_exit_def sum.case) simp
  have "bs_exitBalanceToConsume state0 = 0" "bs_earliestExitEpoch state0 = 0"
    by (simp_all add: state0_def)
  then show ?thesis
    using exit_requests_at_churn_rate [OF valid_config_mainnet, of 2080000000000 state0
        "[32000000000, 2048000000000]"]
    by (simp add: churn first)
qed

lemma exit_preElectra_ok:
  assumes ok: "exit_info_ok c x (bs_validators s)" "length (bs_validators s) < 2 ^ 63"
      and i: "unat i < length (bs_validators s)" "ExitEpoch (bs_validators s ! unat i) = FarFutureEpoch c"
      and lim: "ActiveValidatorCount s (bs_slot s div SlotsPerEpoch c) = Inr n"
        "ValidatorExitChurnLimit c n = Inr lim" "1 \<le> lim" "valid_config c"
      and pre: "initiateValidatorExitPreElectra c s x = Inr x'" "HighestExitEpoch x' \<noteq> max_u64"
      and w: "ExitEpoch w = HighestExitEpoch x'"
  shows "exit_info_ok c x' ((bs_validators s)[unat i := w]) \<and> Churn x' \<le> lim \<and>
         ActivationExitEpoch c (bs_slot s div SlotsPerEpoch c) \<le> HighestExitEpoch x'"
proof -
  let ?e = "ActivationExitEpoch c (bs_slot s div SlotsPerEpoch c)" and ?vs = "bs_validators s"
  obtain y where y: "y = (if ?e > HighestExitEpoch x
        then x\<lparr>HighestExitEpoch := ?e, Churn := 0\<rparr> else x)"
      and full: "Churn y \<ge> lim \<longrightarrow> HighestExitEpoch y \<noteq> max_u64 \<and>
          x' = y\<lparr>HighestExitEpoch := HighestExitEpoch y + 1, Churn := 1\<rparr>"
      and room: "\<not> Churn y \<ge> lim \<longrightarrow> x' = y\<lparr>Churn := Churn y + 1\<rparr>"
    by (rule initiatePreElectra_cases [OF pre(1) lim(1,2,4)])
  have ff: "FarFutureEpoch c = max_u64" using lim(4) by simp
  have le: "?e \<le> HighestExitEpoch y" using y by auto
  show ?thesis
  proof (cases "Churn y \<ge> lim")
    case True
    then have x': "x' = y\<lparr>HighestExitEpoch := HighestExitEpoch y + 1, Churn := 1\<rparr>"
      and ne: "HighestExitEpoch y \<noteq> max_u64" using full by auto
    then have up: "HighestExitEpoch y < HighestExitEpoch y + 1"
      by (simp add: word_less_nat_alt unat_plus_one_u64)
    have oky: "exit_info_ok c y ?vs"
      using y ok(1) ne ff by (auto intro: exit_info_ok_advance)
    have "exit_info_ok c (y\<lparr>HighestExitEpoch := HighestExitEpoch y + 1, Churn := 0\<rparr>) ?vs"
      using pre(2) x' ff by (intro exit_info_ok_advance oky up) simp
    from exit_info_ok_assign [OF this i] w x' have "exit_info_ok c x' (?vs[unat i := w])"
      by simp
    with x' lim(3) le up show ?thesis by auto
  next
    case False
    then have x': "x' = y\<lparr>Churn := Churn y + 1\<rparr>" using room by auto
    have oky: "exit_info_ok c y ?vs"
      using y ok(1) pre(2) x' ff by (auto intro: exit_info_ok_advance)
    have "unat (Churn y) \<le> length ?vs"
      using oky exits_at_le by (metis exit_info_ok_def)
    then have c64: "unat (Churn y) + 1 < 2 ^ 64" using ok(2) by simp
    have "exit_info_ok c x' (?vs[unat i := w])"
      using exit_info_ok_assign [OF oky i _ c64] w x' by simp
    moreover have "Churn y + 1 \<le> lim"
      using False c64 unat_add_u64 [of "Churn y" 1] by (simp add: word_le_nat_alt word_less_nat_alt)
    ultimately show ?thesis using x' le by simp
  qed
qed

text \<open>C9: before Electra an initiated exit keeps ExitInfo in step with the registry and is scheduled no
  earlier than the first exitable epoch. With it the epoch that the validator is assigned has at most as many
  exits as the present exit churn limit; the number of exits of every other epoch stays what it was (it may exceed
  the present limit when the limit has fallen since).\<close>

theorem exits_per_epoch_bounded:
  assumes "valid_config c" and "bs_version s < Electra" and "length (bs_validators s) < 2 ^ 63"
      and "exit_info_ok c x (bs_validators s)"
      and "ActiveValidatorCount s (bs_slot s div SlotsPerEpoch c) = Inr n"
      and "ValidatorExitChurnLimit c n = Inr lim" and "1 \<le> lim"
      and "0 < MinValidatorWithdrawabilityDelay c"
      and "InitiateValidatorExit c i x s = Inr (s', x')"
  shows "exit_info_ok c x' (bs_validators s') \<and>
         exits_at (ExitEpoch (bs_validators s' ! unat i)) (bs_validators s') \<le> unat lim \<and>
         ActivationExitEpoch c (bs_slot s div SlotsPerEpoch c) \<le> ExitEpoch (bs_validators s' ! unat i) \<and>
         (\<forall>e. e \<noteq> FarFutureEpoch c \<longrightarrow> exits_at e (bs_validators s') =
            exits_at e (bs_validators s) + (if ExitEpoch (bs_validators s' ! unat i) = e then 1 else 0))"
proof -
  let ?v = "bs_validators s ! unat i"
  from assms(2,9) have i: "unat i < length (bs_validators s)" "ExitEpoch ?v = FarFutureEpoch c"
      and pre: "initiateValidatorExitPreElectra c s x = Inr x'"
      and fin: "finishExit c i ?v x' s = Inr (s', x')"
    by (auto simp: InitiateValidatorExit_def ValidatorAtIndex_def bindR_eq_Inr finishExit_Inr
        split: if_splits)
  define w where "w = ?v\<lparr>ExitEpoch := HighestExitEpoch x',
      WithdrawableEpoch := HighestExitEpoch x' + MinValidatorWithdrawabilityDelay c\<rparr>"
  have vs: "bs_validators s' = (bs_validators s)[unat i := w]"
    and sum: "unat (HighestExitEpoch x') + unat (MinValidatorWithdrawabilityDelay c) < 2 ^ 64"
    using fin by (simp_all add: finishExit_Inr w_def)
  have "HighestExitEpoch x' \<noteq> max_u64"
    using sum assms(8) by (auto simp: unat_max_u64 word_less_nat_alt)
  then have "exit_info_ok c x' (bs_validators s') \<and> Churn x' \<le> lim \<and>
      ActivationExitEpoch c (bs_slot s div SlotsPerEpoch c) \<le> HighestExitEpoch x'"
    unfolding vs by (intro exit_preElectra_ok [OF assms(4,3) i assms(5,6,7,1) pre]) (simp_all add: w_def)
  moreover have "exits_at e (bs_validators s') = exits_at e (bs_validators s) + (if ExitEpoch w = e then 1 else 0)"
    if "e \<noteq> FarFutureEpoch c" for e
    using exits_at_update [OF i(1), of e w] i(2) that unfolding vs by simp
  ultimately show ?thesis
    using i(1) vs by (auto simp: w_def exit_info_ok_def word_le_nat_alt)
qed

theorem exits_per_epoch_bounded_witness:
  "\<exists>s' x'. InitiateValidatorExit mainnetBeaconConfig 1
       \<lparr>HighestExitEpoch = 0, Churn = 0, xi_TotalActiveBalance = 2080000000000\<rparr>
       (state0\<lparr>bs_version := Deneb\<rparr>) = Inr (s', x') \<and>
     exits_at (ExitEpoch (bs_validators s' ! 1)) (bs_validators s') \<le> 4"
proof -
  let ?s = "state0\<lparr>bs_version := Deneb\<rparr>"
  let ?x = "\<lparr>HighestExitEpoch = 0, Churn = 0, xi_TotalActiveBalance = 2080000000000\<rparr> :: ExitInfo"
  have "\<not> isl (InitiateValidatorExit mainnetBeaconConfig 1 ?x ?s)" by code_simp
  then obtain s' x' where r: "InitiateValidatorExit mainnetBeaconConfig 1 ?x ?s = Inr (s', x')"
    by (metis surj_pair sum.collapse(2))
  have "ActiveValidatorCount ?s (bs_slot ?s div SlotsPerEpoch mainnetBeaconConfig) = Inr 2"
    "ValidatorExitChurnLimit mainnetBeaconConfig 2 = Inr 4" "0 < MinValidatorWithdrawabilityDelay mainnetBeaconConfig"
    "bs_version ?s < Electra"
    by code_simp+
  moreover have "exit_info_ok mainnetBeaconConfig ?x (bs_validators ?s)"
    by (simp add: exit_info_ok_def exits_at_def state0_def val0_def mainnetBeaconConfig_def max_u64_def)
  moreover have "length (bs_validators ?s) < 2 ^ 63" by (simp add: state0_def)
  ultimately show ?thesis
    using exits_per_epoch_bounded [OF valid_config_mainnet, of ?s ?x 2 4 1 s' x'] r by auto
qed

end
