(* ===== verification/Epoch_Processing.thy ===== *)
theory Epoch_Processing
  imports Validators "HOL-Library.Product_Lexorder"
begin

text \<open>
  The epoch transition of \<^verbatim>\<open>src/beacon-chain/core/epoch/epoch_processing.go\<close>: registry updates with
  the inactivity ejection of this fork, slashings, effective balances and the resets at the end of
  an epoch. The counters that Go keeps as \<^verbatim>\<open>int\<close> are integers. The two Merkle roots that
  \<^verbatim>\<open>ProcessHistoricalDataUpdate\<close> stores are functions the caller supplies.
\<close>

section \<open>The inactivity score that ejects\<close>

definition inactivityEjectionMinDowntimeSeconds :: u64 where
  "inactivityEjectionMinDowntimeSeconds = 6 * 60 * 60"

definition duration_Milliseconds :: "int \<Rightarrow> int" where
  "duration_Milliseconds d = quot_i64 d Millisecond"

definition InactivityEjectionThreshold :: "BeaconChainConfig \<Rightarrow> Epoch \<Rightarrow> u64 result" where
  "InactivityEjectionThreshold c epoch =
     (let es = EpochStart c epoch;
          start = (case es of Inl e \<Rightarrow> 0 | Inr slot \<Rightarrow> slot) in
      bindR (SlotDurationAt c start) (\<lambda>d.
      let epochMillis = u64_of_i64 (duration_Milliseconds d) * SlotsPerEpoch c in
      if isl es \<or> epochMillis = 0 \<or> InactivityScoreBias c = 0 then Inr max_u64
      else let q = inactivityEjectionMinDowntimeSeconds * 1000 div epochMillis;
               leakEpochs = (if q = 0 then 1 else q)
           in Inr (leakEpochs * InactivityScoreBias c)))"

section \<open>Registry updates\<close>

record RegistryScan =
  eligibleForActivationQ :: "ValidatorIndex list"
  eligibleForActivation :: "ValidatorIndex list"
  eligibleForEjection :: "ValidatorIndex list"
  inactivityCandidates :: "ValidatorIndex list"
  activeCount :: int

definition empty_scan :: RegistryScan where
  "empty_scan = \<lparr>eligibleForActivationQ = [], eligibleForActivation = [], eligibleForEjection = [],
     inactivityCandidates = [], activeCount = 0\<rparr>"

text \<open>The inactivity scores, empty where the state has none.\<close>

definition registryScores :: "BeaconState \<Rightarrow> u64 list result" where
  "registryScores st =
     (if bs_version st \<ge> Altair
      then bindR (wrapR ''could not read inactivity scores'' (InactivityScores st)) (\<lambda>scores.
           if length scores > 0 \<and> length scores \<noteq> NumValidators st
           then Inl (Err ''inactivity scores length does not match validator count'')
           else Inr scores)
      else Inr [])"

text \<open>The callback of the read-only pass over the registry.\<close>

definition registry_visit ::
    "BeaconChainConfig \<Rightarrow> BeaconState \<Rightarrow> Epoch \<Rightarrow> u64 list \<Rightarrow> u64 \<Rightarrow> nat \<Rightarrow> Validator \<Rightarrow> RegistryScan
       \<Rightarrow> RegistryScan result" where
  "registry_visit c st currentEpoch inactivityScores inactivityThreshold i val r =
     bindR (if length inactivityScores > 0
            then bindR (idx inactivityScores i) (\<lambda>score. Inr (score \<ge> inactivityThreshold))
            else Inr False) (\<lambda>highInactivity.
     let k = of_nat i;
         isActive = IsActiveValidatorUsingTrie val currentEpoch;
         belowEjectionBalance = EffectiveBalance val \<le> EjectionBalance c;
         r1 = (if IsEligibleForActivationQueue c val currentEpoch
               then r\<lparr>eligibleForActivationQ := eligibleForActivationQ r @ [k]\<rparr> else r);
         r2 = (if isActive then r1\<lparr>activeCount := activeCount r1 + 1\<rparr> else r1);
         r3 = (if isActive \<and> belowEjectionBalance
               then r2\<lparr>eligibleForEjection := eligibleForEjection r2 @ [k]\<rparr>
               else if isActive \<and> highInactivity
               then r2\<lparr>inactivityCandidates := inactivityCandidates r2 @ [k]\<rparr> else r2)
     in Inr (if IsEligibleForActivationUsingROVal c st val
             then r3\<lparr>eligibleForActivation := eligibleForActivation r3 @ [k]\<rparr> else r3))"

text \<open>The quorum floor: what remains of the inactivity candidates.\<close>

definition capInactivity :: "RegistryScan \<Rightarrow> ValidatorIndex list" where
  "capInactivity r =
     (if length (inactivityCandidates r) > 0
      then let flr = (2 * activeCount r) div 3;
               flr1 = (if flr < 1 then 1 else flr);
               capacity = activeCount r - int (length (eligibleForEjection r)) - flr1;
               capacity1 = (if capacity < 0 then 0 else capacity);
               cands = (if int (length (inactivityCandidates r)) > capacity1
                        then take (nat capacity1) (inactivityCandidates r)
                        else inactivityCandidates r)
           in eligibleForEjection r @ cands
      else eligibleForEjection r)"

definition markEligible :: "Epoch \<Rightarrow> ValidatorIndex \<Rightarrow> BeaconState \<Rightarrow> BeaconState result" where
  "markEligible activationEligibilityEpoch i st =
     bindR (ValidatorAtIndex st i) (\<lambda>v.
     UpdateValidatorAtIndex i (v\<lparr>ActivationEligibilityEpoch := activationEligibilityEpoch\<rparr>) st)"

definition markActive :: "Epoch \<Rightarrow> ValidatorIndex \<Rightarrow> BeaconState \<Rightarrow> BeaconState result" where
  "markActive activationExitEpoch i st =
     bindR (ValidatorAtIndex st i) (\<lambda>v.
     UpdateValidatorAtIndex i (v\<lparr>ActivationEpoch := activationExitEpoch\<rparr>) st)"

definition ejectAll ::
    "BeaconChainConfig \<Rightarrow> ValidatorIndex list \<Rightarrow> BeaconState \<Rightarrow> BeaconState result" where
  "ejectAll c ejections st =
     (if length ejections > 0
      then bindR (ExitInformation c st) (\<lambda>exitInfo.
           bindR (foldR (\<lambda>i (st, x). wrapR ''could not initiate exit for validator''
                    (ignoreAlreadyExited (st, x) (InitiateValidatorExit c i x st)))
                  ejections (st, exitInfo)) (\<lambda>(st', x'). Inr st'))
      else Inr st)"

text \<open>\<^verbatim>\<open>sort.Sort\<close> on \<^verbatim>\<open>sortableIndices\<close>: \<^verbatim>\<open>Less\<close> is a strict total order on the indices of the
  registry, so the sorted sequence is unique.\<close>

definition eligibilityKey :: "BeaconState \<Rightarrow> ValidatorIndex \<Rightarrow> Epoch \<times> ValidatorIndex" where
  "eligibilityKey st i = (case ValidatorAtIndexReadOnly st i of
     Inl e \<Rightarrow> (0, i) | Inr v \<Rightarrow> (ActivationEligibilityEpoch v, i))"

definition sortIndices :: "BeaconState \<Rightarrow> ValidatorIndex list \<Rightarrow> ValidatorIndex list" where
  "sortIndices st indices = sort_key (eligibilityKey st) indices"

definition activateUpToChurn ::
    "BeaconChainConfig \<Rightarrow> Epoch \<Rightarrow> ValidatorIndex list \<Rightarrow> BeaconState \<Rightarrow> BeaconState result" where
  "activateUpToChurn c currentEpoch eligible st =
     (let sorted = sortIndices st eligible;
          limit = of_nat (length sorted) in
      bindR (wrapR ''could not get active validator count'' (ActiveValidatorCount st currentEpoch)) (\<lambda>n.
      bindR (ValidatorActivationChurnLimit c n) (\<lambda>churn0.
      bindR (if bs_version st \<ge> Deneb then ValidatorActivationChurnLimitDeneb c n else Inr churn0)
        (\<lambda>churnLimit.
      let limit1 = (if churnLimit < limit then churnLimit else limit) in
      foldR (markActive (ActivationExitEpoch c currentEpoch)) (take (unat limit1) sorted) st))))"

definition ProcessRegistryUpdates :: "BeaconChainConfig \<Rightarrow> BeaconState \<Rightarrow> BeaconState result" where
  "ProcessRegistryUpdates c st =
     bindR (CurrentEpoch c st) (\<lambda>currentEpoch.
     bindR (registryScores st) (\<lambda>scores.
     bindR (InactivityEjectionThreshold c currentEpoch) (\<lambda>threshold.
     bindR (ReadFromEveryValidator st (registry_visit c st currentEpoch scores threshold) empty_scan) (\<lambda>r.
     let ejections = capInactivity r in
     bindR (foldR (markEligible (currentEpoch + 1)) (eligibleForActivationQ r) st) (\<lambda>st1.
     bindR (ejectAll c ejections st1) (\<lambda>st2.
     activateUpToChurn c currentEpoch (eligibleForActivation r) st2))))))"

section \<open>Slashings\<close>

definition state_ProportionalSlashingMultiplier :: "BeaconChainConfig \<Rightarrow> BeaconState \<Rightarrow> u64 result" where
  "state_ProportionalSlashingMultiplier c b =
     (if bs_version b \<ge> Bellatrix then Inr (ProportionalSlashingMultiplierBellatrix c)
      else if bs_version b \<ge> Altair then Inr (ProportionalSlashingMultiplierAltair c)
      else if bs_version b \<ge> Phase0 then Inr (ProportionalSlashingMultiplier c)
      else Inl (errNotSupported ''ProportionalSlashingMultiplier'' (bs_version b)))"

definition state_InactivityPenaltyQuotient :: "BeaconChainConfig \<Rightarrow> BeaconState \<Rightarrow> u64 result" where
  "state_InactivityPenaltyQuotient c b =
     (if bs_version b \<ge> Bellatrix then Inr (InactivityPenaltyQuotientBellatrix c)
      else if bs_version b \<ge> Altair then Inr (InactivityPenaltyQuotientAltair c)
      else if bs_version b \<ge> Phase0 then Inr (InactivityPenaltyQuotient c)
      else Inl (errNotSupported ''InactivityPenaltyQuotient'' (bs_version b)))"

definition slashings_visit ::
    "BeaconChainConfig \<Rightarrow> int \<Rightarrow> Epoch \<Rightarrow> Gwei \<Rightarrow> Gwei \<Rightarrow> Gwei \<Rightarrow> nat \<Rightarrow> Validator \<Rightarrow> Gwei list \<times> bool
       \<Rightarrow> (Gwei list \<times> bool) result" where
  "slashings_visit c ver currentEpoch totalBalance minSlashing perIncrement i val = (\<lambda>(bals, changed).
     (let increment = EffectiveBalanceIncrement c;
          correctEpoch = (currentEpoch + EpochsPerSlashingsVector c div 2 = WithdrawableEpoch val) in
      if Slashed val \<and> correctEpoch
      then bindR (udiv (EffectiveBalance val) increment) (\<lambda>increments.
           bindR (if ver \<ge> Electra then Inr (perIncrement * increments)
                  else bindR (udiv (increments * minSlashing) totalBalance) (\<lambda>q.
                       Inr (q * increment))) (\<lambda>penalty.
           bindR (idx bals i) (\<lambda>b.
           Inr (bals[i := DecreaseBalanceWithVal b penalty], True))))
      else Inr (bals, changed)))"

definition ProcessSlashings :: "BeaconChainConfig \<Rightarrow> BeaconState \<Rightarrow> BeaconState result" where
  "ProcessSlashings c st =
     bindR (wrapR ''could not get proportional slashing multiplier''
              (state_ProportionalSlashingMultiplier c st)) (\<lambda>slashingMultiplier.
     bindR (CurrentEpoch c st) (\<lambda>currentEpoch.
     bindR (wrapR ''could not get total active balance'' (computeTotalActiveBalance c st)) (\<lambda>totalBalance.
     bindR (foldR (\<lambda>slashing acc. Add64 acc slashing) (bs_slashings st) 0) (\<lambda>totalSlashing.
     let minSlashing = min (totalSlashing * slashingMultiplier) totalBalance in
     bindR (if bs_version st \<ge> Electra
            then bindR (udiv totalBalance (EffectiveBalanceIncrement c)) (\<lambda>n. udiv minSlashing n)
            else Inr 0) (\<lambda>perIncrement.
     bindR (ReadFromEveryValidator st
              (slashings_visit c (bs_version st) currentEpoch totalBalance minSlashing perIncrement)
              (bs_balances st, False)) (\<lambda>(bals, changed).
     if changed then SetBalances bals st else Inr st))))))"

section \<open>End of the epoch\<close>

definition ProcessEth1DataReset :: "BeaconChainConfig \<Rightarrow> BeaconState \<Rightarrow> BeaconState result" where
  "ProcessEth1DataReset c st =
     bindR (CurrentEpoch c st) (\<lambda>currentEpoch.
     bindR (umod (currentEpoch + 1) (EpochsPerEth1VotingPeriod c)) (\<lambda>r.
     if r = 0 then SetEth1DataVotes [] st else Inr st))"

text \<open>The callback of \<^verbatim>\<open>ProcessEffectiveBalanceUpdates\<close>.\<close>

definition effectiveBalance_visit ::
    "BeaconChainConfig \<Rightarrow> Gwei \<Rightarrow> Gwei \<Rightarrow> Gwei list \<Rightarrow> nat \<Rightarrow> Validator \<Rightarrow> Validator option result" where
  "effectiveBalance_visit c downwardThreshold upwardThreshold bals i val =
     (if i \<ge> length bals then Inl (Err ''validator index exceeds validator length in state'')
      else bindR (idx bals i) (\<lambda>balance.
        if balance + downwardThreshold < EffectiveBalance val
           \<or> EffectiveBalance val + upwardThreshold < balance
        then bindR (umod balance (EffectiveBalanceIncrement c)) (\<lambda>r.
             let effectiveBal = min (MaxEffectiveBalance c) (balance - r)
             in Inr (if effectiveBal \<noteq> EffectiveBalance val
                     then Some (val\<lparr>EffectiveBalance := effectiveBal\<rparr>) else None))
        else Inr None))"

definition ProcessEffectiveBalanceUpdates :: "BeaconChainConfig \<Rightarrow> BeaconState \<Rightarrow> BeaconState result" where
  "ProcessEffectiveBalanceUpdates c st =
     bindR (udiv (EffectiveBalanceIncrement c) (HysteresisQuotient c)) (\<lambda>hysteresisInc.
     let downwardThreshold = hysteresisInc * HysteresisDownwardMultiplier c;
         upwardThreshold = hysteresisInc * HysteresisUpwardMultiplier c
     in ApplyToEveryValidator
          (effectiveBalance_visit c downwardThreshold upwardThreshold (bs_balances st)) st)"

definition ProcessSlashingsReset :: "BeaconChainConfig \<Rightarrow> BeaconState \<Rightarrow> BeaconState result" where
  "ProcessSlashingsReset c st =
     bindR (CurrentEpoch c st) (\<lambda>currentEpoch.
     bindR (umod (currentEpoch + 1) (EpochsPerSlashingsVector c)) (\<lambda>slashedEpoch.
     if of_nat (length (bs_slashings st)) \<noteq> EpochsPerSlashingsVector c
     then Inl (Err ''state slashing length different than EpochsPerHistoricalVector'')
     else UpdateSlashingsAtIndex slashedEpoch 0 st))"

definition ProcessRandaoMixesReset :: "BeaconChainConfig \<Rightarrow> BeaconState \<Rightarrow> BeaconState result" where
  "ProcessRandaoMixesReset c st =
     bindR (CurrentEpoch c st) (\<lambda>currentEpoch.
     if of_nat (RandaoMixesLength st) \<noteq> EpochsPerHistoricalVector c
     then Inl (Err ''state randao length different than EpochsPerHistoricalVector'')
     else bindR (RandaoMix c st currentEpoch) (\<lambda>mix.
          bindR (umod (currentEpoch + 1) (EpochsPerHistoricalVector c)) (\<lambda>i.
          UpdateRandaoMixesAtIndex i mix st)))"

definition ProcessHistoricalDataUpdate ::
    "BeaconChainConfig \<Rightarrow> (root list \<Rightarrow> root result) \<Rightarrow> (root list \<Rightarrow> root list \<Rightarrow> root result)
       \<Rightarrow> BeaconState \<Rightarrow> BeaconState result" where
  "ProcessHistoricalDataUpdate c ArraysRoot HistoricalBatchRoot st =
     bindR (CurrentEpoch c st) (\<lambda>currentEpoch.
     bindR (Slot_DivSlot (SlotsPerHistoricalRoot c) (SlotsPerEpoch c)) (\<lambda>epochsPerHistoricalRoot.
     bindR (Epoch_Mod (currentEpoch + 1) epochsPerHistoricalRoot) (\<lambda>r.
     if r = 0
     then if bs_version st \<ge> Capella
          then bindR (ArraysRoot (bs_blockRoots st)) (\<lambda>br.
               bindR (ArraysRoot (bs_stateRoots st)) (\<lambda>sr.
               AppendHistoricalSummaries \<lparr>hs_BlockSummaryRoot = br, hs_StateSummaryRoot = sr\<rparr> st))
          else bindR (wrapR ''could not hash historical batch''
                        (HistoricalBatchRoot (bs_blockRoots st) (bs_stateRoots st))) (\<lambda>batchRoot.
               AppendHistoricalRoots batchRoot st)
     else Inr st)))"

definition ProcessParticipationRecordUpdates :: "BeaconState \<Rightarrow> BeaconState result" where
  "ProcessParticipationRecordUpdates st = RotateAttestations st"

definition ProcessFinalUpdates ::
    "BeaconChainConfig \<Rightarrow> (root list \<Rightarrow> root result) \<Rightarrow> (root list \<Rightarrow> root list \<Rightarrow> root result)
       \<Rightarrow> BeaconState \<Rightarrow> BeaconState result" where
  "ProcessFinalUpdates c ArraysRoot HistoricalBatchRoot st =
     bindR (ProcessEth1DataReset c st) (\<lambda>st.
     bindR (ProcessEffectiveBalanceUpdates c st) (\<lambda>st.
     bindR (ProcessSlashingsReset c st) (\<lambda>st.
     bindR (ProcessRandaoMixesReset c st) (\<lambda>st.
     bindR (ProcessHistoricalDataUpdate c ArraysRoot HistoricalBatchRoot st) (\<lambda>st.
     ProcessParticipationRecordUpdates st)))))"

section \<open>What the pass over the registry collects\<close>

definition pick :: "(nat \<Rightarrow> Validator \<Rightarrow> bool) \<Rightarrow> nat \<Rightarrow> Validator list \<Rightarrow> ValidatorIndex list" where
  "pick P k vs = map (\<lambda>(i, v). of_nat i) (filter (\<lambda>(i, v). P i v) (enumerate k vs))"

lemma pick_Nil [simp]: "pick P k [] = []"
  by (simp add: pick_def)

lemma pick_Cons [simp]: "pick P k (v # vs) = (if P k v then [of_nat k] else []) @ pick P (Suc k) vs"
  by (simp add: pick_def)

lemma pick_disjoint_length:
  "length (pick P k vs) + length (pick P' k vs) \<le> length (filter Q vs)"
  if "\<And>i v. P i v \<Longrightarrow> Q v" "\<And>i v. P' i v \<Longrightarrow> Q v" "\<And>i v. \<not> (P i v \<and> P' i v)"
proof (induction vs arbitrary: k)
  case (Cons v vs)
  from Cons [of "Suc k"] that [of k v] show ?case by auto
qed simp

lemma pick_unat:
  assumes "k + length vs \<le> 2 ^ 64" "i \<in> set (pick P k vs)"
  shows "k \<le> unat i \<and> unat i < k + length vs \<and> P (unat i) (vs ! (unat i - k))"
  using assms
proof (induction vs arbitrary: k)
  case (Cons v vs)
  have k: "unat (of_nat k :: u64) = k" using Cons.prems(1) by (intro unat_of_nat_u64) simp
  show ?case
  proof (cases "i \<in> set (pick P (Suc k) vs)")
    case True
    from Cons.IH [of "Suc k"] Cons.prems(1) True show ?thesis by (auto simp: nth_Cons')
  next
    case False
    with Cons.prems(2) have "P k v" "i = of_nat k" by (auto split: if_splits)
    then show ?thesis using k by simp
  qed
qed simp

lemma pick_distinct: "k + length vs \<le> 2 ^ 64 \<Longrightarrow> distinct (pick P k vs)"
proof (induction vs arbitrary: k)
  case (Cons v vs)
  have "(of_nat k :: u64) \<notin> set (pick P (Suc k) vs)"
  proof
    assume "(of_nat k :: u64) \<in> set (pick P (Suc k) vs)"
    from pick_unat [OF _ this] Cons.prems have "Suc k \<le> unat (of_nat k :: u64)" by simp
    then show False using Cons.prems by (simp add: unat_of_nat_u64)
  qed
  with Cons show ?case by auto
qed simp

text \<open>The five results of the pass, as conditions on a validator and its index.\<close>

definition high_score :: "u64 list \<Rightarrow> u64 \<Rightarrow> nat \<Rightarrow> bool" where
  "high_score scores threshold i \<longleftrightarrow> scores \<noteq> [] \<and> threshold \<le> scores ! i"

definition to_eject :: "BeaconChainConfig \<Rightarrow> Epoch \<Rightarrow> nat \<Rightarrow> Validator \<Rightarrow> bool" where
  "to_eject c e i v \<longleftrightarrow> IsActiveValidatorUsingTrie v e \<and> EffectiveBalance v \<le> EjectionBalance c"

definition inactive_long :: "BeaconChainConfig \<Rightarrow> Epoch \<Rightarrow> u64 list \<Rightarrow> u64 \<Rightarrow> nat \<Rightarrow> Validator \<Rightarrow> bool" where
  "inactive_long c e scores threshold i v \<longleftrightarrow>
     IsActiveValidatorUsingTrie v e \<and> \<not> EffectiveBalance v \<le> EjectionBalance c \<and>
     high_score scores threshold i"

definition active_count :: "Epoch \<Rightarrow> Validator list \<Rightarrow> nat" where
  "active_count e vs = length (filter (\<lambda>v. IsActiveValidatorUsingTrie v e) vs)"

definition scan_result ::
    "BeaconChainConfig \<Rightarrow> BeaconState \<Rightarrow> Epoch \<Rightarrow> u64 list \<Rightarrow> u64 \<Rightarrow> nat \<Rightarrow> Validator list \<Rightarrow> RegistryScan
       \<Rightarrow> RegistryScan" where
  "scan_result c st e scores threshold k vs r =
     \<lparr>eligibleForActivationQ = eligibleForActivationQ r
        @ pick (\<lambda>i v. IsEligibleForActivationQueue c v e) k vs,
      eligibleForActivation = eligibleForActivation r
        @ pick (\<lambda>i v. IsEligibleForActivationUsingROVal c st v) k vs,
      eligibleForEjection = eligibleForEjection r @ pick (to_eject c e) k vs,
      inactivityCandidates = inactivityCandidates r @ pick (inactive_long c e scores threshold) k vs,
      activeCount = activeCount r + int (active_count e vs)\<rparr>"

lemma registry_visit_eq:
  assumes "scores = [] \<or> i < length scores"
  shows "registry_visit c st e scores threshold i v r = Inr (scan_result c st e scores threshold i [v] r)"
proof -
  have "registry_visit c st e scores threshold i v r =
      Inr (let k = of_nat i;
         isActive = IsActiveValidatorUsingTrie v e;
         belowEjectionBalance = EffectiveBalance v \<le> EjectionBalance c;
         r1 = (if IsEligibleForActivationQueue c v e
               then r\<lparr>eligibleForActivationQ := eligibleForActivationQ r @ [k]\<rparr> else r);
         r2 = (if isActive then r1\<lparr>activeCount := activeCount r1 + 1\<rparr> else r1);
         r3 = (if isActive \<and> belowEjectionBalance
               then r2\<lparr>eligibleForEjection := eligibleForEjection r2 @ [k]\<rparr>
               else if isActive \<and> high_score scores threshold i
               then r2\<lparr>inactivityCandidates := inactivityCandidates r2 @ [k]\<rparr> else r2)
     in (if IsEligibleForActivationUsingROVal c st v
             then r3\<lparr>eligibleForActivation := eligibleForActivation r3 @ [k]\<rparr> else r3))"
    using assms by (cases "scores = []") (simp_all add: registry_visit_def high_score_def Let_def)
  then show ?thesis
    by (cases r) (simp add: scan_result_def to_eject_def inactive_long_def active_count_def Let_def)
qed

lemma scan_result_Nil: "scan_result c st e scores threshold k [] r = r"
  by (simp add: scan_result_def active_count_def)

lemma scan_result_Cons:
  "scan_result c st e scores threshold (Suc k) vs (scan_result c st e scores threshold k [v] r)
     = scan_result c st e scores threshold k (v # vs) r"
  by (simp add: scan_result_def active_count_def)

lemma registry_scan_from:
  assumes "scores = [] \<or> k + length vs \<le> length scores"
  shows "foldR (\<lambda>(i, v). registry_visit c st e scores threshold i v) (enumerate k vs) r
           = Inr (scan_result c st e scores threshold k vs r)"
  using assms
proof (induction vs arbitrary: k r)
  case (Cons v vs)
  have "scores = [] \<or> k < length scores" "scores = [] \<or> Suc k + length vs \<le> length scores"
    using Cons.prems by auto
  with Cons.IH [of "Suc k"] show ?case by (simp add: registry_visit_eq scan_result_Cons)
qed (simp add: scan_result_Nil)

lemma registry_scan:
  assumes "scores = [] \<or> length scores = length (bs_validators st)"
  shows "ReadFromEveryValidator st (registry_visit c st e scores threshold) empty_scan
           = Inr (scan_result c st e scores threshold 0 (bs_validators st) empty_scan)"
  using assms registry_scan_from [of scores 0 "bs_validators st" c st e threshold empty_scan]
  by (auto simp: ReadFromEveryValidator_def)

lemma registryScores_length:
  "registryScores st = Inr scores \<Longrightarrow> scores = [] \<or> length scores = length (bs_validators st)"
  by (auto simp: registryScores_def NumValidators_def bindR_eq_Inr split: if_splits)

section \<open>Which exits a registry update can start\<close>

text \<open>Outside the indices in \<open>I\<close> no exit epoch changes.\<close>

definition exits_within :: "nat set \<Rightarrow> BeaconState \<Rightarrow> BeaconState \<Rightarrow> bool" where
  "exits_within I s s' \<longleftrightarrow> length (bs_validators s') = length (bs_validators s) \<and>
     (\<forall>j < length (bs_validators s). j \<notin> I \<longrightarrow>
        ExitEpoch (bs_validators s' ! j) = ExitEpoch (bs_validators s ! j))"

lemma exits_within_refl: "exits_within I s s"
  by (simp add: exits_within_def)

lemma exits_within_trans: "exits_within I s t \<Longrightarrow> exits_within I t u \<Longrightarrow> exits_within I s u"
  by (simp add: exits_within_def)

lemma exits_within_update:
  assumes "UpdateValidatorAtIndex i v s = Inr s'"
      and "unat i \<in> I \<or> ExitEpoch v = ExitEpoch (bs_validators s ! unat i)"
  shows "exits_within I s s'"
  using assms by (auto simp: exits_within_def UpdateValidatorAtIndex_def bindR_eq_Inr nth_list_update)

lemma markEligible_exits: "markEligible e i s = Inr s' \<Longrightarrow> exits_within I s s'"
  by (auto simp: markEligible_def ValidatorAtIndex_def bindR_eq_Inr elim!: exits_within_update)

lemma markActive_exits: "markActive e i s = Inr s' \<Longrightarrow> exits_within I s s'"
  by (auto simp: markActive_def ValidatorAtIndex_def bindR_eq_Inr elim!: exits_within_update)

lemma exitEpochAndUpdateChurn_validators:
  "exitEpochAndUpdateChurn c tab b s = Inr (e, s') \<Longrightarrow> bs_validators s' = bs_validators s"
  by (auto simp: exitEpochAndUpdateChurn_def bindR_eq_Inr Let_def split: if_splits)

lemma ExitEpochAndUpdateChurn_validators:
  "ExitEpochAndUpdateChurn c b s = Inr (e, s') \<Longrightarrow> bs_validators s' = bs_validators s"
  by (auto simp: ExitEpochAndUpdateChurn_def bindR_eq_Inr since_Inr exitEpochAndUpdateChurn_validators)

lemma finishExit_exits:
  "finishExit c i v x s1 = Inr (s', x') \<Longrightarrow> bs_validators s1 = bs_validators s \<Longrightarrow> unat i \<in> I \<Longrightarrow>
     exits_within I s s'"
  by (auto simp: finishExit_Inr exits_within_def nth_list_update)

lemma InitiateValidatorExit_exits:
  assumes "InitiateValidatorExit c i x s = Inr (s', x')" "unat i \<in> I"
  shows "exits_within I s s'"
  using assms
  by (auto simp: InitiateValidatorExit_def bindR_eq_Inr split: if_splits
      dest!: ExitEpochAndUpdateChurn_validators intro: finishExit_exits)

lemma foldR_exits:
  assumes "foldR f xs s = Inr t" "\<And>x s s'. x \<in> set xs \<Longrightarrow> f x s = Inr s' \<Longrightarrow> exits_within I s s'"
  shows "exits_within I s t"
  using foldR_invariant [where P = "exits_within I s", OF assms(1) exits_within_refl]
    assms(2) exits_within_trans by blast

lemma ejectAll_exits:
  assumes "ejectAll c es s = Inr t"
  shows "exits_within (unat ` set es) s t"
proof (cases "es = []")
  case True
  then show ?thesis using assms by (simp add: ejectAll_def exits_within_refl)
next
  case False
  let ?step = "\<lambda>i (st, x). wrapR ''could not initiate exit for validator''
                 (ignoreAlreadyExited (st, x) (InitiateValidatorExit c i x st))"
  obtain x0 x' where run: "foldR ?step es (s, x0) = Inr (t, x')"
    using assms False by (auto simp: ejectAll_def)
  have "exits_within (unat ` set es) s (fst (t, x'))"
  proof (rule foldR_invariant [where P = "\<lambda>p. exits_within (unat ` set es) s (fst p)", OF run])
    show "exits_within (unat ` set es) s (fst (s, x0))" by (simp add: exits_within_refl)
  next
    fix i and p p' :: "BeaconState \<times> ExitInfo"
    assume i: "i \<in> set es" and p: "exits_within (unat ` set es) s (fst p)" and st: "?step i p = Inr p'"
    obtain st x where px: "p = (st, x)" by (cases p)
    have "exits_within (unat ` set es) st (fst p')"
      using st i px
      by (auto simp: ignoreAlreadyExited_def exits_within_refl split: sum.splits if_splits
          intro: InitiateValidatorExit_exits)
    then show "exits_within (unat ` set es) s (fst p')" using p px exits_within_trans by auto
  qed
  then show ?thesis by simp
qed

lemma activateUpToChurn_exits:
  "activateUpToChurn c e xs s = Inr t \<Longrightarrow> exits_within I s t"
  by (auto simp: activateUpToChurn_def Let_def elim!: foldR_exits intro: markActive_exits)

text \<open>The run of a registry update, opened up.\<close>

lemma ProcessRegistryUpdates_steps:
  assumes "ProcessRegistryUpdates c s = Inr s'" "valid_config c"
  obtains scores threshold r st1 st2 where "registryScores s = Inr scores"
    and "InactivityEjectionThreshold c (bs_slot s div SlotsPerEpoch c) = Inr threshold"
    and "r = scan_result c s (bs_slot s div SlotsPerEpoch c) scores threshold 0 (bs_validators s) empty_scan"
    and "\<And>I. exits_within I s st1" and "ejectAll c (capInactivity r) st1 = Inr st2" and "\<And>I. exits_within I st2 s'"
proof -
  let ?e = "bs_slot s div SlotsPerEpoch c"
  obtain scores threshold r st1 st2 where sc: "registryScores s = Inr scores"
      and th: "InactivityEjectionThreshold c ?e = Inr threshold"
      and r: "ReadFromEveryValidator s (registry_visit c s ?e scores threshold) empty_scan = Inr r"
      and st1: "foldR (markEligible (?e + 1)) (eligibleForActivationQ r) s = Inr st1"
      and st2: "ejectAll c (capInactivity r) st1 = Inr st2"
      and s': "activateUpToChurn c ?e (eligibleForActivation r) st2 = Inr s'"
    using assms by (auto simp: ProcessRegistryUpdates_def CurrentEpoch_def Let_def ToEpoch_def)
  have "r = scan_result c s ?e scores threshold 0 (bs_validators s) empty_scan"
    using r registry_scan [OF registryScores_length [OF sc]] by simp
  moreover have "exits_within I s st1" for I by (rule foldR_exits [OF st1 markEligible_exits])
  ultimately show ?thesis using that [OF sc th _ _ st2 activateUpToChurn_exits [OF s']] by blast
qed

lemma ProcessRegistryUpdates_run:
  assumes "ProcessRegistryUpdates c s = Inr s'" "valid_config c"
  obtains scores threshold where "registryScores s = Inr scores"
    and "InactivityEjectionThreshold c (bs_slot s div SlotsPerEpoch c) = Inr threshold"
    and "exits_within (unat ` set (capInactivity (scan_result c s (bs_slot s div SlotsPerEpoch c)
           scores threshold 0 (bs_validators s) empty_scan))) s s'"
proof (rule ProcessRegistryUpdates_steps [OF assms])
  fix scores threshold r st1 st2
  assume run: "registryScores s = Inr scores"
    "InactivityEjectionThreshold c (bs_slot s div SlotsPerEpoch c) = Inr threshold"
    "r = scan_result c s (bs_slot s div SlotsPerEpoch c) scores threshold 0 (bs_validators s) empty_scan"
    and steps: "\<And>I. exits_within I s st1" "ejectAll c (capInactivity r) st1 = Inr st2" "\<And>I. exits_within I st2 s'"
  have "exits_within (unat ` set (capInactivity r)) s s'"
    by (rule exits_within_trans [OF steps(1) exits_within_trans [OF ejectAll_exits [OF steps(2)] steps(3)]])
  then show ?thesis using that [OF run(1,2)] run(3) by simp
qed

section \<open>The quorum floor\<close>

definition below_ejection :: "BeaconChainConfig \<Rightarrow> Epoch \<Rightarrow> Validator list \<Rightarrow> nat" where
  "below_ejection c e vs =
     length (filter (\<lambda>v. IsActiveValidatorUsingTrie v e \<and> EffectiveBalance v \<le> EjectionBalance c) vs)"

text \<open>The active validators whose exit epoch the transition from \<open>s\<close> to \<open>s'\<close> leaves alone.\<close>

definition staying :: "Epoch \<Rightarrow> BeaconState \<Rightarrow> BeaconState \<Rightarrow> nat" where
  "staying e s s' = length (filter (\<lambda>(v, v'). IsActiveValidatorUsingTrie v e \<and> ExitEpoch v' = ExitEpoch v)
                              (zip (bs_validators s) (bs_validators s')))"

lemma pick_length: "(\<And>i v. P i v = Q v) \<Longrightarrow> length (pick P k vs) = length (filter Q vs)"
  by (induction vs arbitrary: k) auto

lemma below_le_active: "length (filter (\<lambda>v. IsActiveValidatorUsingTrie v e \<and> P v) vs) \<le> active_count e vs"
  unfolding active_count_def by (induction vs) auto

lemma capInactivity_length:
  assumes "activeCount r = int A" "length (eligibleForEjection r) = B" "B \<le> A"
  shows "length (capInactivity r) + min (A - B) (max 1 (2 * A div 3)) \<le> A"
proof -
  define F where "F = 2 * A div 3"
  have "2 * int A div 3 = int F" by (simp add: F_def zdiv_int)
  then show ?thesis
    unfolding F_def [symmetric] capInactivity_def Let_def assms(1,2) using assms(2,3)
    by (cases "length (inactivityCandidates r)") auto
qed

lemma capInactivity_subset:
  "set (capInactivity r) \<subseteq> set (eligibleForEjection r) \<union> set (inactivityCandidates r)"
  by (auto simp: capInactivity_def Let_def dest: in_set_takeD)

lemma staying_lower:
  assumes "exits_within I s s'" "finite I"
  shows "active_count e (bs_validators s) \<le> staying e s s' + card I"
proof -
  let ?vs = "bs_validators s" and ?ws = "bs_validators s'"
  let ?act = "{j. j < length ?vs \<and> IsActiveValidatorUsingTrie (?vs ! j) e}"
  let ?stay = "{j. j < length ?vs \<and> IsActiveValidatorUsingTrie (?vs ! j) e \<and>
                 ExitEpoch (?ws ! j) = ExitEpoch (?vs ! j)}"
  have len: "length ?ws = length ?vs" using assms(1) by (simp add: exits_within_def)
  have "?act \<subseteq> ?stay \<union> I" using assms(1) by (auto simp: exits_within_def)
  then have "card ?act \<le> card (?stay \<union> I)" using assms(2) by (intro card_mono) auto
  also have "\<dots> \<le> card ?stay + card I" by (rule card_Un_le)
  finally have "card ?act \<le> card ?stay + card I" .
  moreover have "active_count e ?vs = card ?act"
    by (simp add: active_count_def length_filter_conv_card)
  moreover have "staying e s s' = card ?stay"
  proof -
    have "{j. j < length (zip ?vs ?ws) \<and> (case zip ?vs ?ws ! j of
            (v, v') \<Rightarrow> IsActiveValidatorUsingTrie v e \<and> ExitEpoch v' = ExitEpoch v)} = ?stay"
      using len by auto
    then show ?thesis unfolding staying_def length_filter_conv_card by simp
  qed
  ultimately show ?thesis by simp
qed

text \<open>C4: the quorum floor. However many validators have a high inactivity score, one registry update
  leaves at least two thirds of the active set (and at least one validator) without a new exit,
  or, when the validators above the ejection balance are fewer, all of these; and it starts the exit of no
  validator that is not active, nor of one that has both the balance and a score below the
  threshold.\<close>

theorem registry_update_quorum_floor:
  assumes "valid_config c" and "length (bs_validators s) \<le> 2 ^ 64"
      and "ProcessRegistryUpdates c s = Inr s'" and "e = bs_slot s div SlotsPerEpoch c"
      and "InactivityEjectionThreshold c e = Inr threshold"
  shows "min (active_count e (bs_validators s) - below_ejection c e (bs_validators s))
             (max 1 (2 * active_count e (bs_validators s) div 3)) \<le> staying e s s'
       \<and> length (bs_validators s') = length (bs_validators s)
       \<and> (\<forall>j < length (bs_validators s).
            ExitEpoch (bs_validators s' ! j) \<noteq> ExitEpoch (bs_validators s ! j) \<longrightarrow>
            IsActiveValidatorUsingTrie (bs_validators s ! j) e \<and>
            (EffectiveBalance (bs_validators s ! j) \<le> EjectionBalance c \<or>
             bs_version s \<ge> Altair \<and> threshold \<le> bs_inactivityScores s ! j))"
proof -
  let ?vs = "bs_validators s"
  obtain scores t where sc: "registryScores s = Inr scores"
      and t: "InactivityEjectionThreshold c (bs_slot s div SlotsPerEpoch c) = Inr t"
      and ex: "exits_within (unat ` set (capInactivity (scan_result c s (bs_slot s div SlotsPerEpoch c)
           scores t 0 (bs_validators s) empty_scan))) s s'"
    by (rule ProcessRegistryUpdates_run [OF assms(3,1)])
  define r where "r = scan_result c s e scores threshold 0 ?vs empty_scan"
  have ex: "exits_within (unat ` set (capInactivity r)) s s'"
    using ex t assms(4,5) by (simp add: r_def)
  have B: "length (eligibleForEjection r) = below_ejection c e ?vs"
    by (simp add: r_def scan_result_def empty_scan_def below_ejection_def to_eject_def pick_length)
  have A: "activeCount r = int (active_count e ?vs)"
    by (simp add: r_def scan_result_def empty_scan_def)
  have BA: "below_ejection c e ?vs \<le> active_count e ?vs"
    unfolding below_ejection_def by (rule below_le_active)
  have "card (unat ` set (capInactivity r)) \<le> length (capInactivity r)"
    by (metis List.finite_set card_image_le card_length le_trans)
  then have "min (active_count e ?vs - below_ejection c e ?vs) (max 1 (2 * active_count e ?vs div 3))
      \<le> staying e s s'"
    using staying_lower [OF ex, of e] capInactivity_length [OF A B BA] by simp
  moreover have "length (bs_validators s') = length ?vs" using ex by (simp add: exits_within_def)
  moreover have "IsActiveValidatorUsingTrie (?vs ! j) e \<and> (EffectiveBalance (?vs ! j) \<le> EjectionBalance c \<or>
      bs_version s \<ge> Altair \<and> threshold \<le> bs_inactivityScores s ! j)"
    if j: "j < length ?vs" "ExitEpoch (bs_validators s' ! j) \<noteq> ExitEpoch (?vs ! j)" for j
  proof -
    obtain i where i: "i \<in> set (capInactivity r)" "j = unat i"
      using ex j by (auto simp: exits_within_def)
    then have "i \<in> set (pick (to_eject c e) 0 ?vs) \<union> set (pick (inactive_long c e scores threshold) 0 ?vs)"
      using capInactivity_subset [of r] by (auto simp: r_def scan_result_def empty_scan_def)
    then have "to_eject c e j (?vs ! j) \<or> inactive_long c e scores threshold j (?vs ! j)"
      using pick_unat [of 0 ?vs i] assms(2) i(2) by auto
    then show ?thesis using sc
      by (auto simp: to_eject_def inactive_long_def high_score_def registryScores_def InactivityScores_def
          bindR_eq_Inr split: if_splits)
  qed
  ultimately show ?thesis by blast
qed

text \<open>Three active validators whose scores are far above the threshold.\<close>

definition outage_state :: BeaconState where
  "outage_state = state0\<lparr>bs_version := Deneb, bs_validators := [val0, val0, val0],
     bs_balances := [32000000000, 32000000000, 32000000000], bs_inactivityScores := [5000, 5000, 5000]\<rparr>"

theorem registry_update_quorum_floor_witness:
  "\<exists>s'. ProcessRegistryUpdates mainnetBeaconConfig outage_state = Inr s' \<and> 2 \<le> staying 10 outage_state s'"
proof -
  have "\<not> isl (ProcessRegistryUpdates mainnetBeaconConfig outage_state)" by code_simp
  then obtain s' where s': "ProcessRegistryUpdates mainnetBeaconConfig outage_state = Inr s'"
    by (metis sum.collapse(2))
  have "\<not> isl (InactivityEjectionThreshold mainnetBeaconConfig 10)" by code_simp
  then obtain t where t: "InactivityEjectionThreshold mainnetBeaconConfig 10 = Inr t"
    by (metis sum.collapse(2))
  have "(10 :: u64) = bs_slot outage_state div SlotsPerEpoch mainnetBeaconConfig" by code_simp
  moreover have "active_count 10 (bs_validators outage_state) = 3"
    "below_ejection mainnetBeaconConfig 10 (bs_validators outage_state) = 0" by code_simp+
  moreover have "length (bs_validators outage_state) \<le> 2 ^ 64" by (simp add: outage_state_def)
  ultimately show ?thesis
    using registry_update_quorum_floor [OF valid_config_mainnet _ s', of 10 t] s' t by auto
qed

text \<open>After a step from \<open>s\<close> to \<open>s'\<close> the validators in \<open>I\<close> are exiting, and so are all that were before.\<close>

definition exits_started :: "BeaconChainConfig \<Rightarrow> nat set \<Rightarrow> BeaconState \<Rightarrow> BeaconState \<Rightarrow> bool" where
  "exits_started c I s s' \<longleftrightarrow> length (bs_validators s') = length (bs_validators s) \<and>
     (\<forall>j < length (bs_validators s). j \<in> I \<or> ExitEpoch (bs_validators s ! j) \<noteq> FarFutureEpoch c \<longrightarrow>
        ExitEpoch (bs_validators s' ! j) \<noteq> FarFutureEpoch c)"

lemma exits_started_trans:
  "exits_started c I s t \<Longrightarrow> exits_started c J t u \<Longrightarrow> exits_started c (I \<union> J) s u"
  by (auto simp: exits_started_def)

lemma exits_within_started: "exits_within {} s s' \<Longrightarrow> exits_started c {} s s'"
  by (simp add: exits_within_def exits_started_def)

lemma finishExit_started:
  assumes "finishExit c i v x s1 = Inr (s', x')" "bs_validators s1 = bs_validators s"
    and "valid_config c" "0 < MinValidatorWithdrawabilityDelay c"
  shows "exits_started c {unat i} s s'"
proof -
  have "unat (HighestExitEpoch x) + unat (MinValidatorWithdrawabilityDelay c) < 2 ^ 64"
    using assms(1) by (simp add: finishExit_Inr)
  then have "HighestExitEpoch x \<noteq> max_u64"
    using assms(4) by (auto simp: unat_max_u64 word_less_nat_alt)
  then show ?thesis
    using assms(1,2) valid_configD [OF assms(3)]
    by (auto simp: finishExit_Inr exits_started_def nth_list_update)
qed

text \<open>Only a validator that is exiting already makes \<^verbatim>\<open>InitiateValidatorExit\<close> return the error that its callers ignore.\<close>

definition other_error :: "'a result \<Rightarrow> bool" where
  "other_error m \<longleftrightarrow> (\<forall>e. m = Inl e \<longrightarrow> \<not> err_is e ErrValidatorAlreadyExited)"

named_theorems other_error_rules \<open>results that never are the error of a validator that has exited\<close>

lemma other_error_bindR [other_error_rules]:
  "other_error m \<Longrightarrow> (\<And>x. other_error (f x)) \<Longrightarrow> other_error (bindR m f)"
  by (auto simp: other_error_def bindR_eq_Inl)

lemma other_error_wrapR [other_error_rules]: "other_error m \<Longrightarrow> other_error (wrapR msg m)"
  by (cases m) (auto simp: other_error_def wrapR_def ErrValidatorAlreadyExited_def)

lemma other_error_if [other_error_rules]: "other_error m \<Longrightarrow> other_error n \<Longrightarrow> other_error (if b then m else n)"
  by simp

lemma other_error_leaf [other_error_rules]:
  "other_error (Inr x)" "other_error (udiv a b)" "other_error (umod a b)" "other_error (Add64 a b)"
  by (auto simp: other_error_def udiv_def umod_def Add64_def ErrValidatorAlreadyExited_def ErrAddOverflow_def split: prod.splits)

lemma other_error_foldR [other_error_rules]: "(\<And>x s. other_error (f x s)) \<Longrightarrow> other_error (foldR f xs s)"
  by (induction xs arbitrary: s) (simp_all add: other_error_rules)

lemma other_error_update: "other_error (UpdateValidatorAtIndex i v s)"
  unfolding UpdateValidatorAtIndex_def
  by (intro other_error_rules) (auto simp: other_error_def mv_UpdateAt_def errIndex_def ErrOutOfBounds_def ErrValidatorAlreadyExited_def)

lemma other_error_finishExit: "other_error (finishExit c i v x s)"
  by (auto simp: finishExit_def Epoch_SafeAddEpoch_def Epoch_SafeAdd_def intro!: other_error_rules other_error_update)

lemma other_error_epoch: "other_error (ToEpoch c slot)"
  by (auto simp: other_error_def ToEpoch_def Slot_DivSlot_def Slot_Div_def must_def ErrValidatorAlreadyExited_def
      split: sum.splits)

lemma other_error_read: "(\<And>i v a. other_error (f i v a)) \<Longrightarrow> other_error (ReadFromEveryValidator s f a)"
  unfolding ReadFromEveryValidator_def by (rule other_error_foldR) (simp split: prod.split)

lemma other_error_preElectra: "other_error (initiateValidatorExitPreElectra c s x)"
  unfolding initiateValidatorExitPreElectra_def CurrentEpoch_def ActiveValidatorCount_def ValidatorExitChurnLimit_def
    calculateChurnLimit_def Epoch_SafeAdd_def Let_def
  by (intro other_error_rules other_error_epoch other_error_read)

lemma other_error_churn: "bs_version s \<ge> Electra \<Longrightarrow> other_error (ExitEpochAndUpdateChurn c b s)"
  unfolding ExitEpochAndUpdateChurn_def exitEpochAndUpdateChurn_def computeTotalActiveBalance_def
    ActivationExitChurnLimit_def BalanceChurnLimit_def since_def Let_def
  by (auto intro!: other_error_rules other_error_epoch other_error_read split: prod.split)

lemma InitiateValidatorExit_exited:
  assumes "InitiateValidatorExit c i x s = Inl e" "err_is e ErrValidatorAlreadyExited"
  shows "ExitEpoch (bs_validators s ! unat i) \<noteq> FarFutureEpoch c"
proof
  assume far: "ExitEpoch (bs_validators s ! unat i) = FarFutureEpoch c"
  have "other_error (InitiateValidatorExit c i x s)"
  proof (cases "unat i < length (bs_validators s)")
    case True
    have "other_error (bindR (ExitEpochAndUpdateChurn c b s) (\<lambda>(e, s'). finishExit c i v (x\<lparr>HighestExitEpoch := e\<rparr>) s'))"
      if "bs_version s \<ge> Electra" for b v
      using other_error_churn [OF that] other_error_finishExit by (intro other_error_bindR) (simp_all split: prod.split)
    with True far show ?thesis
      by (simp add: InitiateValidatorExit_def ValidatorAtIndex_def mv_At_def other_error_bindR
          other_error_preElectra other_error_finishExit)
  next
    case False
    then show ?thesis
      by (simp add: InitiateValidatorExit_def ValidatorAtIndex_def mv_At_def other_error_def errIndex_def ErrOutOfBounds_def
          ErrValidatorAlreadyExited_def)
  qed
  then show False using assms by (simp add: other_error_def)
qed

lemma InitiateValidatorExit_started:
  assumes "ignoreAlreadyExited (s, x) (InitiateValidatorExit c i x s) = Inr (s', x')"
    and "valid_config c" "0 < MinValidatorWithdrawabilityDelay c"
  shows "exits_started c {unat i} s s'"
proof (cases "InitiateValidatorExit c i x s")
  case (Inl e)
  then have "s' = s" "err_is e ErrValidatorAlreadyExited"
    using assms(1) by (auto simp: ignoreAlreadyExited_def split: if_splits)
  then show ?thesis using InitiateValidatorExit_exited [OF Inl] by (auto simp: exits_started_def)
next
  case (Inr p)
  then have "InitiateValidatorExit c i x s = Inr (s', x')"
    using assms(1) by (simp add: ignoreAlreadyExited_def)
  then show ?thesis
    by (auto simp: InitiateValidatorExit_def bindR_eq_Inr split: if_splits
        dest!: ExitEpochAndUpdateChurn_validators intro: finishExit_started [OF _ _ assms(2,3)])
qed

lemma ejectAll_started:
  assumes "ejectAll c es s = Inr t" and "valid_config c" "0 < MinValidatorWithdrawabilityDelay c"
  shows "exits_started c (unat ` set es) s t"
proof -
  let ?step = "\<lambda>i (st, x). wrapR ''could not initiate exit for validator''
                 (ignoreAlreadyExited (st, x) (InitiateValidatorExit c i x st))"
  have "exits_started c (unat ` set es) s t" if "foldR ?step es (s, x) = Inr (t, x')" for x x'
    using that
  proof (induction es arbitrary: s x)
    case (Cons i es)
    then obtain s1 x1 where "ignoreAlreadyExited (s, x) (InitiateValidatorExit c i x s) = Inr (s1, x1)"
      and "foldR ?step es (s1, x1) = Inr (t, x')" by auto
    then have "exits_started c ({unat i} \<union> unat ` set es) s t"
      using exits_started_trans [OF InitiateValidatorExit_started [OF _ assms(2,3)] Cons.IH] by blast
    then show ?case by simp
  qed (simp add: exits_started_def)
  then show ?thesis
    using assms(1) by (cases "es = []") (auto simp: ejectAll_def exits_started_def)
qed

text \<open>The active validators that are below the ejection balance or have reached the threshold.\<close>

definition ejectable :: "BeaconChainConfig \<Rightarrow> Epoch \<Rightarrow> u64 \<Rightarrow> BeaconState \<Rightarrow> nat set" where
  "ejectable c e threshold s = {j. j < length (bs_validators s) \<and> IsActiveValidatorUsingTrie (bs_validators s ! j) e \<and>
     (EffectiveBalance (bs_validators s ! j) \<le> EjectionBalance c \<or> threshold \<le> bs_inactivityScores s ! j)}"

lemma pick_mem: "j < length vs \<Longrightarrow> P (k + j) (vs ! j) \<Longrightarrow> of_nat (k + j) \<in> set (pick P k vs)"
proof (induction vs arbitrary: k j)
  case (Cons v vs)
  then show ?case using Cons.IH [of "j - 1" "Suc k"] by (cases j) auto
qed simp

lemma pick_card: "length (pick P k vs) = card {j. j < length vs \<and> P (k + j) (vs ! j)}"
proof -
  have "{i. i < length (enumerate k vs) \<and> (case enumerate k vs ! i of (i, v) \<Rightarrow> P i v)} =
      {j. j < length vs \<and> P (k + j) (vs ! j)}"
    by (auto simp: nth_enumerate_eq)
  then show ?thesis by (simp add: pick_def length_filter_conv_card)
qed

lemma capInactivity_all:
  assumes "activeCount r = int A"
    and "length (eligibleForEjection r) + length (inactivityCandidates r) + max 1 (2 * A div 3) \<le> A"
  shows "capInactivity r = eligibleForEjection r @ inactivityCandidates r"
proof -
  define F where "F = 2 * A div 3"
  have "2 * int A div 3 = int F" by (simp add: F_def zdiv_int)
  then show ?thesis
    using assms(2) unfolding F_def [symmetric] capInactivity_def Let_def assms(1) by auto
qed

text \<open>C25: The quorum floor counts validators that are already exiting as part of the active set. So it does not keep
  anyone when enough others are on their way out: if every active validator that is not exiting is below the ejection
  balance or has reached the score threshold, and these validators (exiting or not) fit under the floor's capacity, a
  third of the active set, then one registry update starts the exit of all of them, and no active validator stays.\<close>

theorem quorum_floor_counts_exiting:
  assumes "valid_config c" and "0 < MinValidatorWithdrawabilityDelay c" and "length (bs_validators s) \<le> 2 ^ 64"
    and "ProcessRegistryUpdates c s = Inr s'" and "e = bs_slot s div SlotsPerEpoch c"
    and "InactivityEjectionThreshold c e = Inr threshold"
    and "bs_version s \<ge> Altair" and "length (bs_inactivityScores s) = length (bs_validators s)"
    and "card (ejectable c e threshold s) + max 1 (2 * active_count e (bs_validators s) div 3)
           \<le> active_count e (bs_validators s)"
    and "\<forall>j < length (bs_validators s). IsActiveValidatorUsingTrie (bs_validators s ! j) e \<and>
           ExitEpoch (bs_validators s ! j) = FarFutureEpoch c \<longrightarrow> j \<in> ejectable c e threshold s"
  shows "\<forall>j < length (bs_validators s). IsActiveValidatorUsingTrie (bs_validators s ! j) e \<longrightarrow>
           ExitEpoch (bs_validators s' ! j) \<noteq> FarFutureEpoch c"
proof (rule ProcessRegistryUpdates_steps [OF assms(4,1)])
  let ?vs = "bs_validators s"
  fix scores t r st1 st2
  assume run: "registryScores s = Inr scores" "InactivityEjectionThreshold c (bs_slot s div SlotsPerEpoch c) = Inr t"
    "r = scan_result c s (bs_slot s div SlotsPerEpoch c) scores t 0 ?vs empty_scan"
    and steps: "\<And>I. exits_within I s st1" "ejectAll c (capInactivity r) st1 = Inr st2" "\<And>I. exits_within I st2 s'"
  have scores: "scores = bs_inactivityScores s"
    using run(1) assms(7) by (auto simp: registryScores_def InactivityScores_def since_Inr bindR_eq_Inr split: if_splits)
  have r: "r = scan_result c s e scores threshold 0 ?vs empty_scan" using run(2,3) assms(5,6) by simp
  let ?B = "{j. j < length ?vs \<and> to_eject c e j (?vs ! j)}"
  let ?I = "{j. j < length ?vs \<and> inactive_long c e scores threshold j (?vs ! j)}"
  have split: "ejectable c e threshold s = ?B \<union> ?I" "?B \<inter> ?I = {}"
    using assms(8) by (auto simp: ejectable_def to_eject_def inactive_long_def high_score_def scores)
  have picks: "eligibleForEjection r = pick (to_eject c e) 0 ?vs"
    "inactivityCandidates r = pick (inactive_long c e scores threshold) 0 ?vs"
    "activeCount r = int (active_count e ?vs)"
    by (simp_all add: r scan_result_def empty_scan_def)
  have "length (eligibleForEjection r) + length (inactivityCandidates r) = card (ejectable c e threshold s)"
    unfolding picks split(1) pick_card using split(2) by (simp add: card_Un_disjoint)
  then have all: "capInactivity r = eligibleForEjection r @ inactivityCandidates r"
    using capInactivity_all [OF picks(3)] assms(9) by simp
  have "j \<in> unat ` set (capInactivity r)" if "j \<in> ejectable c e threshold s" for j
  proof -
    have "j < length ?vs" "to_eject c e j (?vs ! j) \<or> inactive_long c e scores threshold j (?vs ! j)"
      using that unfolding split(1) by auto
    then have "of_nat j \<in> set (capInactivity r)"
      using pick_mem [of j ?vs _ 0] unfolding all picks by auto
    moreover have "unat (of_nat j :: u64) = j" using \<open>j < length ?vs\<close> assms(3) by (intro unat_of_nat_u64) simp
    ultimately show ?thesis by (metis imageI)
  qed
  moreover have "exits_started c ({} \<union> (unat ` set (capInactivity r) \<union> {})) s s'"
    by (intro exits_started_trans [OF exits_within_started [OF steps(1)]]
        exits_started_trans [OF ejectAll_started [OF steps(2) assms(1,2)] exits_within_started [OF steps(3)]])
  ultimately show ?thesis using assms(10) by (auto simp: exits_started_def)
qed

text \<open>Two of three active validators are exiting, and the third has reached the threshold.\<close>

definition draining_state :: BeaconState where
  "draining_state = outage_state\<lparr>bs_validators := [val0\<lparr>ExitEpoch := 15, WithdrawableEpoch := 271\<rparr>,
     val0\<lparr>ExitEpoch := 15, WithdrawableEpoch := 271\<rparr>, val0], bs_inactivityScores := [0, 0, 5000]\<rparr>"

theorem quorum_floor_counts_exiting_witness:
  "\<exists>s'. ProcessRegistryUpdates mainnetBeaconConfig draining_state = Inr s' \<and>
     (\<forall>j < 3. ExitEpoch (bs_validators s' ! j) \<noteq> FarFutureEpoch mainnetBeaconConfig)"
proof -
  let ?c = mainnetBeaconConfig and ?s = draining_state
  have "\<not> isl (ProcessRegistryUpdates ?c ?s)" by code_simp
  then obtain s' where s': "ProcessRegistryUpdates ?c ?s = Inr s'" by (metis sum.collapse(2))
  have t: "InactivityEjectionThreshold ?c 10 = Inr 224" by code_simp
  have e: "10 = bs_slot ?s div SlotsPerEpoch ?c" "0 < MinValidatorWithdrawabilityDelay ?c" "bs_version ?s \<ge> Altair"
    "active_count 10 (bs_validators ?s) = 3" by code_simp+
  have active: "IsActiveValidatorUsingTrie (bs_validators ?s ! j) 10" if "j < 3" for j
  proof -
    have "\<forall>v \<in> set (bs_validators ?s). IsActiveValidatorUsingTrie v 10" "length (bs_validators ?s) = 3" by code_simp+
    then show ?thesis using that by simp
  qed
  have out: "ejectable ?c 10 224 ?s = {2}"
    using active [of 2] by (auto simp: ejectable_def draining_state_def outage_state_def val0_def mainnetBeaconConfig_def
        less_Suc_eq numeral_3_eq_3)
  have len: "length (bs_validators ?s) = 3" "length (bs_inactivityScores ?s) = 3"
    by (simp_all add: draining_state_def)
  have "j \<in> ejectable ?c 10 224 ?s" if "j < 3" "ExitEpoch (bs_validators ?s ! j) = FarFutureEpoch ?c" for j
    using that unfolding out
    by (auto simp: draining_state_def mainnetBeaconConfig_def max_u64_def less_Suc_eq numeral_3_eq_3)
  then show ?thesis
    using quorum_floor_counts_exiting [OF valid_config_mainnet e(2) _ s' e(1) t e(3)] s' len e(4) active
    by (auto simp: out)
qed

section \<open>How long a validator may be away\<close>

text \<open>C26: with the epoch length the slot-time schedule gives the epoch, \<open>k\<close> epochs of leak, each
  adding the score bias, reach the ejection threshold exactly when \<open>k\<close> is positive and \<open>k + 1\<close> such
  epochs last longer than six hours: the six hours are rounded down to whole epochs (at least one), so the
  threshold can be reached up to one epoch before six hours of leak, after 5:58:24 with mainnet's epochs.\<close>

theorem InactivityEjectionThreshold_downtime:
  assumes "EpochStart c epoch = Inr start"
      and "SlotDurationAt c start = Inr (int ms * 1000000)" and "int ms * 1000000 < 2 ^ 63"
      and "ms * unat (SlotsPerEpoch c) < 2 ^ 64" and "0 < ms * unat (SlotsPerEpoch c)"
      and "0 < unat (InactivityScoreBias c)" and "unat (InactivityScoreBias c) < 2 ^ 39"
  shows "\<exists>t. InactivityEjectionThreshold c epoch = Inr t \<and>
           (unat t \<le> k * unat (InactivityScoreBias c)
              \<longleftrightarrow> 1 \<le> k \<and> 6 * 60 * 60 * 1000 < (k + 1) * (ms * unat (SlotsPerEpoch c)))"
proof -
  define E where "E = ms * unat (SlotsPerEpoch c)"
  define em where "em = u64_of_i64 (duration_Milliseconds (int ms * 1000000)) * SlotsPerEpoch c"
  define q where "q = (21600000 :: u64) div em"
  define L where "L = (if q = 0 then 1 else q)"
  have "in_i64 (int ms * 1000000)" using assms(3) by (intro in_i64I) simp_all
  then have "duration_Milliseconds (int ms * 1000000) = int ms"
    by (simp add: duration_Milliseconds_def Millisecond_def quot_i64_nonneg)
  moreover have "ms < 2 ^ 64" using assms(3) by simp
  ultimately have "unat (u64_of_i64 (duration_Milliseconds (int ms * 1000000))) = ms"
    by (simp add: u64_of_i64_def unat_of_nat_u64)
  then have em: "unat em = E"
    using assms(4) unfolding em_def E_def by (subst unat_mult_u64) simp_all
  have E: "0 < E" using assms(5) by (simp add: E_def)
  have q: "unat q = 21600000 div E" by (simp add: q_def unat_div_u64 em)
  have L: "unat L = max 1 (21600000 div E)"
    using q unat_gt_0 [of q] by (auto simp: L_def max_def)
  have "unat L \<le> 21600000" unfolding L using div_le_dividend [of 21600000 E] by simp
  then have "unat L * unat (InactivityScoreBias c) \<le> 21600000 * 2 ^ 39"
    using assms(7) by (intro mult_le_mono) simp_all
  then have t: "unat (L * InactivityScoreBias c) = unat L * unat (InactivityScoreBias c)"
    by (intro unat_mult_u64) (rule le_less_trans, assumption, simp)
  have "em \<noteq> 0" using em E by auto
  then have th: "InactivityEjectionThreshold c epoch = Inr (L * InactivityScoreBias c)"
    using assms(1,2,6)
    by (auto simp: InactivityEjectionThreshold_def L_def q_def em_def Let_def
        inactivityEjectionMinDowntimeSeconds_def)
  have "unat L \<le> k \<longleftrightarrow> 1 \<le> k \<and> 21600000 < (k + 1) * E"
    using div_less_iff_less_mult [OF E, of 21600000 "k + 1"] unfolding L by auto
  then show ?thesis using th t assms(6) by (simp add: E_def)
qed

theorem InactivityEjectionThreshold_downtime_witness:
  "\<exists>t. InactivityEjectionThreshold mainnetBeaconConfig 10 = Inr t \<and>
     (unat t \<le> 56 * 4 \<longleftrightarrow> (21600000 :: nat) < 57 * 384000)"
proof -
  have "EpochStart mainnetBeaconConfig 10 = Inr 320"
    "SlotDurationAt mainnetBeaconConfig 320 = Inr 12000000000"
    "SlotsPerEpoch mainnetBeaconConfig = 32" "InactivityScoreBias mainnetBeaconConfig = 4"
    by code_simp+
  then show ?thesis
    using InactivityEjectionThreshold_downtime [of mainnetBeaconConfig 10 320 12000 56] by simp
qed

section \<open>Effective balances\<close>

definition hysteresis :: "Gwei \<Rightarrow> Gwei \<Rightarrow> Gwei \<Rightarrow> Gwei \<Rightarrow> Gwei \<Rightarrow> Gwei \<Rightarrow> Gwei" where
  "hysteresis inc maxEff down up balance eff =
     (if balance + down < eff \<or> eff + up < balance then min maxEff (balance - balance mod inc) else eff)"

lemma unat_min: "unat (min a b :: u64) = min (unat a) (unat b)"
  by (simp add: min_def word_le_nat_alt)

lemma unat_round_down:
  "inc \<noteq> 0 \<Longrightarrow> unat (b - b mod inc :: u64) = unat b - unat b mod unat inc"
  by (subst unat_sub_u64) (simp_all add: word_le_nat_alt unat_mod_u64)

lemma hysteresis_bounds:
  assumes "inc \<noteq> 0" "unat inc \<le> unat up + 1"
      and "unat b + unat down < 2 ^ 64" "unat eff + unat up < 2 ^ 64"
  shows "unat (hysteresis inc m down up b eff) \<le> unat b + unat down"
    "unat b \<le> unat (hysteresis inc m down up b eff) + unat up \<or> hysteresis inc m down up b eff = m"
proof -
  let ?r = "unat b mod unat inc"
  have r: "?r < unat inc" "?r \<le> unat b" using assms(1) by (simp_all add: unat_gt_0)
  have cmp: "balance \<le> eff' \<longleftrightarrow> unat balance \<le> unat eff'" for balance eff' :: u64
    by (simp add: word_le_nat_alt)
  have sums: "unat (b + down) = unat b + unat down" "unat (eff + up) = unat eff + unat up"
    using assms(3,4) by (simp_all add: unat_add_u64)
  show "unat (hysteresis inc m down up b eff) \<le> unat b + unat down"
    using sums by (auto simp: hysteresis_def unat_min unat_round_down assms(1) word_less_nat_alt)
  show "unat b \<le> unat (hysteresis inc m down up b eff) + unat up \<or> hysteresis inc m down up b eff = m"
  proof (cases "(b + down < eff \<or> eff + up < b) \<and> hysteresis inc m down up b eff \<noteq> m")
    case True
    then have "hysteresis inc m down up b eff = b - b mod inc"
      by (auto simp: hysteresis_def min_def split: if_splits)
    then have "unat (hysteresis inc m down up b eff) = unat b - ?r"
      by (simp add: unat_round_down assms(1))
    then show ?thesis using r assms(2) by (intro disjI1) linarith
  next
    case False
    then show ?thesis using sums by (auto simp: hysteresis_def word_less_nat_alt)
  qed
qed

lemma hysteresis_idem:
  "hysteresis inc m down up b (hysteresis inc m down up b eff) = hysteresis inc m down up b eff"
  by (simp add: hysteresis_def)

lemma effectiveBalance_visit_eq:
  assumes "EffectiveBalanceIncrement c \<noteq> 0" "i < length bals"
  shows "effectiveBalance_visit c down up bals i v =
     (let e = hysteresis (EffectiveBalanceIncrement c) (MaxEffectiveBalance c) down up (bals ! i)
                (EffectiveBalance v)
      in Inr (if e \<noteq> EffectiveBalance v then Some (v\<lparr>EffectiveBalance := e\<rparr>) else None))"
  using assms by (simp add: effectiveBalance_visit_def hysteresis_def Let_def)

lemma ApplyToEveryValidator_at:
  assumes "\<And>i. i < length (bs_validators b) \<Longrightarrow> f i (bs_validators b ! i) = Inr (g i)"
  shows "ApplyToEveryValidator f b = Inr (b\<lparr>bs_validators := map (\<lambda>i. case g i of None \<Rightarrow> bs_validators b ! i
           | Some w \<Rightarrow> w) [0..<length (bs_validators b)]\<rparr>)"
proof -
  let ?vs = "bs_validators b"
  have "mapR (\<lambda>(i, v). bindR (f i v) (\<lambda>nv. Inr (case nv of None \<Rightarrow> v | Some w \<Rightarrow> w))) (enumerate 0 ?vs)
      = Inr (map (\<lambda>i. case g i of None \<Rightarrow> ?vs ! i | Some w \<Rightarrow> w) [0..<length ?vs])"
    unfolding mapR_eq_Inr using assms by (auto simp: nth_enumerate_eq split: option.splits)
  then show ?thesis by (simp add: ApplyToEveryValidator_def)
qed

lemma ProcessEffectiveBalanceUpdates_eq:
  assumes "valid_config c" "length (bs_validators s) \<le> length (bs_balances s)"
  shows "ProcessEffectiveBalanceUpdates c s = Inr (s\<lparr>bs_validators :=
     map (\<lambda>i. (bs_validators s ! i)\<lparr>EffectiveBalance :=
            hysteresis (EffectiveBalanceIncrement c) (MaxEffectiveBalance c)
              (EffectiveBalanceIncrement c div HysteresisQuotient c * HysteresisDownwardMultiplier c)
              (EffectiveBalanceIncrement c div HysteresisQuotient c * HysteresisUpwardMultiplier c)
              (bs_balances s ! i) (EffectiveBalance (bs_validators s ! i))\<rparr>)
         [0..<length (bs_validators s)]\<rparr>)"
proof -
  let ?h = "EffectiveBalanceIncrement c div HysteresisQuotient c"
  let ?e = "\<lambda>i. hysteresis (EffectiveBalanceIncrement c) (MaxEffectiveBalance c)
              (?h * HysteresisDownwardMultiplier c) (?h * HysteresisUpwardMultiplier c)
              (bs_balances s ! i) (EffectiveBalance (bs_validators s ! i))"
  have "ProcessEffectiveBalanceUpdates c s = ApplyToEveryValidator
      (effectiveBalance_visit c (?h * HysteresisDownwardMultiplier c) (?h * HysteresisUpwardMultiplier c)
        (bs_balances s)) s"
    using assms(1) by (simp add: ProcessEffectiveBalanceUpdates_def Let_def)
  also have "\<dots> = Inr (s\<lparr>bs_validators := map (\<lambda>i. case (if ?e i \<noteq> EffectiveBalance (bs_validators s ! i)
        then Some ((bs_validators s ! i)\<lparr>EffectiveBalance := ?e i\<rparr>) else None) of
        None \<Rightarrow> bs_validators s ! i | Some w \<Rightarrow> w) [0..<length (bs_validators s)]\<rparr>)"
    using assms by (intro ApplyToEveryValidator_at) (simp add: effectiveBalance_visit_eq Let_def)
  finally show ?thesis by (auto intro!: arg_cong [where f = Inr] map_cong)
qed

text \<open>C27: the update of the effective balances always succeeds on a state that has a balance per
  validator. Afterwards no effective balance exceeds its balance by more than the downward
  threshold, each one is within the upward threshold of its balance or at the maximum, nothing
  else has changed, and a second update changes nothing.\<close>

theorem effective_balances_track_balances:
  assumes "valid_config c" and "length (bs_validators s) \<le> length (bs_balances s)"
      and "down = EffectiveBalanceIncrement c div HysteresisQuotient c * HysteresisDownwardMultiplier c"
      and "up = EffectiveBalanceIncrement c div HysteresisQuotient c * HysteresisUpwardMultiplier c"
      and "unat (EffectiveBalanceIncrement c) \<le> unat up + 1"
      and "\<forall>i < length (bs_validators s). unat (bs_balances s ! i) + unat down < 2 ^ 64 \<and>
             unat (EffectiveBalance (bs_validators s ! i)) + unat up < 2 ^ 64"
  shows "\<exists>s'. ProcessEffectiveBalanceUpdates c s = Inr s' \<and> ProcessEffectiveBalanceUpdates c s' = Inr s' \<and>
           s' = s\<lparr>bs_validators := bs_validators s'\<rparr> \<and>
           length (bs_validators s') = length (bs_validators s) \<and>
           (\<forall>i < length (bs_validators s). let e' = EffectiveBalance (bs_validators s' ! i) in
              bs_validators s' ! i = (bs_validators s ! i)\<lparr>EffectiveBalance := e'\<rparr> \<and>
              unat e' \<le> unat (bs_balances s ! i) + unat down \<and>
              (unat (bs_balances s ! i) \<le> unat e' + unat up \<or> e' = MaxEffectiveBalance c))"
proof -
  let ?n = "length (bs_validators s)"
  let ?e = "\<lambda>i. hysteresis (EffectiveBalanceIncrement c) (MaxEffectiveBalance c) down up
              (bs_balances s ! i) (EffectiveBalance (bs_validators s ! i))"
  define s' where "s' = s\<lparr>bs_validators := map (\<lambda>i. (bs_validators s ! i)\<lparr>EffectiveBalance := ?e i\<rparr>) [0..<?n]\<rparr>"
  have run: "ProcessEffectiveBalanceUpdates c s = Inr s'"
    using ProcessEffectiveBalanceUpdates_eq [OF assms(1,2)] by (simp add: s'_def assms(3,4))
  have at: "bs_validators s' ! i = (bs_validators s ! i)\<lparr>EffectiveBalance := ?e i\<rparr>" if "i < ?n" for i
    using that by (simp add: s'_def)
  have len: "length (bs_validators s') = ?n" and bals: "bs_balances s' = bs_balances s"
    by (simp_all add: s'_def)
  have "map (\<lambda>i. (bs_validators s' ! i)\<lparr>EffectiveBalance := hysteresis (EffectiveBalanceIncrement c)
          (MaxEffectiveBalance c) down up (bs_balances s' ! i) (EffectiveBalance (bs_validators s' ! i))\<rparr>)
        [0..<length (bs_validators s')] = bs_validators s'"
    by (rule nth_equalityI) (auto simp: len bals at hysteresis_idem)
  then have "ProcessEffectiveBalanceUpdates c s' = Inr s'"
    using ProcessEffectiveBalanceUpdates_eq [OF assms(1), of s'] assms(2) len bals
    by (simp add: assms(3,4))
  moreover have "s' = s\<lparr>bs_validators := bs_validators s'\<rparr>" by (simp add: s'_def)
  moreover have "unat (?e i) \<le> unat (bs_balances s ! i) + unat down \<and>
      (unat (bs_balances s ! i) \<le> unat (?e i) + unat up \<or> ?e i = MaxEffectiveBalance c)" if "i < ?n" for i
    using hysteresis_bounds [OF valid_configD(7) [OF assms(1)] assms(5)] assms(6) that by blast
  ultimately show ?thesis using run len at by (intro exI [of _ s']) (simp add: Let_def)
qed

theorem effective_balances_track_balances_witness:
  "\<exists>s'. ProcessEffectiveBalanceUpdates mainnetBeaconConfig state0 = Inr s' \<and>
     ProcessEffectiveBalanceUpdates mainnetBeaconConfig s' = Inr s'"
proof -
  let ?c = "mainnetBeaconConfig"
  have "EffectiveBalanceIncrement ?c div HysteresisQuotient ?c * HysteresisDownwardMultiplier ?c = 250000000"
    "EffectiveBalanceIncrement ?c div HysteresisQuotient ?c * HysteresisUpwardMultiplier ?c = 1250000000"
    "EffectiveBalanceIncrement ?c = 1000000000" by code_simp+
  note params = this
  have "\<forall>i < length (bs_validators state0). unat (bs_balances state0 ! i) + unat (250000000 :: u64) < 2 ^ 64 \<and>
      unat (EffectiveBalance (bs_validators state0 ! i)) + unat (1250000000 :: u64) < 2 ^ 64"
    by (auto simp: state0_def val0_def nth_Cons split: nat.splits)
  moreover have "length (bs_validators state0) \<le> length (bs_balances state0)" by (simp add: state0_def)
  ultimately have "\<exists>s'. ProcessEffectiveBalanceUpdates ?c state0 = Inr s' \<and>
      ProcessEffectiveBalanceUpdates ?c s' = Inr s' \<and> s' = state0\<lparr>bs_validators := bs_validators s'\<rparr> \<and>
      length (bs_validators s') = length (bs_validators state0) \<and>
      (\<forall>i < length (bs_validators state0). let e' = EffectiveBalance (bs_validators s' ! i) in
         bs_validators s' ! i = (bs_validators state0 ! i)\<lparr>EffectiveBalance := e'\<rparr> \<and>
         unat e' \<le> unat (bs_balances state0 ! i) + unat (250000000 :: u64) \<and>
         (unat (bs_balances state0 ! i) \<le> unat e' + unat (1250000000 :: u64) \<or> e' = MaxEffectiveBalance ?c))"
    using params by (intro effective_balances_track_balances [OF valid_config_mainnet]) simp_all
  then show ?thesis by blast
qed

section \<open>Slashing penalties\<close>

text \<open>The penalty of the specification, in unbounded arithmetic.\<close>

definition spec_slashing_penalty :: "BeaconChainConfig \<Rightarrow> int \<Rightarrow> nat \<Rightarrow> nat \<Rightarrow> nat \<Rightarrow> nat" where
  "spec_slashing_penalty c ver tot adjusted eff =
     (let inc = unat (EffectiveBalanceIncrement c) in
      if ver \<ge> Electra then adjusted div (tot div inc) * (eff div inc)
      else eff div inc * adjusted div tot * inc)"

definition slashed_at :: "BeaconChainConfig \<Rightarrow> Epoch \<Rightarrow> Validator \<Rightarrow> bool" where
  "slashed_at c e v \<longleftrightarrow> Slashed v \<and> e + EpochsPerSlashingsVector c div 2 = WithdrawableEpoch v"

lemma foldR_Add64:
  "unat acc + sum_list (map unat xs) < 2 ^ 64 \<Longrightarrow>
     \<exists>t. foldR (\<lambda>x acc. Add64 acc x) xs acc = Inr t \<and> unat t = unat acc + sum_list (map unat xs)"
proof (induction xs arbitrary: acc)
  case (Cons x xs)
  have "unat acc + unat x < 2 ^ 64" using Cons.prems by simp
  then have "Add64 acc x = Inr (acc + x)" "unat (acc + x) = unat acc + unat x"
    by (simp_all add: Add64_Inr unat_add_u64)
  with Cons.IH [of "acc + x"] Cons.prems show ?case by (auto simp: add.assoc)
qed simp

lemma unat_DecreaseBalanceWithVal: "unat (DecreaseBalanceWithVal b p) = unat b - unat p"
  by (simp add: DecreaseBalanceWithVal_def unat_sub_u64 word_less_nat_alt word_le_nat_alt)

lemma slashings_visit_eq:
  assumes "EffectiveBalanceIncrement c \<noteq> 0" "minS \<le> tot" "i < length bals"
      and "unat (EffectiveBalanceIncrement c) \<le> unat tot"
      and "unat (EffectiveBalance v) div unat (EffectiveBalanceIncrement c) * unat tot < 2 ^ 64"
      and "per = (if ver \<ge> Electra then minS div (tot div EffectiveBalanceIncrement c) else 0)"
  shows "\<exists>b'. slashings_visit c ver e tot minS per i v (bals, ch) = Inr (bals[i := b'], ch \<or> slashed_at c e v) \<and>
     unat b' = unat (bals ! i) - (if slashed_at c e v then
       spec_slashing_penalty c ver (unat tot) (unat minS) (unat (EffectiveBalance v)) else 0)"
proof (cases "slashed_at c e v")
  case False
  then show ?thesis using assms(3)
    by (intro exI [of _ "bals ! i"]) (auto simp: slashings_visit_def slashed_at_def Let_def)
next
  case True
  let ?inc = "EffectiveBalanceIncrement c" and ?n = "EffectiveBalance v div EffectiveBalanceIncrement c"
  have n: "unat ?n = unat (EffectiveBalance v) div unat ?inc" by (rule unat_div_u64)
  have m: "unat minS \<le> unat tot" using assms(2) by (simp add: word_le_nat_alt)
  have tn: "tot \<noteq> 0" using assms(1,4) by (auto simp: unat_eq_zero)
  have nm: "unat ?n * unat minS < 2 ^ 64"
    by (rule le_less_trans [OF mult_le_mono2 [OF m] assms(5) [folded n]])
  have pn: "unat per * unat ?n < 2 ^ 64"
  proof -
    have "unat per \<le> unat minS" using assms(6) by (simp add: unat_div_u64)
    then have "unat per * unat ?n \<le> unat minS * unat ?n" by (rule mult_le_mono1)
    then show ?thesis using nm unfolding mult.commute [of "unat ?n"] by (rule le_less_trans)
  qed
  define pen where "pen = (if ver \<ge> Electra then per * ?n else ?n * minS div tot * ?inc)"
  have "unat pen = spec_slashing_penalty c ver (unat tot) (unat minS) (unat (EffectiveBalance v))"
  proof (cases "ver \<ge> Electra")
    case True
    then show ?thesis using unat_mult_u64 [OF pn] assms(6)
      by (simp add: pen_def spec_slashing_penalty_def Let_def unat_div_u64)
  next
    case False
    have "unat ?n * unat minS div unat tot \<le> unat ?n"
      using m tn div_le_mono [OF mult_le_mono2 [OF m, of "unat ?n"], of "unat tot"] by (simp add: unat_eq_zero)
    then have "unat ?n * unat minS div unat tot * unat ?inc \<le> unat ?n * unat ?inc" by (rule mult_le_mono1)
    also have "\<dots> \<le> unat (EffectiveBalance v)" unfolding n by (rule div_times_less_eq_dividend)
    also have "\<dots> < 2 ^ 64" by (rule unat_u64_lt)
    finally have "unat (?n * minS div tot) * unat ?inc < 2 ^ 64"
      using unat_mult_u64 [OF nm] by (simp add: unat_div_u64)
    from unat_mult_u64 [OF this] unat_mult_u64 [OF nm] False show ?thesis
      by (simp add: pen_def spec_slashing_penalty_def Let_def unat_div_u64)
  qed
  moreover have "slashings_visit c ver e tot minS per i v (bals, ch)
      = Inr (bals[i := DecreaseBalanceWithVal (bals ! i) pen], True)"
    using True assms(1,3) tn by (simp add: slashings_visit_def slashed_at_def Let_def pen_def)
  ultimately show ?thesis using True by (auto simp: unat_DecreaseBalanceWithVal)
qed

text \<open>The pass from position \<open>k\<close> on.\<close>

lemma slashings_pass:
  assumes "EffectiveBalanceIncrement c \<noteq> 0" "minS \<le> tot"
      and "unat (EffectiveBalanceIncrement c) \<le> unat tot"
      and "per = (if ver \<ge> Electra then minS div (tot div EffectiveBalanceIncrement c) else 0)"
      and "\<forall>v \<in> set vs. unat (EffectiveBalance v) div unat (EffectiveBalanceIncrement c) * unat tot < 2 ^ 64"
      and "k + length vs \<le> length bals"
  shows "\<exists>bals' ch'. foldR (\<lambda>(i, v). slashings_visit c ver e tot minS per i v) (enumerate k vs) (bals, ch)
           = Inr (bals', ch') \<and> length bals' = length bals \<and> (ch' \<longleftrightarrow> ch \<or> list_ex (slashed_at c e) vs) \<and>
         (\<forall>i < length bals. unat (bals' ! i) = unat (bals ! i) -
            (if k \<le> i \<and> i < k + length vs \<and> slashed_at c e (vs ! (i - k)) then
             spec_slashing_penalty c ver (unat tot) (unat minS) (unat (EffectiveBalance (vs ! (i - k)))) else 0))"
  using assms(5,6)
proof (induction vs arbitrary: k bals ch)
  case (Cons v vs)
  obtain b' where b': "slashings_visit c ver e tot minS per k v (bals, ch)
        = Inr (bals[k := b'], ch \<or> slashed_at c e v)"
      "unat b' = unat (bals ! k) - (if slashed_at c e v then
         spec_slashing_penalty c ver (unat tot) (unat minS) (unat (EffectiveBalance v)) else 0)"
    using slashings_visit_eq [OF assms(1,2) _ assms(3) _ assms(4), of k bals v e ch] Cons.prems by auto
  obtain bals' ch' where r: "foldR (\<lambda>(i, v). slashings_visit c ver e tot minS per i v)
        (enumerate (Suc k) vs) (bals[k := b'], ch \<or> slashed_at c e v) = Inr (bals', ch')"
      "length bals' = length bals" "ch' \<longleftrightarrow> (ch \<or> slashed_at c e v) \<or> list_ex (slashed_at c e) vs"
      "\<forall>i < length bals. unat (bals' ! i) = unat (bals[k := b'] ! i) -
            (if Suc k \<le> i \<and> i < Suc k + length vs \<and> slashed_at c e (vs ! (i - Suc k)) then
             spec_slashing_penalty c ver (unat tot) (unat minS)
               (unat (EffectiveBalance (vs ! (i - Suc k)))) else 0)"
    using Cons.IH [of "Suc k" "bals[k := b']" "ch \<or> slashed_at c e v"] Cons.prems by auto
  have "unat (bals' ! i) = unat (bals ! i) -
        (if k \<le> i \<and> i < k + length (v # vs) \<and> slashed_at c e ((v # vs) ! (i - k)) then
         spec_slashing_penalty c ver (unat tot) (unat minS) (unat (EffectiveBalance ((v # vs) ! (i - k))))
         else 0)" if i: "i < length bals" for i
  proof (cases "i = k")
    case True
    then show ?thesis using r(4) b'(2) i by simp
  next
    case False
    then have "k \<le> i \<longleftrightarrow> Suc k \<le> i" and "k \<le> i \<Longrightarrow> (v # vs) ! (i - k) = vs ! (i - Suc k)"
      by (auto simp: nth_Cons')
    then show ?thesis using r(4) i False by auto
  qed
  then show ?case using b'(1) r(1-3) by auto
qed simp

lemma computeTotalActiveBalance_ge:
  "computeTotalActiveBalance c s = Inr t \<Longrightarrow> unat (EffectiveBalanceIncrement c) \<le> unat t"
  by (auto simp: computeTotalActiveBalance_def bindR_eq_Inr word_le_nat_alt [symmetric])

text \<open>C28: the slashing pass never fails on a well-formed state and changes only balances. Each validator
  that was slashed half a slashings vector before its withdrawable epoch loses exactly the
  penalty of the specification, computed without wrap-around and floored at a balance of zero; every other balance
  is unchanged.\<close>

theorem ProcessSlashings_penalties:
  assumes "valid_config c"
      and "length (bs_balances s) = length (bs_validators s)"
      and "computeTotalActiveBalance c s = Inr tot"
      and "state_ProportionalSlashingMultiplier c s = Inr m"
      and "sum_list (map unat (bs_slashings s)) * unat m < 2 ^ 64" and "0 < unat m"
      and "\<forall>v \<in> set (bs_validators s).
             unat (EffectiveBalance v) div unat (EffectiveBalanceIncrement c) * unat tot < 2 ^ 64"
  shows "\<exists>s'. ProcessSlashings c s = Inr s' \<and> s' = s\<lparr>bs_balances := bs_balances s'\<rparr> \<and>
           length (bs_balances s') = length (bs_balances s) \<and>
           (\<forall>i < length (bs_validators s).
              unat (bs_balances s' ! i) = unat (bs_balances s ! i) -
                (if slashed_at c (bs_slot s div SlotsPerEpoch c) (bs_validators s ! i)
                 then spec_slashing_penalty c (bs_version s) (unat tot)
                        (min (sum_list (map unat (bs_slashings s)) * unat m) (unat tot))
                        (unat (EffectiveBalance (bs_validators s ! i))) else 0))"
proof -
  let ?e = "bs_slot s div SlotsPerEpoch c" and ?S = "sum_list (map unat (bs_slashings s))"
  have "?S \<le> ?S * unat m" using assms(6) by simp
  then have "?S < 2 ^ 64" using assms(5) by (rule le_less_trans)
  then obtain t where t: "foldR (\<lambda>slashing acc. Add64 acc slashing) (bs_slashings s) 0 = Inr t" "unat t = ?S"
    using foldR_Add64 [of 0 "bs_slashings s"] by auto
  define minS where "minS = min (t * m) tot"
  have min: "unat minS = min (?S * unat m) (unat tot)"
    using unat_mult_u64 [of t m] assms(5) t(2) by (simp add: minS_def unat_min)
  have le: "minS \<le> tot" by (simp add: minS_def)
  have inc: "unat (EffectiveBalanceIncrement c) \<le> unat tot"
    using computeTotalActiveBalance_ge [OF assms(3)] .
  define per where "per = (if bs_version s \<ge> Electra
      then minS div (tot div EffectiveBalanceIncrement c) else 0)"
  have "unat (EffectiveBalanceIncrement c) \<noteq> 0" using assms(1) by (simp add: unat_eq_zero)
  then have "unat (tot div EffectiveBalanceIncrement c) \<noteq> 0"
    using inc by (simp add: unat_div_u64 div_eq_0_iff)
  then have "tot div EffectiveBalanceIncrement c \<noteq> 0" by auto
  then have per: "(if bs_version s \<ge> Electra
      then bindR (udiv tot (EffectiveBalanceIncrement c)) (\<lambda>n. udiv minS n) else Inr 0) = Inr per"
    using assms(1) by (simp add: per_def)
  obtain bals' ch' where pass: "ReadFromEveryValidator s
        (slashings_visit c (bs_version s) ?e tot minS per) (bs_balances s, False) = Inr (bals', ch')"
      "length bals' = length (bs_balances s)" "ch' \<longleftrightarrow> list_ex (slashed_at c ?e) (bs_validators s)"
      "\<forall>i < length (bs_balances s). unat (bals' ! i) = unat (bs_balances s ! i) -
         (if i < length (bs_validators s) \<and> slashed_at c ?e (bs_validators s ! i) then
          spec_slashing_penalty c (bs_version s) (unat tot) (unat minS)
            (unat (EffectiveBalance (bs_validators s ! i))) else 0)"
    using slashings_pass [OF _ le inc per_def assms(7), of 0 "bs_balances s" ?e False] assms(1,2)
    by (auto simp: ReadFromEveryValidator_def)
  have run: "ProcessSlashings c s = (if ch' then Inr (s\<lparr>bs_balances := bals'\<rparr>) else Inr s)"
    by (simp only: ProcessSlashings_def CurrentEpoch_def Let_def SetBalances_def wrapR_Inr bindR_Inr assms(3,4)
        ToEpoch_ok [OF valid_configD(1) [OF assms(1)]] t(1) minS_def [symmetric] per pass(1) prod.case)
  show ?thesis
  proof (cases ch')
    case True
    then show ?thesis using run pass assms(2) min by (intro exI [of _ "s\<lparr>bs_balances := bals'\<rparr>"]) simp
  next
    case False
    then have "\<not> slashed_at c ?e (bs_validators s ! i)" if "i < length (bs_validators s)" for i
      using pass(3) that by (auto simp: list_ex_iff)
    then show ?thesis using run False by (intro exI [of _ s]) simp
  qed
qed

theorem ProcessSlashings_penalties_witness:
  "\<exists>s'. ProcessSlashings mainnetBeaconConfig
          (state0\<lparr>bs_slashings := [32000000000, 0],
             bs_validators := [val0\<lparr>Slashed := True, WithdrawableEpoch := 4106\<rparr>, val0]\<rparr>) = Inr s' \<and>
        unat (bs_balances s' ! 0) = 0 \<and> unat (bs_balances s' ! 1) = 2048000000000"
proof -
  let ?c = "mainnetBeaconConfig"
  let ?s = "state0\<lparr>bs_slashings := [32000000000, 0],
      bs_validators := [val0\<lparr>Slashed := True, WithdrawableEpoch := 4106\<rparr>, val0]\<rparr>"
  have facts: "computeTotalActiveBalance ?c ?s = Inr 64000000000"
    "state_ProportionalSlashingMultiplier ?c ?s = Inr 3" "EffectiveBalanceIncrement ?c = 1000000000"
    "slashed_at ?c (bs_slot ?s div SlotsPerEpoch ?c) (bs_validators ?s ! 0)"
    "\<not> slashed_at ?c (bs_slot ?s div SlotsPerEpoch ?c) (bs_validators ?s ! 1)"
    "bs_version ?s \<ge> Electra"
    by code_simp+
  have "\<forall>v \<in> set (bs_validators ?s).
      unat (EffectiveBalance v) div unat (EffectiveBalanceIncrement ?c) * unat (64000000000 :: u64) < 2 ^ 64"
    by (simp add: facts(3) val0_def)
  from ProcessSlashings_penalties [OF valid_config_mainnet _ facts(1,2) _ _ this] show ?thesis
    using facts(3-6) by (auto simp: state0_def val0_def spec_slashing_penalty_def less_Suc_eq)
qed

end
