(* ===== verification/Precompute.thy ===== *)
theory Precompute
  imports Epoch_Processing
begin

text \<open>
  \<^verbatim>\<open>src/beacon-chain/core/epoch/precompute\<close>: the per-validator and total records an epoch transition
  works on, and the rewards and slashings of Phase 0. \<^verbatim>\<open>ProcessAttestations\<close> of Phase 0, which reads pending
  attestations, is not modelled.
\<close>

section \<open>Records\<close>

record PValidator =
  pv_IsSlashed :: bool
  pv_IsWithdrawableCurrentEpoch :: bool
  pv_IsActiveCurrentEpoch :: bool
  pv_IsActivePrevEpoch :: bool
  pv_IsCurrentEpochAttester :: bool
  pv_IsCurrentEpochTargetAttester :: bool
  pv_IsPrevEpochAttester :: bool
  pv_IsPrevEpochSourceAttester :: bool
  pv_IsPrevEpochTargetAttester :: bool
  pv_IsPrevEpochHeadAttester :: bool
  pv_CurrentEpochEffectiveBalance :: Gwei
  pv_InclusionSlot :: Slot
  pv_InclusionDistance :: Slot
  pv_ProposerIndex :: ValidatorIndex
  pv_BeforeEpochTransitionBalance :: Gwei
  pv_AfterEpochTransitionBalance :: Gwei
  pv_InactivityScore :: u64

record PBalance =
  pb_ActiveCurrentEpoch :: Gwei
  pb_ActivePrevEpoch :: Gwei
  pb_CurrentEpochAttested :: Gwei
  pb_CurrentEpochTargetAttested :: Gwei
  pb_PrevEpochAttested :: Gwei
  pb_PrevEpochTargetAttested :: Gwei
  pb_PrevEpochHeadAttested :: Gwei

text \<open>The zero values of Go.\<close>

definition zero_PValidator :: PValidator where
  "zero_PValidator = \<lparr>pv_IsSlashed = False, pv_IsWithdrawableCurrentEpoch = False,
     pv_IsActiveCurrentEpoch = False, pv_IsActivePrevEpoch = False, pv_IsCurrentEpochAttester = False,
     pv_IsCurrentEpochTargetAttester = False, pv_IsPrevEpochAttester = False,
     pv_IsPrevEpochSourceAttester = False, pv_IsPrevEpochTargetAttester = False,
     pv_IsPrevEpochHeadAttester = False, pv_CurrentEpochEffectiveBalance = 0, pv_InclusionSlot = 0,
     pv_InclusionDistance = 0, pv_ProposerIndex = 0, pv_BeforeEpochTransitionBalance = 0,
     pv_AfterEpochTransitionBalance = 0, pv_InactivityScore = 0\<rparr>"

definition zero_PBalance :: PBalance where
  "zero_PBalance = \<lparr>pb_ActiveCurrentEpoch = 0, pb_ActivePrevEpoch = 0, pb_CurrentEpochAttested = 0,
     pb_CurrentEpochTargetAttested = 0, pb_PrevEpochAttested = 0, pb_PrevEpochTargetAttested = 0,
     pb_PrevEpochHeadAttested = 0\<rparr>"

definition precompute_visit ::
    "BeaconChainConfig \<Rightarrow> Epoch \<Rightarrow> Epoch \<Rightarrow> Validator \<Rightarrow> PValidator list \<times> PBalance \<Rightarrow> PValidator list \<times> PBalance" where
  "precompute_visit c currentEpoch prevEpoch val = (\<lambda>(pvs, pBal).
     (let p0 = zero_PValidator\<lparr>pv_IsSlashed := Slashed val,
                 pv_IsWithdrawableCurrentEpoch := prevEpoch + 1 \<ge> WithdrawableEpoch val,
                 pv_CurrentEpochEffectiveBalance := EffectiveBalance val\<rparr>;
          (p1, b1) = (if IsActiveValidatorUsingTrie val currentEpoch
            then (p0\<lparr>pv_IsActiveCurrentEpoch := True\<rparr>,
                  pBal\<lparr>pb_ActiveCurrentEpoch := pb_ActiveCurrentEpoch pBal + EffectiveBalance val\<rparr>)
            else (p0, pBal));
          (p2, b2) = (if IsActiveValidatorUsingTrie val prevEpoch
            then (p1\<lparr>pv_IsActivePrevEpoch := True\<rparr>,
                  b1\<lparr>pb_ActivePrevEpoch := pb_ActivePrevEpoch b1 + EffectiveBalance val\<rparr>)
            else (p1, b1));
          p3 = p2\<lparr>pv_InclusionSlot := FarFutureSlot c, pv_InclusionDistance := FarFutureSlot c\<rparr>
      in (pvs @ [p3], b2)))"

text \<open>The slots of the result are filled in order, so the slice grows with the pass.\<close>

definition precompute_New :: "BeaconChainConfig \<Rightarrow> BeaconState \<Rightarrow> (PValidator list \<times> PBalance) result" where
  "precompute_New c s =
     bindR (CurrentEpoch c s) (\<lambda>currentEpoch.
     bindR (PrevEpoch c s) (\<lambda>prevEpoch.
     ReadFromEveryValidator s (\<lambda>i val a. Inr (precompute_visit c currentEpoch prevEpoch val a))
       ([], zero_PBalance)))"

definition EligibleForRewards :: "PValidator \<Rightarrow> bool" where
  "EligibleForRewards v \<longleftrightarrow>
     pv_IsActivePrevEpoch v \<or> (pv_IsSlashed v \<and> \<not> pv_IsWithdrawableCurrentEpoch v)"

definition EnsureBalancesLowerBound :: "BeaconChainConfig \<Rightarrow> PBalance \<Rightarrow> PBalance" where
  "EnsureBalancesLowerBound c b =
     (let ebi = EffectiveBalanceIncrement c; low = (\<lambda>x. if ebi > x then ebi else x)
      in \<lparr>pb_ActiveCurrentEpoch = low (pb_ActiveCurrentEpoch b),
          pb_ActivePrevEpoch = low (pb_ActivePrevEpoch b),
          pb_CurrentEpochAttested = low (pb_CurrentEpochAttested b),
          pb_CurrentEpochTargetAttested = low (pb_CurrentEpochTargetAttested b),
          pb_PrevEpochAttested = low (pb_PrevEpochAttested b),
          pb_PrevEpochTargetAttested = low (pb_PrevEpochTargetAttested b),
          pb_PrevEpochHeadAttested = low (pb_PrevEpochHeadAttested b)\<rparr>)"

definition add_if :: "bool \<Rightarrow> Gwei \<Rightarrow> Gwei \<Rightarrow> Gwei" where
  "add_if b x acc = (if b then acc + x else acc)"

text \<open>One round of the loop of \<^verbatim>\<open>UpdateBalance\<close>.\<close>

definition updateBalance_step :: "int \<Rightarrow> PValidator \<Rightarrow> PBalance \<Rightarrow> PBalance" where
  "updateBalance_step stateVersion v b =
     (if pv_IsSlashed v then b
      else let eff = pv_CurrentEpochEffectiveBalance v in
        b\<lparr>pb_CurrentEpochAttested := add_if (pv_IsCurrentEpochAttester v) eff (pb_CurrentEpochAttested b),
          pb_CurrentEpochTargetAttested :=
            add_if (pv_IsCurrentEpochTargetAttester v) eff (pb_CurrentEpochTargetAttested b),
          pb_PrevEpochAttested :=
            add_if (stateVersion \<ge> Altair \<and> pv_IsPrevEpochSourceAttester v) eff
              (add_if (stateVersion = Phase0 \<and> pv_IsPrevEpochAttester v) eff (pb_PrevEpochAttested b)),
          pb_PrevEpochTargetAttested :=
            add_if (pv_IsPrevEpochTargetAttester v) eff (pb_PrevEpochTargetAttested b),
          pb_PrevEpochHeadAttested :=
            add_if (pv_IsPrevEpochHeadAttester v) eff (pb_PrevEpochHeadAttested b)\<rparr>)"

definition UpdateBalance :: "BeaconChainConfig \<Rightarrow> PValidator list \<Rightarrow> PBalance \<Rightarrow> int \<Rightarrow> PBalance" where
  "UpdateBalance c vp bBal stateVersion =
     EnsureBalancesLowerBound c (fold (updateBalance_step stateVersion) vp bBal)"

section \<open>Rewards and slashings of Phase 0\<close>

text \<open>The reward for one kind of vote: full compensation in a leak, a share of the participation
  otherwise.\<close>

definition phase0_vote_reward :: "bool \<Rightarrow> u64 \<Rightarrow> u64 \<Rightarrow> u64 \<Rightarrow> u64 result" where
  "phase0_vote_reward leak br attestedIncrements currentEpochBalance =
     (if leak then Inr br else udiv (br * attestedIncrements) currentEpochBalance)"

definition phase0_attestationDelta ::
    "BeaconChainConfig \<Rightarrow> PBalance \<Rightarrow> u64 \<Rightarrow> PValidator \<Rightarrow> Epoch \<Rightarrow> Epoch \<Rightarrow> (u64 \<times> u64) result" where
  "phase0_attestationDelta c pBal sqrtActive v prevEpoch finalizedEpoch =
     (if \<not> EligibleForRewards v \<or> pb_ActiveCurrentEpoch pBal = 0 then Inr (0, 0)
      else let ebi = EffectiveBalanceIncrement c; vb = pv_CurrentEpochEffectiveBalance v;
               leak = IsInInactivityLeak c prevEpoch finalizedEpoch;
               ok = \<not> pv_IsSlashed v in
      bindR (udiv (vb * BaseRewardFactor c) sqrtActive) (\<lambda>q.
      bindR (udiv q (BaseRewardsPerEpoch c)) (\<lambda>br.
      bindR (udiv (pb_ActiveCurrentEpoch pBal) ebi) (\<lambda>currentEpochBalance.
      bindR (if pv_IsPrevEpochAttester v \<and> ok
             then bindR (udiv br (ProposerRewardQuotient c)) (\<lambda>proposerReward.
                  bindR (udiv (br - proposerReward) (pv_InclusionDistance v)) (\<lambda>r1.
                  bindR (udiv (pb_PrevEpochAttested pBal) ebi) (\<lambda>n.
                  bindR (phase0_vote_reward leak br n currentEpochBalance) (\<lambda>r2. Inr (r1 + r2, 0)))))
             else Inr (0, br)) (\<lambda>(r, p).
      bindR (if pv_IsPrevEpochTargetAttester v \<and> ok
             then bindR (udiv (pb_PrevEpochTargetAttested pBal) ebi) (\<lambda>n.
                  bindR (phase0_vote_reward leak br n currentEpochBalance) (\<lambda>r1. Inr (r + r1, p)))
             else Inr (r, p + br)) (\<lambda>(r, p).
      bindR (if pv_IsPrevEpochHeadAttester v \<and> ok
             then bindR (udiv (pb_PrevEpochHeadAttested pBal) ebi) (\<lambda>n.
                  bindR (phase0_vote_reward leak br n currentEpochBalance) (\<lambda>r1. Inr (r + r1, p)))
             else Inr (r, p + br)) (\<lambda>(r, p).
      if leak
      then bindR (udiv br (ProposerRewardQuotient c)) (\<lambda>proposerReward.
           let p1 = p + (BaseRewardsPerEpoch c * br - proposerReward) in
           if \<not> pv_IsPrevEpochTargetAttester v \<or> pv_IsSlashed v
           then bindR (udiv (vb * FinalityDelay prevEpoch finalizedEpoch) (InactivityPenaltyQuotient c))
                  (\<lambda>x. Inr (r, p1 + x))
           else Inr (r, p1))
      else Inr (r, p))))))))"

definition phase0_AttestationsDelta ::
    "BeaconChainConfig \<Rightarrow> sqrt_cache \<Rightarrow> BeaconState \<Rightarrow> PBalance \<Rightarrow> PValidator list
       \<Rightarrow> ((u64 \<times> u64) list \<times> sqrt_cache) result" where
  "phase0_AttestationsDelta c cache state pBal vp =
     bindR (PrevEpoch c state) (\<lambda>prevEpoch.
     bindR (CachedSquareRoot (pb_ActiveCurrentEpoch pBal) cache) (\<lambda>(sqrtActive, cache').
     bindR (mapR (\<lambda>v. phase0_attestationDelta c pBal sqrtActive v prevEpoch (FinalizedCheckpointEpoch state)) vp)
       (\<lambda>ds. Inr (ds, cache'))))"

definition ProposersDelta ::
    "BeaconChainConfig \<Rightarrow> sqrt_cache \<Rightarrow> BeaconState \<Rightarrow> PBalance \<Rightarrow> PValidator list
       \<Rightarrow> (u64 list \<times> sqrt_cache) result" where
  "ProposersDelta c cache state pBal vp =
     bindR (CachedSquareRoot (pb_ActiveCurrentEpoch pBal) cache) (\<lambda>(root0, cache').
     let balanceSqrt = (if root0 = 0 then 1 else root0) in
     bindR (foldR (\<lambda>v rewards.
              if unat (pv_ProposerIndex v) \<ge> length rewards then Inl (Err ''proposer index out of range'')
              else if pv_IsPrevEpochAttester v \<and> \<not> pv_IsSlashed v
              then bindR (udiv (pv_CurrentEpochEffectiveBalance v * BaseRewardFactor c) balanceSqrt) (\<lambda>q.
                   bindR (udiv q (BaseRewardsPerEpoch c)) (\<lambda>baseReward.
                   bindR (udiv baseReward (ProposerRewardQuotient c)) (\<lambda>proposerReward.
                   let i = unat (pv_ProposerIndex v) in
                   Inr (rewards[i := rewards ! i + proposerReward]))))
              else Inr rewards) vp (replicate (NumValidators state) 0)) (\<lambda>rewards.
     Inr (rewards, cache')))"

text \<open>\<^verbatim>\<open>ProcessSlashingsPrecompute\<close> sums the slashings with wrap-around.\<close>

definition ProcessSlashingsPrecompute :: "BeaconChainConfig \<Rightarrow> PBalance \<Rightarrow> BeaconState \<Rightarrow> BeaconState result" where
  "ProcessSlashingsPrecompute c pBal s =
     bindR (CurrentEpoch c s) (\<lambda>currentEpoch.
     let totalSlashing = fold (\<lambda>slashing acc. acc + slashing) (bs_slashings s) 0;
         minSlashing = min (totalSlashing * ProportionalSlashingMultiplier c) (pb_ActiveCurrentEpoch pBal);
         epochToWithdraw = currentEpoch + EpochsPerSlashingsVector c div 2 in
     bindR (ReadFromEveryValidator s (\<lambda>i val has.
              Inr (if Slashed val \<and> epochToWithdraw = WithdrawableEpoch val then True else has)) False) (\<lambda>hasSlashing.
     if \<not> hasSlashing then Inr s
     else bindR (ReadFromEveryValidator s (\<lambda>i val bals.
              if Slashed val \<and> epochToWithdraw = WithdrawableEpoch val
              then bindR (udiv (EffectiveBalance val) (EffectiveBalanceIncrement c)) (\<lambda>n.
                   bindR (udiv (n * minSlashing) (pb_ActiveCurrentEpoch pBal)) (\<lambda>q.
                   bindR (idx bals i) (\<lambda>b.
                   Inr (bals[i := DecreaseBalanceWithVal b (q * EffectiveBalanceIncrement c)]))))
              else Inr bals) (bs_balances s)) (\<lambda>bals.
          SetBalances bals s)))"

end
