(* ===== verification/Justification.thy ===== *)
theory Justification
  imports Precompute
begin

text \<open>
  Justification and finalization: \<^verbatim>\<open>precompute/justification_finalization.go\<close> and the balances of
  \<^verbatim>\<open>stateutil/unrealized_justification.go\<close>. The state is never nil. The lemmas relate the code to the
  \<^verbatim>\<open>weigh_justification_and_finalization\<close> of the consensus specification, which works on a list of
  four booleans and on unbounded integers.
\<close>

unbundle bit_operations_syntax

section \<open>Bitvector4 of go-bitfield\<close>

record bitvector4_ops =
  bv_Shift :: "u8 list \<Rightarrow> int \<Rightarrow> u8 list"
  bv_SetBitAt :: "u8 list \<Rightarrow> u64 \<Rightarrow> bool \<Rightarrow> u8 list"
  bv_BitAt :: "u8 list \<Rightarrow> u64 \<Rightarrow> bool"
  bv_Bytes :: "u8 list \<Rightarrow> u8 list"

text \<open>A bit vector of four bits is one byte whose upper half is zero.\<close>

definition wf4 :: "u8 list \<Rightarrow> bool" where
  "wf4 b \<longleftrightarrow> (case b of [x] \<Rightarrow> x < 16 | _ \<Rightarrow> False)"

definition bits4 :: "u8 list \<Rightarrow> bool list" where
  "bits4 b = (case b of [x] \<Rightarrow> [bit x 0, bit x 1, bit x 2, bit x 3] | _ \<Rightarrow> [])"

text \<open>The documented behaviour: \<^verbatim>\<open>BitAt\<close> reads a bit, \<^verbatim>\<open>SetBitAt\<close> sets one, \<^verbatim>\<open>Shift(1)\<close> moves every bit
  to the next higher position and drops the highest, \<^verbatim>\<open>Bytes\<close> is the underlying byte.\<close>

definition bitvector4_laws :: "bitvector4_ops \<Rightarrow> bool" where
  "bitvector4_laws B \<longleftrightarrow>
     (\<forall>b. wf4 b \<longrightarrow> bv_BitAt B b 0 = bits4 b ! 0 \<and> bv_BitAt B b 1 = bits4 b ! 1) \<and>
     (\<forall>b. wf4 b \<longrightarrow> wf4 (bv_SetBitAt B b 0 True) \<and> bits4 (bv_SetBitAt B b 0 True) = (bits4 b)[0 := True]) \<and>
     (\<forall>b. wf4 b \<longrightarrow> wf4 (bv_SetBitAt B b 1 True) \<and> bits4 (bv_SetBitAt B b 1 True) = (bits4 b)[1 := True]) \<and>
     (\<forall>b. wf4 b \<longrightarrow> wf4 (bv_Shift B b 1) \<and> bits4 (bv_Shift B b 1) = False # butlast (bits4 b)) \<and>
     (\<forall>b. wf4 b \<longrightarrow> bv_Bytes B b = b)"

section \<open>The code\<close>

definition processJustificationBits ::
    "bitvector4_ops \<Rightarrow> BeaconState \<Rightarrow> u64 \<Rightarrow> u64 \<Rightarrow> u64 \<Rightarrow> u8 list" where
  "processJustificationBits B state totalActiveBalance prevEpochTargetBalance currEpochTargetBalance =
     (let b0 = bv_Shift B (bs_justificationBits state) 1;
          b1 = (if 3 * prevEpochTargetBalance \<ge> 2 * totalActiveBalance then bv_SetBitAt B b0 1 True else b0)
      in if 3 * currEpochTargetBalance \<ge> 2 * totalActiveBalance then bv_SetBitAt B b1 0 True else b1)"

definition computeCheckpoints ::
    "BeaconChainConfig \<Rightarrow> bitvector4_ops \<Rightarrow> BeaconState \<Rightarrow> u8 list \<Rightarrow> (Checkpoint \<times> Checkpoint) result" where
  "computeCheckpoints c B state newBits =
     bindR (PrevEpoch c state) (\<lambda>prevEpoch.
     bindR (CurrentEpoch c state) (\<lambda>currentEpoch.
     let oldPrev = bs_previousJustifiedCheckpoint state;
         oldCurr = bs_currentJustifiedCheckpoint state;
         jc0 = bs_currentJustifiedCheckpoint state;
         fc0 = bs_finalizedCheckpoint state in
     bindR (if bv_BitAt B newBits 0 \<and> currentEpoch \<ge> cp_Epoch jc0
            then bindR (wrapR ''could not get block root for current epoch'' (BlockRoot c state currentEpoch))
                   (\<lambda>blockRoot. Inr \<lparr>cp_Epoch = currentEpoch, cp_Root = blockRoot\<rparr>)
            else if bv_BitAt B newBits 1 \<and> prevEpoch \<ge> cp_Epoch jc0
            then bindR (wrapR ''could not get block root for previous epoch'' (BlockRoot c state prevEpoch))
                   (\<lambda>blockRoot. Inr \<lparr>cp_Epoch = prevEpoch, cp_Root = blockRoot\<rparr>)
            else Inr jc0) (\<lambda>justifiedCheckpoint.
     if length newBits = 0 then Inl (Err ''empty justification bits'')
     else bindR (idx (bv_Bytes B newBits) 0) (\<lambda>justification.
     let fc1 = (if justification AND 0x0E = 0x0E \<and> cp_Epoch oldPrev + 3 = currentEpoch then oldPrev else fc0);
         fc2 = (if justification AND 0x06 = 0x06 \<and> cp_Epoch oldPrev + 2 = currentEpoch then oldPrev else fc1);
         fc3 = (if justification AND 0x07 = 0x07 \<and> cp_Epoch oldCurr + 2 = currentEpoch then oldCurr else fc2);
         fc4 = (if justification AND 0x03 = 0x03 \<and> cp_Epoch oldCurr + 1 = currentEpoch then oldCurr else fc3)
     in Inr (justifiedCheckpoint, fc4)))))"

definition weighJustificationAndFinalization ::
    "BeaconChainConfig \<Rightarrow> bitvector4_ops \<Rightarrow> u8 list \<Rightarrow> BeaconState \<Rightarrow> BeaconState result" where
  "weighJustificationAndFinalization c B newBits state =
     bindR (computeCheckpoints c B state newBits) (\<lambda>(jc, fc).
     bindR (SetPreviousJustifiedCheckpoint (bs_currentJustifiedCheckpoint state) state) (\<lambda>s1.
     bindR (SetCurrentJustifiedCheckpoint jc s1) (\<lambda>s2.
     bindR (SetJustificationBits newBits s2) (\<lambda>s3.
     SetFinalizedCheckpoint fc s3))))"

definition ProcessJustificationAndFinalizationPreCompute ::
    "BeaconChainConfig \<Rightarrow> bitvector4_ops \<Rightarrow> PBalance \<Rightarrow> BeaconState \<Rightarrow> BeaconState result" where
  "ProcessJustificationAndFinalizationPreCompute c B pBal state =
     bindR (EpochStart c 2) (\<lambda>canProcessSlot.
     if bs_slot state \<le> canProcessSlot then Inr state
     else weighJustificationAndFinalization c B
            (processJustificationBits B state (pb_ActiveCurrentEpoch pBal)
               (pb_PrevEpochTargetAttested pBal) (pb_CurrentEpochTargetAttested pBal)) state)"

definition ensureLowerBound :: "BeaconChainConfig \<Rightarrow> u64 \<Rightarrow> u64 \<Rightarrow> u64 \<Rightarrow> u64 \<times> u64 \<times> u64" where
  "ensureLowerBound c activeCurrEpoch prevTargetAttested currTargetAttested =
     (let ebi = EffectiveBalanceIncrement c
      in (if ebi > activeCurrEpoch then ebi else activeCurrEpoch,
          if ebi > prevTargetAttested then ebi else prevTargetAttested,
          if ebi > currTargetAttested then ebi else currTargetAttested))"

definition unrealized_visit ::
    "BeaconChainConfig \<Rightarrow> u8 list \<Rightarrow> u8 list \<Rightarrow> Epoch \<Rightarrow> nat \<Rightarrow> Validator \<Rightarrow> u64 \<times> u64 \<times> u64
       \<Rightarrow> (u64 \<times> u64 \<times> u64) result" where
  "unrealized_visit c cp pp currentEpoch i v = (\<lambda>(activeBalance, prevTarget, currentTarget).
     let targetIdx = unat (TimelyTargetFlagIndex c);
         activeCurrent = (ActivationEpoch v \<le> currentEpoch \<and> currentEpoch < ExitEpoch v) in
     bindR (if activeCurrent then Add64 activeBalance (EffectiveBalance v) else Inr activeBalance) (\<lambda>active'.
     if Slashed v then Inr (active', prevTarget, currentTarget)
     else
     bindR (if activeCurrent
            then bindR (idx cp i) (\<lambda>b.
                 if (drop_bit targetIdx b AND 1) = 1 then Add64 currentTarget (EffectiveBalance v)
                 else Inr currentTarget)
            else Inr currentTarget) (\<lambda>current'.
     let activePrevious = (ActivationEpoch v < currentEpoch \<and> currentEpoch \<le> ExitEpoch v) in
     bindR (if activePrevious
            then bindR (idx pp i) (\<lambda>b.
                 if (drop_bit targetIdx b AND 1) = 1 then Add64 prevTarget (EffectiveBalance v)
                 else Inr prevTarget)
            else Inr prevTarget) (\<lambda>prev'.
     Inr (active', prev', current')))))"

definition stateutil_UnrealizedCheckpointBalances ::
    "BeaconChainConfig \<Rightarrow> u8 list \<Rightarrow> u8 list \<Rightarrow> Validator list \<Rightarrow> Epoch \<Rightarrow> (u64 \<times> u64 \<times> u64) result" where
  "stateutil_UnrealizedCheckpointBalances c cp pp validators currentEpoch =
     (if length cp < length validators \<or> length pp < length validators
      then Inl (Err ''participation does not match validator set'')
      else bindR (foldR (\<lambda>(i, v). unrealized_visit c cp pp currentEpoch i v)
                    (enumerate 0 validators) (0, 0, 0)) (\<lambda>(active, prev, curr).
           Inr (ensureLowerBound c active prev curr)))"

definition UnrealizedCheckpointBalances :: "BeaconChainConfig \<Rightarrow> BeaconState \<Rightarrow> (u64 \<times> u64 \<times> u64) result" where
  "UnrealizedCheckpointBalances c b =
     (if bs_version b = Phase0
      then Inl (errNotSupported ''UnrealizedCheckpointBalances'' (bs_version b))
      else bindR (CurrentEpoch c b) (\<lambda>currentEpoch.
           stateutil_UnrealizedCheckpointBalances c (bs_currentEpochParticipation b)
             (bs_previousEpochParticipation b) (bs_validators b) currentEpoch))"

definition UnrealizedCheckpoints ::
    "BeaconChainConfig \<Rightarrow> bitvector4_ops \<Rightarrow> BeaconState \<Rightarrow> (Checkpoint \<times> Checkpoint) result" where
  "UnrealizedCheckpoints c B st =
     bindR (ToEpoch c (bs_slot st)) (\<lambda>e.
     if e \<le> GenesisEpoch c + 1
     then Inr (bs_currentJustifiedCheckpoint st, bs_finalizedCheckpoint st)
     else bindR (UnrealizedCheckpointBalances c st) (\<lambda>(activeBalance, prevTarget, currentTarget).
          computeCheckpoints c B st
            (processJustificationBits B st activeBalance prevTarget currentTarget)))"

section \<open>The specification\<close>

text \<open>\<^verbatim>\<open>weigh_justification_and_finalization\<close> on a list of four booleans.\<close>

definition spec_weigh ::
    "Epoch \<Rightarrow> (Epoch \<Rightarrow> root) \<Rightarrow> bool list \<Rightarrow> Checkpoint \<Rightarrow> Checkpoint \<Rightarrow> Checkpoint \<Rightarrow> nat \<Rightarrow> nat \<Rightarrow> nat
       \<Rightarrow> bool list \<times> Checkpoint \<times> Checkpoint" where
  "spec_weigh cur block_root bits oldPrev oldCurr fin total_balance prevTarget currTarget =
     (let prev = cur - 1;
          bits0 = False # butlast bits;
          (jc1, bits1) = (if prevTarget * 3 \<ge> total_balance * 2
                          then (\<lparr>cp_Epoch = prev, cp_Root = block_root prev\<rparr>, bits0[1 := True])
                          else (oldCurr, bits0));
          (jc2, bits2) = (if currTarget * 3 \<ge> total_balance * 2
                          then (\<lparr>cp_Epoch = cur, cp_Root = block_root cur\<rparr>, bits1[0 := True])
                          else (jc1, bits1));
          f1 = (if (\<forall>i \<in> set [1, 2, 3]. bits2 ! i) \<and> unat (cp_Epoch oldPrev) + 3 = unat cur then oldPrev else fin);
          f2 = (if (\<forall>i \<in> set [1, 2]. bits2 ! i) \<and> unat (cp_Epoch oldPrev) + 2 = unat cur then oldPrev else f1);
          f3 = (if (\<forall>i \<in> set [0, 1, 2]. bits2 ! i) \<and> unat (cp_Epoch oldCurr) + 2 = unat cur then oldCurr else f2);
          f4 = (if (\<forall>i \<in> set [0, 1]. bits2 ! i) \<and> unat (cp_Epoch oldCurr) + 1 = unat cur then oldCurr else f3)
      in (bits2, jc2, f4))"

section \<open>Bits\<close>

lemma u8_below_16:
  assumes "(x :: u8) < 16"
  shows "x \<in> {0, 1, 2, 3, 4, 5, 6, 7, 8, 9, 10, 11, 12, 13, 14, 15}"
proof -
  have "unat x < 16" using assms by (simp add: word_less_nat_alt)
  then have "unat x \<in> set [0..<16]" by simp
  also have "[0..<16] = [0 :: nat, 1, 2, 3, 4, 5, 6, 7, 8, 9, 10, 11, 12, 13, 14, 15]" by (simp add: upt_rec)
  finally have "unat x \<in> {0, 1, 2, 3, 4, 5, 6, 7, 8, 9, 10, 11, 12, 13, 14, 15}" by (simp only: list.set)
  then have "of_nat (unat x) \<in> (of_nat ` {0, 1, 2, 3, 4, 5, 6, 7, 8, 9, 10, 11, 12, 13, 14, 15} :: u8 set)"
    by (rule imageI)
  then show ?thesis by simp
qed

lemma wf4_cases: "wf4 b \<Longrightarrow> \<exists>x. b = [x] \<and> x < 16"
  by (auto simp: wf4_def split: list.splits)

lemma mask_bits:
  assumes "wf4 [x]"
  shows "x AND 0x0E = 0x0E \<longleftrightarrow> bit x 1 \<and> bit x 2 \<and> bit x 3"
    "x AND 0x06 = 0x06 \<longleftrightarrow> bit x 1 \<and> bit x 2"
    "x AND 0x07 = 0x07 \<longleftrightarrow> bit x 0 \<and> bit x 1 \<and> bit x 2"
    "x AND 0x03 = 0x03 \<longleftrightarrow> bit x 0 \<and> bit x 1"
  using u8_below_16 [of x] assms by (auto simp: wf4_def bit_1_iff)

lemma supermajority_nat:
  fixes t a :: u64
  assumes "3 * unat t < 2 ^ 64" "2 * unat a < 2 ^ 64"
  shows "2 * a \<le> 3 * t \<longleftrightarrow> unat a * 2 \<le> unat t * 3"
proof -
  have "unat (3 * t) = 3 * unat t" "unat (2 * a) = 2 * unat a"
    using assms unat_mult_u64 [of 3 t] unat_mult_u64 [of 2 a] by simp_all
  then show ?thesis by (simp add: word_le_nat_alt mult.commute)
qed

lemma bitvector4_lawsD:
  assumes "bitvector4_laws B" "wf4 b"
  shows "bv_BitAt B b 0 = bits4 b ! 0" "bv_BitAt B b 1 = bits4 b ! 1"
    "wf4 (bv_SetBitAt B b 0 True)" "bits4 (bv_SetBitAt B b 0 True) = (bits4 b)[0 := True]"
    "wf4 (bv_SetBitAt B b 1 True)" "bits4 (bv_SetBitAt B b 1 True) = (bits4 b)[1 := True]"
    "wf4 (bv_Shift B b 1)" "bits4 (bv_Shift B b 1) = False # butlast (bits4 b)" "bv_Bytes B b = b"
  using assms by (simp_all add: bitvector4_laws_def)

definition spec_bits :: "bool list \<Rightarrow> nat \<Rightarrow> nat \<Rightarrow> nat \<Rightarrow> bool list" where
  "spec_bits bits tot prevTarget currTarget =
     (let b0 = False # butlast bits; b1 = (if prevTarget * 3 \<ge> tot * 2 then b0[1 := True] else b0)
      in if currTarget * 3 \<ge> tot * 2 then b1[0 := True] else b1)"

lemma processJustificationBits_spec:
  assumes B: "bitvector4_laws B" "wf4 (bs_justificationBits s)"
      and "3 * unat tot < 2 ^ 64" "3 * unat p < 2 ^ 64" "3 * unat q < 2 ^ 64"
  shows "wf4 (processJustificationBits B s tot p q) \<and>
    bits4 (processJustificationBits B s tot p q) = spec_bits (bits4 (bs_justificationBits s)) (unat tot) (unat p) (unat q)"
proof -
  have le: "2 * tot \<le> 3 * p \<longleftrightarrow> unat tot * 2 \<le> unat p * 3" "2 * tot \<le> 3 * q \<longleftrightarrow> unat tot * 2 \<le> unat q * 3"
    using assms(3-5) by (simp_all add: supermajority_nat)
  note shift = bitvector4_lawsD(7,8) [OF B]
  note set1 = bitvector4_lawsD(5,6) [OF B(1) shift(1)]
  show ?thesis
    using shift set1 bitvector4_lawsD(3,4) [OF B(1) shift(1)] bitvector4_lawsD(3,4) [OF B(1) set1(1)]
    by (simp add: processJustificationBits_def spec_bits_def Let_def le)
qed

section \<open>Checkpoints\<close>

lemma bits4_length: "wf4 b \<Longrightarrow> length (bits4 b) = 4"
  by (auto dest!: wf4_cases simp: bits4_def)

text \<open>The four finality rules, on the bits.\<close>

definition finality_rules :: "Epoch \<Rightarrow> bool list \<Rightarrow> Checkpoint \<Rightarrow> Checkpoint \<Rightarrow> Checkpoint \<Rightarrow> Checkpoint" where
  "finality_rules cur bits oldPrev oldCurr fin =
     (let f1 = (if bits ! 1 \<and> bits ! 2 \<and> bits ! 3 \<and> cp_Epoch oldPrev + 3 = cur then oldPrev else fin);
          f2 = (if bits ! 1 \<and> bits ! 2 \<and> cp_Epoch oldPrev + 2 = cur then oldPrev else f1);
          f3 = (if bits ! 0 \<and> bits ! 1 \<and> bits ! 2 \<and> cp_Epoch oldCurr + 2 = cur then oldCurr else f2)
      in if bits ! 0 \<and> bits ! 1 \<and> cp_Epoch oldCurr + 1 = cur then oldCurr else f3)"

lemma CurrentEpoch_ok: "valid_config c \<Longrightarrow> CurrentEpoch c s = Inr (bs_slot s div SlotsPerEpoch c)"
  by (simp add: CurrentEpoch_def)

lemma PrevEpoch_ok:
  "valid_config c \<Longrightarrow> PrevEpoch c s = Inr (if bs_slot s div SlotsPerEpoch c = 0 then 0
     else bs_slot s div SlotsPerEpoch c - 1)"
  by (simp add: PrevEpoch_def CurrentEpoch_ok)

lemma computeCheckpoints_bits:
  assumes B: "bitvector4_laws B" "wf4 b" and c: "valid_config c"
      and cur: "cur = bs_slot s div SlotsPerEpoch c" "cur \<noteq> 0"
      and roots: "BlockRoot c s cur = Inr (rt cur)" "BlockRoot c s (cur - 1) = Inr (rt (cur - 1))"
      and je: "cp_Epoch (bs_currentJustifiedCheckpoint s) \<le> cur - 1" "cp_Epoch (bs_currentJustifiedCheckpoint s) \<le> cur"
  shows "computeCheckpoints c B s b = Inr
    (if bits4 b ! 0 then \<lparr>cp_Epoch = cur, cp_Root = rt cur\<rparr>
     else if bits4 b ! 1 then \<lparr>cp_Epoch = cur - 1, cp_Root = rt (cur - 1)\<rparr>
     else bs_currentJustifiedCheckpoint s,
     finality_rules cur (bits4 b) (bs_previousJustifiedCheckpoint s) (bs_currentJustifiedCheckpoint s)
       (bs_finalizedCheckpoint s))"
proof -
  obtain x where x: "b = [x]" "x < 16" using wf4_cases [OF B(2)] by blast
  have wf: "wf4 [x]" using B(2) x(1) by simp
  note mask = mask_bits [OF wf]
  have prev: "PrevEpoch c s = Inr (cur - 1)" "CurrentEpoch c s = Inr cur"
    using PrevEpoch_ok [OF c, of s] CurrentEpoch_ok [OF c, of s] cur by simp_all
  have bytes: "bv_Bytes B b = b" by (rule bitvector4_lawsD(9) [OF B])
  have bits: "bv_BitAt B b 0 = bits4 b ! 0" "bv_BitAt B b 1 = bits4 b ! 1"
    by (rule bitvector4_lawsD [OF B])+
  show ?thesis
    using roots je
    by (simp add: computeCheckpoints_def prev bytes [unfolded x(1)] bits [unfolded x(1)] x(1)
        bits4_def nth_Cons' finality_rules_def Let_def mask idx_def)
qed

lemma epoch_sum_nat:
  fixes e cur :: u64
  assumes "unat e + 3 < 2 ^ 64"
  shows "e + 1 = cur \<longleftrightarrow> unat e + 1 = unat cur" "e + 2 = cur \<longleftrightarrow> unat e + 2 = unat cur"
    "e + 3 = cur \<longleftrightarrow> unat e + 3 = unat cur"
  using assms unat_add_u64 [of e 1] unat_add_u64 [of e 2] unat_add_u64 [of e 3]
  by (auto simp: u64_eq_iff)

text \<open>The specification, with the justified checkpoint read off the final bits. This needs that an epoch
  already justified at the previous transition is the current justified checkpoint.\<close>

lemma spec_weigh_eq:
  assumes "length bits = 4" "bits ! 0 \<longrightarrow> oldCurr = \<lparr>cp_Epoch = cur - 1, cp_Root = rt (cur - 1)\<rparr>"
      and "unat (cp_Epoch oldPrev) + 3 < 2 ^ 64" "unat (cp_Epoch oldCurr) + 3 < 2 ^ 64"
      and b: "b = spec_bits bits tot p q"
  shows "spec_weigh cur rt bits oldPrev oldCurr fin tot p q = (b,
     if b ! 0 then \<lparr>cp_Epoch = cur, cp_Root = rt cur\<rparr>
     else if b ! 1 then \<lparr>cp_Epoch = cur - 1, cp_Root = rt (cur - 1)\<rparr> else oldCurr,
     finality_rules cur b oldPrev oldCurr fin)"
proof -
  obtain b0 b1 b2 b3 where bits: "bits = [b0, b1, b2, b3]"
    using assms(1) by (auto simp: length_Suc_conv numeral_eq_Suc)
  have sums: "cp_Epoch oldPrev + 2 = cur \<longleftrightarrow> unat (cp_Epoch oldPrev) + 2 = unat cur"
    "cp_Epoch oldPrev + 3 = cur \<longleftrightarrow> unat (cp_Epoch oldPrev) + 3 = unat cur"
    "cp_Epoch oldCurr + 1 = cur \<longleftrightarrow> unat (cp_Epoch oldCurr) + 1 = unat cur"
    "cp_Epoch oldCurr + 2 = cur \<longleftrightarrow> unat (cp_Epoch oldCurr) + 2 = unat cur"
    using epoch_sum_nat [OF assms(3)] epoch_sum_nat [OF assms(4)] by auto
  show ?thesis
    using assms(2) unfolding b spec_weigh_def spec_bits_def finality_rules_def sums bits
    by (cases "tot * 2 \<le> p * 3"; cases "tot * 2 \<le> q * 3"; cases b0) (simp_all add: Let_def nth_Cons')
qed

lemma late_epoch:
  assumes "valid_config c" "EpochStart c 2 = Inr x" "x < slot"
  shows "2 \<le> slot div SlotsPerEpoch c"
proof -
  have x: "unat x = 2 * unat (SlotsPerEpoch c)" using unat_epoch_start [OF assms(2)] by simp
  have "0 < unat (SlotsPerEpoch c)" using assms(1) by (simp add: unat_gt_0)
  moreover have "2 * unat (SlotsPerEpoch c) \<le> unat slot" using assms(3) x by (simp add: word_less_nat_alt)
  ultimately have "2 \<le> unat slot div unat (SlotsPerEpoch c)" by (simp add: less_eq_div_iff_mult_less_eq)
  then show ?thesis by (simp add: word_le_nat_alt unat_div_u64)
qed

lemma weigh_eq_Inr:
  "weighJustificationAndFinalization c B nb s = Inr s' \<longleftrightarrow>
     (\<exists>jc fc. computeCheckpoints c B s nb = Inr (jc, fc) \<and>
        s' = s\<lparr>bs_previousJustifiedCheckpoint := bs_currentJustifiedCheckpoint s,
          bs_currentJustifiedCheckpoint := jc, bs_justificationBits := nb, bs_finalizedCheckpoint := fc\<rparr>)"
  by (auto simp: weighJustificationAndFinalization_def bindR_eq_Inr SetPreviousJustifiedCheckpoint_def
      SetCurrentJustifiedCheckpoint_def SetJustificationBits_def SetFinalizedCheckpoint_def)

lemma bind_pair_eq_Inr:
  "bindR J (\<lambda>x. if b then Inl e else bindR m (\<lambda>j. Inr (x, F j))) = Inr (jc, fc) \<longleftrightarrow>
     J = Inr jc \<and> \<not> b \<and> (\<exists>j. m = Inr j \<and> fc = F j)"
  by (auto simp: bindR_eq_Inr)

lemma computeCheckpoints_bounds:
  assumes "valid_config c" "computeCheckpoints c B s nb = Inr (jc, fc)"
      and cur: "cur = bs_slot s div SlotsPerEpoch c"
      and inv: "cp_Epoch (bs_finalizedCheckpoint s) \<le> cp_Epoch (bs_previousJustifiedCheckpoint s)"
        "cp_Epoch (bs_previousJustifiedCheckpoint s) \<le> cp_Epoch (bs_currentJustifiedCheckpoint s)"
        "cp_Epoch (bs_currentJustifiedCheckpoint s) \<le> cur"
  shows "cp_Epoch (bs_currentJustifiedCheckpoint s) \<le> cp_Epoch jc \<and> cp_Epoch jc \<le> cur \<and>
    cp_Epoch (bs_finalizedCheckpoint s) \<le> cp_Epoch fc \<and> cp_Epoch fc \<le> cp_Epoch (bs_currentJustifiedCheckpoint s) \<and>
    fc \<in> {bs_finalizedCheckpoint s, bs_previousJustifiedCheckpoint s, bs_currentJustifiedCheckpoint s}"
proof -
  have le: "(if cur = 0 then 0 else cur - 1) \<le> cur"
    by (auto simp: word_le_nat_alt unat_sub_if' not_le u64_eq_iff)
  obtain j where J: "(if bv_BitAt B nb 0 \<and> cur \<ge> cp_Epoch (bs_currentJustifiedCheckpoint s)
      then bindR (wrapR ''could not get block root for current epoch'' (BlockRoot c s cur))
             (\<lambda>blockRoot. Inr \<lparr>cp_Epoch = cur, cp_Root = blockRoot\<rparr>)
      else if bv_BitAt B nb 1 \<and> (if cur = 0 then 0 else cur - 1) \<ge> cp_Epoch (bs_currentJustifiedCheckpoint s)
      then bindR (wrapR ''could not get block root for previous epoch'' (BlockRoot c s (if cur = 0 then 0 else cur - 1)))
             (\<lambda>blockRoot. Inr \<lparr>cp_Epoch = (if cur = 0 then 0 else cur - 1), cp_Root = blockRoot\<rparr>)
      else Inr (bs_currentJustifiedCheckpoint s)) = Inr jc"
    and F: "fc = (let oldPrev = bs_previousJustifiedCheckpoint s; oldCurr = bs_currentJustifiedCheckpoint s;
         fc1 = (if j AND (0x0E :: u8) = 0x0E \<and> cp_Epoch oldPrev + 3 = cur then oldPrev else bs_finalizedCheckpoint s);
         fc2 = (if j AND 0x06 = 0x06 \<and> cp_Epoch oldPrev + 2 = cur then oldPrev else fc1);
         fc3 = (if j AND 0x07 = 0x07 \<and> cp_Epoch oldCurr + 2 = cur then oldCurr else fc2)
       in if j AND 0x03 = 0x03 \<and> cp_Epoch oldCurr + 1 = cur then oldCurr else fc3)"
    using assms(2) unfolding computeCheckpoints_def PrevEpoch_ok [OF assms(1)] CurrentEpoch_ok [OF assms(1)]
      cur [symmetric] Let_def bindR_Inr bind_pair_eq_Inr by blast
  have jc: "cp_Epoch (bs_currentJustifiedCheckpoint s) \<le> cp_Epoch jc \<and> cp_Epoch jc \<le> cur"
    using J inv(3) le by (auto split: if_split_asm)
  have "fc \<in> {bs_finalizedCheckpoint s, bs_previousJustifiedCheckpoint s, bs_currentJustifiedCheckpoint s}"
    unfolding F Let_def by simp
  then show ?thesis using jc inv by auto
qed

section \<open>Properties\<close>

text \<open>A bit vector that follows the documentation, and a state at the end of epoch 9, where epochs 7 and
  8 are justified.\<close>

definition bv4 :: bitvector4_ops where
  "bv4 = \<lparr>bv_Shift = (\<lambda>b n. map (\<lambda>x. (x + x) AND 15) b),
          bv_SetBitAt = (\<lambda>b i v. map (\<lambda>x. if v then set_bit (unat i) x else unset_bit (unat i) x) b),
          bv_BitAt = (\<lambda>b i. case b of [x] \<Rightarrow> bit x (unat i) | _ \<Rightarrow> False),
          bv_Bytes = (\<lambda>b. b)\<rparr>"

definition state_late :: BeaconState where
  "state_late = state0\<lparr>bs_slot := 319, bs_blockRoots := replicate 512 [1], bs_justificationBits := [3],
     bs_previousJustifiedCheckpoint := \<lparr>cp_Epoch = 7, cp_Root = [1]\<rparr>,
     bs_currentJustifiedCheckpoint := \<lparr>cp_Epoch = 8, cp_Root = [1]\<rparr>,
     bs_finalizedCheckpoint := \<lparr>cp_Epoch = 6, cp_Root = [1]\<rparr>\<rparr>"

lemma bv4_laws: "bitvector4_laws bv4"
proof -
  have "wf4 (bv_SetBitAt bv4 b 0 True) \<and> bits4 (bv_SetBitAt bv4 b 0 True) = (bits4 b)[0 := True]"
    "wf4 (bv_SetBitAt bv4 b 1 True) \<and> bits4 (bv_SetBitAt bv4 b 1 True) = (bits4 b)[1 := True]"
    "wf4 (bv_Shift bv4 b 1) \<and> bits4 (bv_Shift bv4 b 1) = False # butlast (bits4 b)"
    "bv_BitAt bv4 b 0 = bits4 b ! 0 \<and> bv_BitAt bv4 b 1 = bits4 b ! 1" if wf: "wf4 b" for b
  proof -
    obtain x where b: "b = [x]" and "x < 16" using wf4_cases [OF wf] by blast
    then have x: "x \<in> {0, 1, 2, 3, 4, 5, 6, 7, 8, 9, 10, 11, 12, 13, 14, 15}" by (intro u8_below_16)
    show "wf4 (bv_SetBitAt bv4 b 0 True) \<and> bits4 (bv_SetBitAt bv4 b 0 True) = (bits4 b)[0 := True]"
      using x by (auto simp: b bv4_def wf4_def bits4_def set_bit_eq_or bit_1_iff)
    show "wf4 (bv_SetBitAt bv4 b 1 True) \<and> bits4 (bv_SetBitAt bv4 b 1 True) = (bits4 b)[1 := True]"
      using x by (auto simp: b bv4_def wf4_def bits4_def set_bit_eq_or bit_1_iff)
    show "wf4 (bv_Shift bv4 b 1) \<and> bits4 (bv_Shift bv4 b 1) = False # butlast (bits4 b)"
      using x by (auto simp: b bv4_def wf4_def bits4_def bit_1_iff)
    show "bv_BitAt bv4 b 0 = bits4 b ! 0 \<and> bv_BitAt bv4 b 1 = bits4 b ! 1"
      by (simp add: b bv4_def bits4_def)
  qed
  moreover have "bv_Bytes bv4 b = b" for b by (simp add: bv4_def)
  ultimately show ?thesis unfolding bitvector4_laws_def by blast
qed

text \<open>C5: justification and finalization is the specification. For balances whose triple fits 64 bits,
  with the block roots at hand and a current justified checkpoint that is older than the current
  epoch and is the previous epoch's where bit 0 says so, the code sets the bits, the justified and
  the finalized checkpoint of \<^verbatim>\<open>weigh_justification_and_finalization\<close>, changes nothing else, and
  leaves a state where bit 0 again tells whether the current epoch is the justified one.\<close>

theorem justification_is_spec:
  assumes B: "bitvector4_laws B" "wf4 (bs_justificationBits s)" and c: "valid_config c"
      and late: "EpochStart c 2 = Inr x" "x < bs_slot s"
      and cur: "cur = bs_slot s div SlotsPerEpoch c"
      and roots: "BlockRoot c s cur = Inr (rt cur)" "BlockRoot c s (cur - 1) = Inr (rt (cur - 1))"
      and old: "cp_Epoch (bs_currentJustifiedCheckpoint s) \<le> cur - 1"
        "cp_Epoch (bs_previousJustifiedCheckpoint s) \<le> cur - 1" "unat cur + 2 < 2 ^ 64"
        "bits4 (bs_justificationBits s) ! 0 \<longrightarrow>
           bs_currentJustifiedCheckpoint s = \<lparr>cp_Epoch = cur - 1, cp_Root = rt (cur - 1)\<rparr>"
      and small: "3 * unat (pb_ActiveCurrentEpoch p) < 2 ^ 64" "3 * unat (pb_PrevEpochTargetAttested p) < 2 ^ 64"
        "3 * unat (pb_CurrentEpochTargetAttested p) < 2 ^ 64"
  shows "\<exists>nb jc fc. ProcessJustificationAndFinalizationPreCompute c B p s = Inr
           (s\<lparr>bs_previousJustifiedCheckpoint := bs_currentJustifiedCheckpoint s,
              bs_currentJustifiedCheckpoint := jc, bs_justificationBits := nb, bs_finalizedCheckpoint := fc\<rparr>) \<and>
         wf4 nb \<and>
         (bits4 nb, jc, fc) = spec_weigh cur rt (bits4 (bs_justificationBits s)) (bs_previousJustifiedCheckpoint s)
            (bs_currentJustifiedCheckpoint s) (bs_finalizedCheckpoint s) (unat (pb_ActiveCurrentEpoch p))
            (unat (pb_PrevEpochTargetAttested p)) (unat (pb_CurrentEpochTargetAttested p)) \<and>
         (bits4 nb ! 0 \<longrightarrow> jc = \<lparr>cp_Epoch = cur, cp_Root = rt cur\<rparr>)"
proof -
  define nb where "nb = processJustificationBits B s (pb_ActiveCurrentEpoch p)
    (pb_PrevEpochTargetAttested p) (pb_CurrentEpochTargetAttested p)"
  note nb = processJustificationBits_spec [OF B small, folded nb_def]
  have cur2: "2 \<le> unat cur" using late_epoch [OF c late] cur by (simp add: word_le_nat_alt)
  then have "unat (cur - 1) = unat cur - 1" "cur \<noteq> 0" by (auto simp: unat_sub_if')
  then have le: "cp_Epoch (bs_currentJustifiedCheckpoint s) \<le> cur"
    "unat (cp_Epoch (bs_previousJustifiedCheckpoint s)) + 3 < 2 ^ 64"
    "unat (cp_Epoch (bs_currentJustifiedCheckpoint s)) + 3 < 2 ^ 64"
    using old(1,2,3) cur2 by (simp_all add: word_le_nat_alt)
  note code = computeCheckpoints_bits [OF B(1) conjunct1 [OF nb] c cur \<open>cur \<noteq> 0\<close> roots old(1) le(1)]
  note spec = spec_weigh_eq [where rt = rt and cur = cur, OF bits4_length [OF B(2)] old(4) le(2,3) conjunct2 [OF nb]]
  have "ProcessJustificationAndFinalizationPreCompute c B p s = weighJustificationAndFinalization c B nb s"
    using late by (simp add: ProcessJustificationAndFinalizationPreCompute_def nb_def not_le [symmetric])
  then show ?thesis
    using code nb unfolding spec by (auto simp: weigh_eq_Inr)
qed

definition pbal_late :: PBalance where
  "pbal_late = zero_PBalance\<lparr>pb_ActiveCurrentEpoch := 96, pb_PrevEpochTargetAttested := 64,
     pb_CurrentEpochTargetAttested := 63\<rparr>"

theorem justification_is_spec_witness:
  "\<exists>nb jc fc. ProcessJustificationAndFinalizationPreCompute mainnetBeaconConfig bv4 pbal_late state_late = Inr
      (state_late\<lparr>bs_previousJustifiedCheckpoint := \<lparr>cp_Epoch = 8, cp_Root = [1]\<rparr>,
         bs_currentJustifiedCheckpoint := jc, bs_justificationBits := nb, bs_finalizedCheckpoint := fc\<rparr>) \<and>
    bits4 nb = [False, True, True, False] \<and> jc = \<lparr>cp_Epoch = 8, cp_Root = [1]\<rparr> \<and>
    fc = \<lparr>cp_Epoch = 7, cp_Root = [1]\<rparr>"
proof -
  let ?c = mainnetBeaconConfig
  have run: "bs_slot state_late div SlotsPerEpoch ?c = 9" "EpochStart ?c 2 = Inr 64" "64 < bs_slot state_late"
    "wf4 (bs_justificationBits state_late)" "bits4 (bs_justificationBits state_late) = [True, True, False, False]"
    "bs_currentJustifiedCheckpoint state_late = \<lparr>cp_Epoch = 8, cp_Root = [1]\<rparr>"
    "bs_previousJustifiedCheckpoint state_late = \<lparr>cp_Epoch = 7, cp_Root = [1]\<rparr>"
    "bs_finalizedCheckpoint state_late = \<lparr>cp_Epoch = 6, cp_Root = [1]\<rparr>"
    "pb_ActiveCurrentEpoch pbal_late = 96" "pb_PrevEpochTargetAttested pbal_late = 64"
    "pb_CurrentEpochTargetAttested pbal_late = 63"
    by code_simp+
  have root: "BlockRoot ?c state_late 9 = Inr [1]" "BlockRoot ?c state_late 8 = Inr [1]" by code_simp+
  have "spec_weigh 9 (\<lambda>_. [1]) [True, True, False, False] \<lparr>cp_Epoch = 7, cp_Root = [1]\<rparr>
      \<lparr>cp_Epoch = 8, cp_Root = [1]\<rparr> \<lparr>cp_Epoch = 6, cp_Root = [1]\<rparr> 96 64 63
    = ([False, True, True, False], \<lparr>cp_Epoch = 8, cp_Root = [1]\<rparr>, \<lparr>cp_Epoch = 7, cp_Root = [1]\<rparr>)"
    by code_simp
  then show ?thesis
    using justification_is_spec [OF bv4_laws run(4) valid_config_mainnet run(2,3) run(1) [symmetric],
        where rt = "\<lambda>_. [1]" and p = pbal_late] root
    by (simp add: run) blast
qed

text \<open>C13: finality never moves back. Whatever the attested balances and whatever the bit vector library
  does, a completed step keeps the order finalized, previous justified, current justified, current
  epoch, never lowers a justified or finalized epoch, and finalizes only a checkpoint that was
  justified before.\<close>

theorem finality_monotone:
  assumes "valid_config c" "ProcessJustificationAndFinalizationPreCompute c B p s = Inr s'"
      and "cp_Epoch (bs_finalizedCheckpoint s) \<le> cp_Epoch (bs_previousJustifiedCheckpoint s)"
        "cp_Epoch (bs_previousJustifiedCheckpoint s) \<le> cp_Epoch (bs_currentJustifiedCheckpoint s)"
        "cp_Epoch (bs_currentJustifiedCheckpoint s) \<le> bs_slot s div SlotsPerEpoch c"
  shows "cp_Epoch (bs_finalizedCheckpoint s') \<le> cp_Epoch (bs_previousJustifiedCheckpoint s') \<and>
    cp_Epoch (bs_previousJustifiedCheckpoint s') \<le> cp_Epoch (bs_currentJustifiedCheckpoint s') \<and>
    cp_Epoch (bs_currentJustifiedCheckpoint s') \<le> bs_slot s' div SlotsPerEpoch c \<and>
    cp_Epoch (bs_finalizedCheckpoint s) \<le> cp_Epoch (bs_finalizedCheckpoint s') \<and>
    cp_Epoch (bs_previousJustifiedCheckpoint s) \<le> cp_Epoch (bs_previousJustifiedCheckpoint s') \<and>
    cp_Epoch (bs_currentJustifiedCheckpoint s) \<le> cp_Epoch (bs_currentJustifiedCheckpoint s') \<and>
    bs_finalizedCheckpoint s' \<in> {bs_finalizedCheckpoint s, bs_previousJustifiedCheckpoint s,
      bs_currentJustifiedCheckpoint s}"
proof -
  have "s' = s \<or> (\<exists>nb jc fc. computeCheckpoints c B s nb = Inr (jc, fc) \<and>
        s' = s\<lparr>bs_previousJustifiedCheckpoint := bs_currentJustifiedCheckpoint s,
          bs_currentJustifiedCheckpoint := jc, bs_justificationBits := nb, bs_finalizedCheckpoint := fc\<rparr>)"
    using assms(2) by (auto simp: ProcessJustificationAndFinalizationPreCompute_def bindR_eq_Inr weigh_eq_Inr
        split: if_splits)
  then show ?thesis
    using assms(3-5) by (auto dest: computeCheckpoints_bounds [OF assms(1) _ refl assms(3-5)])
qed

theorem finality_monotone_witness:
  "\<exists>s'. ProcessJustificationAndFinalizationPreCompute mainnetBeaconConfig bv4 pbal_late state_late = Inr s' \<and>
     cp_Epoch (bs_finalizedCheckpoint s') \<le> cp_Epoch (bs_previousJustifiedCheckpoint s') \<and>
     6 \<le> cp_Epoch (bs_finalizedCheckpoint s') \<and> 8 \<le> cp_Epoch (bs_currentJustifiedCheckpoint s')"
proof -
  have "\<not> isl (ProcessJustificationAndFinalizationPreCompute mainnetBeaconConfig bv4 pbal_late state_late)"
    by code_simp
  then obtain s' where s': "ProcessJustificationAndFinalizationPreCompute mainnetBeaconConfig bv4 pbal_late state_late
    = Inr s'" by (metis sum.collapse(2))
  have "cp_Epoch (bs_finalizedCheckpoint state_late) = 6" "cp_Epoch (bs_previousJustifiedCheckpoint state_late) = 7"
    "cp_Epoch (bs_currentJustifiedCheckpoint state_late) = 8"
    "bs_slot state_late div SlotsPerEpoch mainnetBeaconConfig = 9" by code_simp+
  then show ?thesis using finality_monotone [OF valid_config_mainnet s'] s' by simp
qed

end
