(* ===== verification/Bytesutil.thy ===== *)
theory Bytesutil
  imports Primitives
begin

text \<open>
  \<^verbatim>\<open>src/encoding/bytesutil\<close>: integers as byte slices, padding, bit lists. A byte slice is a list of bytes
  and a fixed-size array a list of that length. \<^verbatim>\<open>binary.LittleEndian\<close> and \<^verbatim>\<open>binary.BigEndian\<close> of Go's
  standard library are \<open>put_le\<close>, \<open>get_le\<close> and their reversals. The conversions through
  \<^verbatim>\<open>big.Int\<close> and the hexadecimal decoder, which is third-party code, are left out.
\<close>

unbundle bit_operations_syntax

type_synonym bytes = "u8 list"

section \<open>The byte order of encoding/binary\<close>

definition put_le :: "nat \<Rightarrow> u64 \<Rightarrow> bytes" where
  "put_le n x = map (\<lambda>i. ucast (drop_bit (8 * i) x)) [0..<n]"

primrec get_le :: "bytes \<Rightarrow> u64" where
  "get_le [] = 0"
| "get_le (b # bs) = ucast b OR push_bit 8 (get_le bs)"

text \<open>\<^verbatim>\<open>Uint64\<close> reads the first eight bytes and panics when there are fewer.\<close>

definition le_Uint64 :: "bytes \<Rightarrow> u64 result" where
  "le_Uint64 b = (if length b < 8 then Inl (Panic ''index out of range'') else Inr (get_le (take 8 b)))"

definition be_Uint64 :: "bytes \<Rightarrow> u64 result" where
  "be_Uint64 b = (if length b < 8 then Inl (Panic ''index out of range'') else Inr (get_le (rev (take 8 b))))"

section \<open>Integers\<close>

definition ToBytes :: "u64 \<Rightarrow> int \<Rightarrow> bytes" where
  "ToBytes x len =
     (let l = (if len < 0 then 0 else nat len); makeLength = max l 8
      in take l (put_le 8 x @ replicate (makeLength - 8) 0))"

definition Bytes1 :: "u64 \<Rightarrow> bytes" where "Bytes1 x = take 1 (put_le 8 x)"
definition Bytes2 :: "u64 \<Rightarrow> bytes" where "Bytes2 x = take 2 (put_le 8 x)"
definition Bytes3 :: "u64 \<Rightarrow> bytes" where "Bytes3 x = take 3 (put_le 8 x)"
definition Bytes4 :: "u64 \<Rightarrow> bytes" where "Bytes4 x = take 4 (put_le 8 x)"
definition Bytes8 :: "u64 \<Rightarrow> bytes" where "Bytes8 x = put_le 8 x"

definition Bytes32 :: "u64 \<Rightarrow> bytes" where
  "Bytes32 x = put_le 8 x @ replicate 24 0"

text \<open>The \<^verbatim>\<open>uint16\<close> that \<^verbatim>\<open>FromBytes2\<close> returns is given as a \<open>u64\<close>. In \<^verbatim>\<open>FromBytes4\<close> the \<^verbatim>\<open>append\<close> to \<^verbatim>\<open>x[:4]\<close>
  also clears the bytes 4 to 7 of a longer \<^verbatim>\<open>x\<close>; only the result is modelled.\<close>

definition FromBytes2 :: "bytes \<Rightarrow> u64" where
  "FromBytes2 x = (if length x < 2 then 0 else get_le (take 2 x))"

definition FromBytes4 :: "bytes \<Rightarrow> u64 result" where
  "FromBytes4 x = (if length x < 4 then Inr 0 else le_Uint64 (take 4 x @ replicate 4 0))"

definition FromBytes8 :: "bytes \<Rightarrow> u64 result" where
  "FromBytes8 x = (if length x < 8 then Inr 0 else le_Uint64 x)"

definition ToLowInt64 :: "bytes \<Rightarrow> int result" where
  "ToLowInt64 x = (if length x < 8 then Inr 0
     else bindR (le_Uint64 (take 8 x)) (\<lambda>v. Inr (i64_of_u64 v)))"

definition Uint64ToBytesLittleEndian :: "u64 \<Rightarrow> bytes" where
  "Uint64ToBytesLittleEndian i = put_le 8 i"

definition Uint64ToBytesLittleEndian32 :: "u64 \<Rightarrow> bytes" where
  "Uint64ToBytesLittleEndian32 i = put_le 8 i @ replicate 24 0"

definition Uint64ToBytesBigEndian :: "u64 \<Rightarrow> bytes" where
  "Uint64ToBytesBigEndian i = rev (put_le 8 i)"

definition BytesToUint64BigEndian :: "bytes \<Rightarrow> u64 result" where
  "BytesToUint64BigEndian b = (if length b < 8 then Inr 0 else be_Uint64 b)"

text \<open>\<^verbatim>\<open>PutLittleEndian\<close> overwrites the front of the destination and panics when it is too short; another
  size than 1, 2, 4 or 8 writes nothing.\<close>

definition PutLittleEndian :: "bytes \<Rightarrow> u64 \<Rightarrow> int \<Rightarrow> bytes result" where
  "PutLittleEndian dst val sz =
     (if sz \<in> {1, 2, 4, 8}
      then if length dst < nat sz then Inl (Panic ''index out of range'')
           else Inr (put_le (nat sz) val @ drop (nat sz) dst)
      else Inr dst)"

section \<open>Slices and arrays\<close>

definition PadTo :: "bytes \<Rightarrow> int \<Rightarrow> bytes" where
  "PadTo b sz = (if int (length b) \<ge> sz then b else b @ replicate (nat sz - length b) 0)"

definition ToBytes4 :: "bytes \<Rightarrow> bytes" where "ToBytes4 x = take 4 (PadTo x 4)"
definition ToBytes20 :: "bytes \<Rightarrow> bytes" where "ToBytes20 x = take 20 (PadTo x 20)"
definition ToBytes32 :: "bytes \<Rightarrow> bytes" where "ToBytes32 x = take 32 (PadTo x 32)"
definition ToBytes48 :: "bytes \<Rightarrow> bytes" where "ToBytes48 x = take 48 (PadTo x 48)"
definition ToBytes64 :: "bytes \<Rightarrow> bytes" where "ToBytes64 x = take 64 (PadTo x 64)"
definition ToBytes96 :: "bytes \<Rightarrow> bytes" where "ToBytes96 x = take 96 (PadTo x 96)"

definition ToBytes48Array :: "bytes list \<Rightarrow> bytes list" where
  "ToBytes48Array x = map ToBytes48 x"

definition ToBool :: "u8 \<Rightarrow> bool" where
  "ToBool x \<longleftrightarrow> x AND 1 = 1"

definition FromBool :: "bool \<Rightarrow> u8" where
  "FromBool x = (if x then 1 else 0)"

definition Trunc :: "bytes \<Rightarrow> bytes" where
  "Trunc x = (if length x > 6 then take 6 x else x)"

text \<open>A nil slice of roots is \<open>None\<close>.\<close>

definition SafeCopyRootAtIndex :: "bytes list option \<Rightarrow> u64 \<Rightarrow> bytes option result" where
  "SafeCopyRootAtIndex input i =
     (case input of None \<Rightarrow> Inr None
      | Some rs \<Rightarrow> if length rs \<le> unat i then Inl (Err ''index out of range'')
                  else Inr (Some (take 32 (rs ! unat i) @ replicate (32 - length (rs ! unat i)) 0)))"

definition swap :: "nat \<Rightarrow> nat \<Rightarrow> 'a list \<Rightarrow> 'a list" where
  "swap i j xs = xs[i := xs ! j, j := xs ! i]"

text \<open>The loop with the two indices that meet in the middle.\<close>

fun reverse_from :: "nat \<Rightarrow> int \<Rightarrow> 'a list \<Rightarrow> 'a list" where
  "reverse_from i j xs = (if int i < j then reverse_from (i + 1) (j - 1) (swap i (nat j) xs) else xs)"

definition ReverseBytes32Slice :: "bytes list \<Rightarrow> bytes list" where
  "ReverseBytes32Slice arr = reverse_from 0 (int (length arr) - 1) arr"

definition ReverseByteOrder :: "bytes \<Rightarrow> bytes" where
  "ReverseByteOrder input =
     fold (\<lambda>i b. swap i (length b - i - 1) b) [0..<length input div 2] input"

definition ZeroRoot :: "bytes \<Rightarrow> bool" where
  "ZeroRoot root \<longleftrightarrow> replicate 32 0 = root"

definition IsRoot :: "bytes \<Rightarrow> bool" where
  "IsRoot root \<longleftrightarrow> length root = 32"

definition IsValidRoot :: "bytes \<Rightarrow> bool" where
  "IsValidRoot root \<longleftrightarrow> IsRoot root \<and> \<not> ZeroRoot root"

definition EpochToBytesLittleEndian :: "Epoch \<Rightarrow> bytes" where
  "EpochToBytesLittleEndian i = Uint64ToBytesLittleEndian i"

definition EpochToBytesBigEndian :: "Epoch \<Rightarrow> bytes" where
  "EpochToBytesBigEndian i = Uint64ToBytesBigEndian i"

definition BytesToEpochBigEndian :: "bytes \<Rightarrow> Epoch result" where
  "BytesToEpochBigEndian b = BytesToUint64BigEndian b"

definition SlotToBytesBigEndian :: "Slot \<Rightarrow> bytes" where
  "SlotToBytesBigEndian i = Uint64ToBytesBigEndian i"

definition BytesToSlotBigEndian :: "bytes \<Rightarrow> Slot result" where
  "BytesToSlotBigEndian b = BytesToUint64BigEndian b"

section \<open>Bit lists\<close>

text \<open>A negative index panics, either as a negative shift or as a negative index.\<close>

definition SetBit :: "bytes \<Rightarrow> int \<Rightarrow> bytes result" where
  "SetBit b i =
     (if i < 0 then Inl (Panic ''negative shift amount'')
      else let i = nat i;
               b' = (if i \<ge> length b * 8
                     then let h = (i + (8 - i mod 8)) div 8 in b @ replicate (h - length b) 0 else b)
           in bindR (idx b' (i div 8)) (\<lambda>x. Inr (b'[i div 8 := x OR push_bit (i mod 8) 1])))"

definition ClearBit :: "bytes \<Rightarrow> int \<Rightarrow> bytes" where
  "ClearBit b i =
     (if i \<ge> int (length b) * 8 \<or> i < 0 then b
      else let i = nat i in b[i div 8 := b ! (i div 8) AND NOT (push_bit (i mod 8) 1)])"

text \<open>Go's remainder has the sign of the dividend; \<^verbatim>\<open>make\<close> panics on a negative length.\<close>

definition MakeEmptyBitlists :: "int \<Rightarrow> bytes result" where
  "MakeEmptyBitlists i =
     (let n = quot_i64 (to_i64 (i + (8 - (i - 8 * quot_i64 i 8)))) 8 in
      if n < 0 then Inl (Panic ''makeslice: len out of range'') else Inr (replicate (nat n) 0))"

text \<open>\<^verbatim>\<open>bits.Len8\<close>: the number of bits needed for a byte.\<close>

primrec len8_upto :: "nat \<Rightarrow> u8 \<Rightarrow> nat" where
  "len8_upto 0 x = 0"
| "len8_upto (Suc k) x = (if bit x k then Suc k else len8_upto k x)"

definition Len8 :: "u8 \<Rightarrow> nat" where
  "Len8 x = len8_upto 8 x"

primrec highest_from :: "bytes \<Rightarrow> nat \<Rightarrow> nat" where
  "highest_from b 0 = 0"
| "highest_from b (Suc i) = (if b ! i = 0 then highest_from b i else Len8 (b ! i) + i * 8)"

definition HighestBitIndex :: "bytes \<Rightarrow> nat result" where
  "HighestBitIndex b =
     (if length b = 0 then Inl (Err ''input list can't be empty or nil'')
      else Inr (highest_from b (length b)))"

primrec highestAt_from :: "bytes \<Rightarrow> nat \<Rightarrow> u8 \<Rightarrow> nat \<Rightarrow> nat" where
  "highestAt_from b index msk 0 = 0"
| "highestAt_from b index msk (Suc i) =
     (let msk' = (if index div 8 > i then 0xff else msk);
          minBitsMasked = Len8 (b ! i AND msk')
      in if b ! i = 0 \<or> (minBitsMasked = 0 \<and> index div 8 \<le> i) then highestAt_from b index msk' i
         else minBitsMasked + i * 8)"

definition HighestBitIndexAt :: "bytes \<Rightarrow> int \<Rightarrow> nat result" where
  "HighestBitIndexAt b index =
     (if length b = 0 then Inl (Err ''input list can't be empty or nil'')
      else if index < 0 then Inl (Err ''index is negative'')
      else let index = nat index; start = min (index div 8) (length b - 1);
               msk = push_bit (index mod 8) 1 - 1
           in Inr (highestAt_from b index msk (Suc start)))"

section \<open>Round trips\<close>

lemma length_put_le [simp]: "length (put_le n x) = n"
  by (simp add: put_le_def)

lemma bit_get_le:
  "bit (get_le bs) n \<longleftrightarrow> n < 64 \<and> n div 8 < length bs \<and> bit (bs ! (n div 8)) (n mod 8)"
proof (induction bs arbitrary: n)
  case Nil
  then show ?case by simp
next
  case (Cons b bs)
  show ?case
  proof (cases "n < 8")
    case True
    then show ?thesis by (simp add: bit_or_iff bit_push_bit_iff bit_ucast_iff)
  next
    case False
    then obtain m where m: "n = m + 8" by (metis add.commute le_add_diff_inverse not_less)
    have "\<not> bit b n" using False bit_imp_le_length [of b n] by auto
    then have "bit (get_le (b # bs)) n \<longleftrightarrow> n < 64 \<and> bit (get_le bs) m"
      by (simp add: bit_or_iff bit_push_bit_iff bit_ucast_iff m)
    moreover have "(m + 8) div 8 = Suc (m div 8)" by simp
    ultimately show ?thesis using Cons.IH [of m] by (auto simp: m)
  qed
qed

lemma bit_put_le: "i < n \<Longrightarrow> j < 8 \<Longrightarrow> bit (put_le n x ! i) j \<longleftrightarrow> bit x (8 * i + j)"
  by (simp add: put_le_def bit_ucast_iff bit_drop_bit_eq add.commute)

lemma get_put_le: "get_le (put_le n x) = take_bit (8 * n) x"
proof (rule bit_eqI)
  fix k :: nat
  have "8 * (k div 8) + k mod 8 = k" by simp
  then show "bit (get_le (put_le n x)) k \<longleftrightarrow> bit (take_bit (8 * n) x) k"
    using bit_imp_le_length [of x k]
    by (cases "k div 8 < n") (auto simp: bit_get_le bit_take_bit_iff bit_put_le)
qed

lemma get_put_le8 [simp]: "get_le (put_le 8 x) = x"
  by (simp add: get_put_le take_bit_word_eq_self)

lemma put_get_le: "length bs = n \<Longrightarrow> n \<le> 8 \<Longrightarrow> put_le n (get_le bs) = bs"
proof (rule nth_equalityI)
  fix i assume n: "length bs = n" "n \<le> 8" and i: "i < length (put_le n (get_le bs))"
  then have "i < n" "8 * i + 8 \<le> 64" by auto
  show "put_le n (get_le bs) ! i = bs ! i"
  proof (rule bit_word_eqI)
    fix j :: nat assume "j < LENGTH(8)"
    then show "bit (put_le n (get_le bs) ! i) j \<longleftrightarrow> bit (bs ! i) j"
      using \<open>i < n\<close> \<open>8 * i + 8 \<le> 64\<close> n by (simp add: bit_put_le bit_get_le)
  qed
qed simp

text \<open>C31: the byte conversions are inverse to each other: decoding what was encoded gives the number
  back for both byte orders, and encoding what was decoded from eight bytes gives the bytes back;
  shorter encodings keep the low bytes.\<close>

theorem integer_bytes_roundtrip:
  "FromBytes8 (Bytes8 x) = Inr x \<and> le_Uint64 (Uint64ToBytesLittleEndian x) = Inr x \<and>
   BytesToUint64BigEndian (Uint64ToBytesBigEndian x) = Inr x \<and>
   BytesToSlotBigEndian (SlotToBytesBigEndian s) = Inr s \<and>
   FromBytes4 (Bytes4 x) = Inr (take_bit 32 x) \<and> FromBytes2 (Bytes2 x) = take_bit 16 x \<and>
   (length b = 8 \<longrightarrow> (\<exists>y. FromBytes8 b = Inr y \<and> Bytes8 y = b) \<and>
      (\<exists>y. BytesToUint64BigEndian b = Inr y \<and> Uint64ToBytesBigEndian y = b))"
proof -
  have take: "take n (put_le 8 x) = put_le n x" if "n \<le> 8" for n :: nat
    using that by (simp add: put_le_def take_map)
  have "get_le (put_le 4 x @ replicate 4 0) = take_bit 32 x"
  proof (rule bit_eqI)
    fix k :: nat
    have k: "8 * (k div 8) + k mod 8 = k" "k div 8 < 4 \<longleftrightarrow> k < 32" by auto
    then show "bit (get_le (put_le 4 x @ replicate 4 0)) k \<longleftrightarrow> bit (take_bit 32 x) k"
      by (cases "k < 32") (auto simp: bit_get_le bit_take_bit_iff bit_put_le nth_append)
  qed
  moreover have "put_le 8 (get_le (rev b)) = rev b" "put_le 8 (get_le b) = b" if "length b = 8"
    using that put_get_le [of "rev b" 8] put_get_le [of b 8] by simp_all
  ultimately show ?thesis
    by (simp add: FromBytes8_def Bytes8_def le_Uint64_def Uint64ToBytesLittleEndian_def be_Uint64_def
        BytesToUint64BigEndian_def Uint64ToBytesBigEndian_def BytesToSlotBigEndian_def SlotToBytesBigEndian_def
        FromBytes4_def Bytes4_def FromBytes2_def Bytes2_def take get_put_le take_bit_word_eq_self)
qed

theorem integer_bytes_roundtrip_witness:
  "\<exists>y. FromBytes8 [1, 2, 3, 4, 5, 6, 7, 8] = Inr y \<and> Bytes8 y = [1, 2, 3, 4, 5, 6, 7, 8]"
  using integer_bytes_roundtrip [of 0 0 "[1, 2, 3, 4, 5, 6, 7, 8]"] by simp

end
