(* ===== verification/Shuffle.thy ===== *)
theory Shuffle
  imports Bytesutil Config "HOL-Library.Multiset"
begin

text \<open>
  The swap-or-not shuffle of \<^verbatim>\<open>src/beacon-chain/core/helpers/shuffle.go\<close> and \<^verbatim>\<open>SplitOffset\<close> of
  \<^verbatim>\<open>src/container/slice\<close>. SHA-256 is the argument \<open>H\<close>; the lemmas assume only that it returns 32 bytes.
  The scratch buffer of the source holds the seed, the round and a window of the position; the
  definitions pass its first 33 bytes and write the window next to them. The lemmas show that a
  round is an involution on the positions, that the code permutes the indices, and that the list
  version, which visits every pair once and reuses hashes, agrees with the index version.
\<close>

unbundle bit_operations_syntax

section \<open>The code\<close>

definition maxShuffleListSize :: u64 where
  "maxShuffleListSize = push_bit 40 1"

definition SplitOffset :: "u64 \<Rightarrow> u64 \<Rightarrow> u64 \<Rightarrow> u64 result" where
  "SplitOffset listSize chunks index = udiv (listSize * index) chunks"

text \<open>The slice expression \<^verbatim>\<open>l[a:b]\<close> with its bounds check.\<close>

definition go_slice :: "'a list \<Rightarrow> u64 \<Rightarrow> u64 \<Rightarrow> 'a list result" where
  "go_slice l a b =
     (if unat a \<le> unat b \<and> unat b \<le> length l then Inr (drop (unat a) (take (unat b) l))
      else Inl (Panic ''slice bounds out of range''))"

definition SplitIndices :: "'a list \<Rightarrow> u64 \<Rightarrow> 'a list list result" where
  "SplitIndices l n =
     (let lSize = of_nat (length l) in
      mapR (\<lambda>i. bindR (SplitOffset lSize n (of_nat i)) (\<lambda>start.
                bindR (SplitOffset lSize n (of_nat i + 1)) (\<lambda>end'. go_slice l start end'))) [0..<unat n])"

text \<open>One round of \<^verbatim>\<open>ComputeShuffledIndex\<close>.\<close>

definition shuffle_round ::
    "(bytes \<Rightarrow> bytes) \<Rightarrow> u64 \<Rightarrow> bytes \<Rightarrow> u8 \<Rightarrow> ValidatorIndex \<Rightarrow> ValidatorIndex result" where
  "shuffle_round H indexCount seed round index =
     (let buf = seed @ [round]; h = H buf in
      bindR (FromBytes8 (take 8 h)) (\<lambda>hash8Int.
      bindR (umod hash8Int indexCount) (\<lambda>pivot.
      bindR (umod (pivot + indexCount - index) indexCount) (\<lambda>flip.
      let position = max flip index;
          source = H (buf @ take 4 (put_le 8 (drop_bit 8 position))) in
      bindR (idx source (unat (drop_bit 3 (position AND 0xff)))) (\<lambda>byteV.
      let bitV = drop_bit (unat (position AND 0x7)) byteV AND 0x1 in
      Inr (if bitV = 1 then flip else index))))))"

lemma unat_minus_one_less: "(x :: 'w :: len word) \<noteq> 0 \<Longrightarrow> unat (x - 1) < unat x"
  by (simp add: unat_minus_one unat_gt_0)

lemma count_up_less:
  "round + 1 \<noteq> rounds \<Longrightarrow> unat (rounds - (round + 1 + 1)) < unat (rounds - (round + 1))"
  for round rounds :: u8
  using unat_minus_one_less [of "rounds - (round + 1)"] by (fastforce simp: diff_diff_eq)

lemma unat_inc_less: "i < m \<Longrightarrow> unat (i + 1) = unat i + 1 \<and> unat i < unat m" for i m :: u64
proof -
  assume "i < m"
  then have "i \<noteq> max_u64" by (auto simp: max_u64_def)
  then show ?thesis using \<open>i < m\<close> by (simp add: unat_plus_one_u64 word_less_nat_alt)
qed

text \<open>The two directions of the loop over the rounds, a byte that is counted up to \<^verbatim>\<open>rounds\<close> or down
  to zero.\<close>

function shuffle_up :: "(u8 \<Rightarrow> 'a \<Rightarrow> 'a result) \<Rightarrow> u8 \<Rightarrow> u8 \<Rightarrow> 'a \<Rightarrow> 'a result" where
  "shuffle_up f rounds round x =
     bindR (f round x) (\<lambda>x'. if round + 1 = rounds then Inr x' else shuffle_up f rounds (round + 1) x')"
  by pat_completeness auto
termination
  by (relation "measure (\<lambda>(f, rounds, round, x). unat (rounds - (round + 1)))")
    (simp, simp only: in_measure prod.case, rule count_up_less, assumption)

function shuffle_down :: "(u8 \<Rightarrow> 'a \<Rightarrow> 'a result) \<Rightarrow> u8 \<Rightarrow> 'a \<Rightarrow> 'a result" where
  "shuffle_down f round x =
     bindR (f round x) (\<lambda>x'. if round = 0 then Inr x' else shuffle_down f (round - 1) x')"
  by pat_completeness auto
termination
  by (relation "measure (\<lambda>(f, round, x). unat round)") (auto intro!: unat_minus_one_less)

declare shuffle_up.simps [simp del] shuffle_down.simps [simp del]

definition ComputeShuffledIndex ::
    "BeaconChainConfig \<Rightarrow> (bytes \<Rightarrow> bytes) \<Rightarrow> ValidatorIndex \<Rightarrow> u64 \<Rightarrow> bytes \<Rightarrow> bool \<Rightarrow> ValidatorIndex result" where
  "ComputeShuffledIndex c H index indexCount seed shuffle =
     (if ShuffleRoundCount c = 0 then Inr index
      else if index \<ge> indexCount then Inl (Err ''input index out of bounds'')
      else if indexCount > maxShuffleListSize then Inl (Err ''list size out of bounds'')
      else let rounds = ucast (ShuffleRoundCount c) in
        if shuffle then shuffle_up (shuffle_round H indexCount seed) rounds 0 index
        else shuffle_down (shuffle_round H indexCount seed) (rounds - 1) index)"

definition ShuffledIndex ::
    "BeaconChainConfig \<Rightarrow> (bytes \<Rightarrow> bytes) \<Rightarrow> ValidatorIndex \<Rightarrow> u64 \<Rightarrow> bytes \<Rightarrow> ValidatorIndex result" where
  "ShuffledIndex c H index indexCount seed = ComputeShuffledIndex c H index indexCount seed True"

definition UnShuffledIndex ::
    "BeaconChainConfig \<Rightarrow> (bytes \<Rightarrow> bytes) \<Rightarrow> ValidatorIndex \<Rightarrow> u64 \<Rightarrow> bytes \<Rightarrow> ValidatorIndex result" where
  "UnShuffledIndex c H index indexCount seed = ComputeShuffledIndex c H index indexCount seed False"

text \<open>\<^verbatim>\<open>input[i], input[j] = input[j], input[i]\<close>\<close>

definition swap_at :: "u64 \<Rightarrow> u64 \<Rightarrow> 'a list \<Rightarrow> 'a list result" where
  "swap_at i j input =
     (if unat i < length input \<and> unat j < length input then Inr (swap (unat i) (unat j) input)
      else Inl (Panic ''index out of range''))"

definition swapOrNot ::
    "(bytes \<Rightarrow> bytes) \<Rightarrow> bytes \<Rightarrow> u64 \<Rightarrow> u64 \<Rightarrow> u8 \<times> bytes \<times> 'a list \<Rightarrow> (u8 \<times> bytes \<times> 'a list) result" where
  "swapOrNot H buf i j = (\<lambda>(byteV0, source0, input).
     let source = (if j AND 0xff = 0xff then H (buf @ put_le 4 (drop_bit 8 j)) else source0) in
     bindR (if j AND 0x7 = 0x7 then idx source (unat (drop_bit 3 (j AND 0xff))) else Inr byteV0) (\<lambda>byteV.
     let bitV = drop_bit (unat (j AND 0x7)) byteV AND 0x1 in
     bindR (if bitV = 1 then swap_at i j input else Inr input) (\<lambda>input'.
     Inr (byteV, source, input'))))"

text \<open>\<^verbatim>\<open>for i, j := a, b; i < mirror; i, j = i+1, j-1\<close>\<close>

function mirror_loop ::
    "(bytes \<Rightarrow> bytes) \<Rightarrow> bytes \<Rightarrow> u64 \<Rightarrow> u64 \<Rightarrow> u64 \<Rightarrow> u8 \<times> bytes \<times> 'a list \<Rightarrow> (u8 \<times> bytes \<times> 'a list) result" where
  "mirror_loop H buf mirror i j st =
     (if i < mirror
      then bindR (swapOrNot H buf i j st) (\<lambda>st'. mirror_loop H buf mirror (i + 1) (j - 1) st')
      else Inr st)"
  by pat_completeness auto
termination
  by (relation "measure (\<lambda>(H, buf, mirror, i, j, st). unat mirror - unat i)")
    (auto dest: unat_inc_less)

declare mirror_loop.simps [simp del]

definition list_round :: "(bytes \<Rightarrow> bytes) \<Rightarrow> bytes \<Rightarrow> u8 \<Rightarrow> 'a list \<Rightarrow> 'a list result" where
  "list_round H seed r input =
     (let listSize = of_nat (length input); buf = seed @ [r]; ph = H buf in
      bindR (le_Uint64 (take 8 ph)) (\<lambda>h8.
      bindR (umod h8 listSize) (\<lambda>pivot.
      let source = H (buf @ put_le 4 (drop_bit 8 pivot)) in
      bindR (idx source (unat (drop_bit 3 (pivot AND 0xff)))) (\<lambda>byteV.
      bindR (mirror_loop H buf (drop_bit 1 (pivot + 1)) 0 pivot (byteV, source, input)) (\<lambda>(_, _, input1).
      let end' = listSize - 1; source1 = H (buf @ put_le 4 (drop_bit 8 end')) in
      bindR (idx source1 (unat (drop_bit 3 (end' AND 0xff)))) (\<lambda>byteV1.
      bindR (mirror_loop H buf (drop_bit 1 (pivot + listSize + 1)) (pivot + 1) end' (byteV1, source1, input1))
        (\<lambda>(_, _, input2). Inr input2)))))))"

definition innerShuffleList ::
    "BeaconChainConfig \<Rightarrow> (bytes \<Rightarrow> bytes) \<Rightarrow> 'a list \<Rightarrow> bytes \<Rightarrow> bool \<Rightarrow> 'a list result" where
  "innerShuffleList c H input seed shuffle =
     (if length input \<le> 1 then Inr input
      else if of_nat (length input) > maxShuffleListSize then Inl (Err ''list size out of bounds'')
      else let rounds = ucast (ShuffleRoundCount c) :: u8 in
        if rounds = 0 then Inr input
        else if shuffle then shuffle_up (list_round H seed) rounds 0 input
        else shuffle_down (list_round H seed) (rounds - 1) input)"

definition ShuffleList :: "BeaconChainConfig \<Rightarrow> (bytes \<Rightarrow> bytes) \<Rightarrow> 'a list \<Rightarrow> bytes \<Rightarrow> 'a list result" where
  "ShuffleList c H input seed = innerShuffleList c H input seed True"

definition UnshuffleList :: "BeaconChainConfig \<Rightarrow> (bytes \<Rightarrow> bytes) \<Rightarrow> 'a list \<Rightarrow> bytes \<Rightarrow> 'a list result" where
  "UnshuffleList c H input seed = innerShuffleList c H input seed False"

section \<open>Rounds\<close>

text \<open>What the code relies on of the hash.\<close>

definition hash32 :: "(bytes \<Rightarrow> bytes) \<Rightarrow> bool" where
  "hash32 H \<longleftrightarrow> (\<forall>x. length (H x) = 32)"

lemma hash32D: "hash32 H \<Longrightarrow> length (H x) = 32"
  by (simp add: hash32_def)

lemma unat_low_bits:
  fixes x :: u64
  shows "unat (x AND 0xff) = unat x mod 256" "unat (x AND 0x7) = unat x mod 8"
    "unat (drop_bit 3 x) = unat x div 8" "unat (drop_bit 8 x) = unat x div 256" "unat (drop_bit 1 x) = unat x div 2"
proof -
  have "(0xff :: u64) = mask 8" "(0x7 :: u64) = mask 3" by (simp_all add: mask_eq_exp_minus_1)
  then show "unat (x AND 0xff) = unat x mod 256" "unat (x AND 0x7) = unat x mod 8"
    by (simp_all only: flip: take_bit_eq_mask) (simp_all add: unsigned_take_bit_eq take_bit_eq_mod unat_mod_u64)
  show "unat (drop_bit 3 x) = unat x div 8" "unat (drop_bit 8 x) = unat x div 256" "unat (drop_bit 1 x) = unat x div 2"
    by (simp_all add: unsigned_drop_bit_eq drop_bit_eq_div take_bit_nat_eq_self unat_div_u64)
qed

lemma low_bit_iff: "drop_bit k b AND 1 = 1 \<longleftrightarrow> bit b k" for b :: u8
  by (simp add: and_one_eq bit_iff_odd_drop_bit odd_iff_mod_2_eq_one)

text \<open>The bit that decides about the pair whose larger member is \<open>pos\<close>, and a round as a function on
  the positions.\<close>

definition swap_bit :: "(bytes \<Rightarrow> bytes) \<Rightarrow> bytes \<Rightarrow> nat \<Rightarrow> bool" where
  "swap_bit H buf pos = bit (H (buf @ put_le 4 (of_nat (pos div 256))) ! (pos mod 256 div 8)) (pos mod 8)"

definition flip_of :: "nat \<Rightarrow> nat \<Rightarrow> nat \<Rightarrow> nat" where
  "flip_of n p x = (p + n - x) mod n"

definition round_perm :: "nat \<Rightarrow> nat \<Rightarrow> (nat \<Rightarrow> bool) \<Rightarrow> nat \<Rightarrow> nat" where
  "round_perm n p b x = (if b (max (flip_of n p x) x) then flip_of n p x else x)"

definition pivot_of :: "(bytes \<Rightarrow> bytes) \<Rightarrow> bytes \<Rightarrow> nat \<Rightarrow> nat" where
  "pivot_of H buf n = unat (get_le (take 8 (H buf))) mod n"

lemma flip_of_cases:
  assumes "x < n" "p < n"
  shows "flip_of n p x = (if x \<le> p then p - x else p + n - x)"
proof (cases "x \<le> p")
  case True
  then have "p + n - x = (p - x) + n" by simp
  then have "flip_of n p x = (p - x) mod n" by (simp only: flip_of_def mod_add_self2)
  then show ?thesis using True assms by simp
next
  case False
  then show ?thesis using assms by (simp add: flip_of_def)
qed

lemma flip_of_lt: "x < n \<Longrightarrow> flip_of n p x < n"
  by (simp add: flip_of_def)

lemma flip_of_invol: "x < n \<Longrightarrow> p < n \<Longrightarrow> flip_of n p (flip_of n p x) = x"
  using flip_of_lt [of x n p] by (auto simp: flip_of_cases split: if_splits)

lemma round_perm_lt: "x < n \<Longrightarrow> round_perm n p b x < n"
  by (simp add: round_perm_def flip_of_lt)

lemma round_perm_invol: "x < n \<Longrightarrow> p < n \<Longrightarrow> round_perm n p b (round_perm n p b x) = x"
  by (simp add: round_perm_def flip_of_invol max.commute)

lemma shuffle_round_perm:
  assumes H: "hash32 H" and n: "index < n" "n \<le> maxShuffleListSize"
  shows "shuffle_round H n seed r index = Inr (of_nat (round_perm (unat n) (pivot_of H (seed @ [r]) (unat n))
           (swap_bit H (seed @ [r])) (unat index)))"
proof -
  let ?buf = "seed @ [r]" and ?x = "unat index" and ?n = "unat n"
  define pivot where "pivot = get_le (take 8 (H ?buf)) mod n"
  define flip where "flip = (pivot + n - index) mod n"
  define position where "position = max flip index"
  have small: "?n \<le> 2 ^ 40" "?x < ?n"
    using n by (simp_all add: maxShuffleListSize_def word_le_nat_alt word_less_nat_alt)
  have nz: "n \<noteq> 0" using n(1) by auto
  have p: "unat pivot = pivot_of H ?buf ?n" by (simp add: pivot_def pivot_of_def unat_mod_u64)
  have pn: "unat pivot < ?n" using p small by (simp add: pivot_of_def)
  have sum: "unat (pivot + n) = unat pivot + ?n" using pn small by (intro unat_add_u64) simp
  then have "index \<le> pivot + n" using small by (simp add: word_le_nat_alt)
  then have f: "unat flip = flip_of ?n (unat pivot) ?x"
    by (simp add: flip_def unat_mod_u64 unat_sub_u64 sum flip_of_def)
  then have pos: "unat position = max (flip_of ?n (unat pivot) ?x) ?x"
    by (simp add: position_def max_def word_le_nat_alt)
  have put: "take 4 (put_le 8 (drop_bit 8 position)) = put_le 4 (of_nat (unat position div 256))"
    by (simp add: put_le_def take_map unat_low_bits(4) [symmetric])
  have "unat (drop_bit 3 (position AND 0xff)) = unat position mod 256 div 8"
    "unat (position AND 0x7) = unat position mod 8" by (simp_all only: unat_low_bits)
  moreover have "unat position mod 256 div 8 < 32" by (rule less_mult_imp_div_less) simp
  ultimately have "shuffle_round H n seed r index = Inr (if swap_bit H ?buf (unat position) then flip else index)"
    using nz by (simp add: shuffle_round_def Let_def FromBytes8_def le_Uint64_def hash32D [OF H] put low_bit_iff swap_bit_def
        flip: pivot_def flip_def position_def)
  moreover have "flip = of_nat (flip_of ?n (unat pivot) ?x)" "index = of_nat ?x" using f by (simp_all flip: f)
  ultimately show ?thesis by (simp add: round_perm_def pos p)
qed

text \<open>The rounds that the loops visit.\<close>

definition round_list :: "u8 \<Rightarrow> u8 list" where
  "round_list rounds = map of_nat [0..<unat (rounds - 1) + 1]"

lemma shuffle_up_from:
  "shuffle_up f rounds r x = foldR f (map (\<lambda>i. r + of_nat i) [0..<unat (rounds - (r + 1)) + 1]) x"
proof (induction f rounds r x rule: shuffle_up.induct)
  case (1 f rounds r x)
  show ?case
  proof (cases "r + 1 = rounds")
    case True
    then show ?thesis by (simp add: shuffle_up.simps [of f rounds r x] bindR_def split: sum.splits)
  next
    case False
    let ?k = "unat (rounds - (r + 1 + 1))"
    have "unat (rounds - (r + 1)) = ?k + 1"
      using False unat_minus_one [of "rounds - (r + 1)"] unat_gt_0 [of "rounds - (r + 1)"]
      by (simp add: diff_diff_eq add.assoc)
    then have "map (\<lambda>i. r + of_nat i) [0..<unat (rounds - (r + 1)) + 1]
        = r # map (\<lambda>i. r + 1 + of_nat i) [0..<?k + 1]"
      by (simp add: upt_conv_Cons map_Suc_upt [symmetric] del: upt_Suc)
    then show ?thesis
      using False 1 [of _] by (simp add: shuffle_up.simps [of f rounds r x] bindR_def split: sum.splits)
  qed
qed

lemma shuffle_up_rounds: "shuffle_up f rounds 0 x = foldR f (round_list rounds) x"
  by (simp add: shuffle_up_from round_list_def)

lemma shuffle_down_from: "shuffle_down f r x = foldR f (rev (map of_nat [0..<unat r + 1])) x"
proof (induction f r x rule: shuffle_down.induct)
  case (1 f r x)
  show ?case
  proof (cases "r = 0")
    case True
    then show ?thesis by (simp add: shuffle_down.simps [of f 0 x] bindR_def split: sum.splits)
  next
    case False
    then have "unat r = unat (r - 1) + 1" using unat_minus_one [of r] unat_gt_0 [of r] by simp
    then have "rev (map of_nat [0..<unat r + 1]) = r # rev (map of_nat [0..<unat (r - 1) + 1])"
      by (simp del: upt_Suc) (simp add: upt_Suc_append)
    then show ?thesis
      using False 1 by (simp add: shuffle_down.simps [of f r x] bindR_def split: sum.splits)
  qed
qed

lemma shuffle_down_rounds: "shuffle_down f (rounds - 1) x = foldR f (rev (round_list rounds)) x"
  by (simp add: shuffle_down_from round_list_def)

section \<open>The index shuffle is a permutation\<close>

text \<open>The composition of rounds, first round of the list first.\<close>

definition rounds_perm :: "(bytes \<Rightarrow> bytes) \<Rightarrow> bytes \<Rightarrow> nat \<Rightarrow> u8 list \<Rightarrow> nat \<Rightarrow> nat" where
  "rounds_perm H seed n rs = fold (\<lambda>r. round_perm n (pivot_of H (seed @ [r]) n) (swap_bit H (seed @ [r]))) rs"

lemma rounds_perm_lt: "x < n \<Longrightarrow> rounds_perm H seed n rs x < n"
  unfolding rounds_perm_def by (induction rs arbitrary: x) (simp_all add: round_perm_lt)

lemma rounds_perm_rev: "x < n \<Longrightarrow> rounds_perm H seed n (rev rs) (rounds_perm H seed n rs x) = x"
  unfolding rounds_perm_def
proof (induction rs arbitrary: x)
  case Nil
  then show ?case by simp
next
  case (Cons r rs)
  then have "pivot_of H (seed @ [r]) n < n" by (simp add: pivot_of_def)
  then show ?case using Cons by (simp add: round_perm_lt round_perm_invol)
qed

lemma foldR_shuffle_round:
  assumes H: "hash32 H" and n: "n \<le> maxShuffleListSize" and x: "index < n"
  shows "foldR (shuffle_round H n seed) rs index = Inr (of_nat (rounds_perm H seed (unat n) rs (unat index)))"
  using x
proof (induction rs arbitrary: index)
  case Nil
  then show ?case by (simp add: rounds_perm_def)
next
  case (Cons r rs)
  let ?y = "round_perm (unat n) (pivot_of H (seed @ [r]) (unat n)) (swap_bit H (seed @ [r])) (unat index)"
  have y: "?y < unat n" using Cons.prems by (intro round_perm_lt) (simp add: word_less_nat_alt)
  then have "unat (of_nat ?y :: u64) = ?y" using unat_u64_lt [of n] by (intro unat_of_nat_u64) linarith
  then show ?case
    using Cons.IH [of "of_nat ?y"] y
    by (simp add: shuffle_round_perm [OF H Cons.prems n] word_less_nat_alt rounds_perm_def)
qed

lemma ComputeShuffledIndex_perm:
  assumes H: "hash32 H" and n: "n \<le> maxShuffleListSize" "index < n" and r: "ShuffleRoundCount c \<noteq> 0"
  shows "ComputeShuffledIndex c H index n seed shuffle = Inr (of_nat (rounds_perm H seed (unat n)
    (let rs = round_list (ucast (ShuffleRoundCount c)) in if shuffle then rs else rev rs) (unat index)))"
  using n r
  by (simp add: ComputeShuffledIndex_def not_le not_less shuffle_up_rounds shuffle_down_rounds
      foldR_shuffle_round [OF H] Let_def)

lemma shuffled_index_inverse:
  assumes "hash32 H" and "n \<le> maxShuffleListSize" "index < n"
  shows "\<exists>i. ShuffledIndex c H index n seed = Inr i \<and> i < n \<and> UnShuffledIndex c H i n seed = Inr index \<and>
    (\<exists>j. UnShuffledIndex c H index n seed = Inr j \<and> j < n \<and> ShuffledIndex c H j n seed = Inr index)"
proof (cases "ShuffleRoundCount c = 0")
  case True
  then show ?thesis using assms(3) by (simp add: ShuffledIndex_def UnShuffledIndex_def ComputeShuffledIndex_def)
next
  case False
  let ?P = "rounds_perm H seed (unat n)" and ?rs = "round_list (ucast (ShuffleRoundCount c))"
  have x: "unat index < unat n" using assms(3) by (simp add: word_less_nat_alt)
  have lt: "unat (of_nat (?P rs (unat index)) :: u64) = ?P rs (unat index)" "of_nat (?P rs (unat index)) < n" for rs
  proof -
    have "?P rs (unat index) < unat n" by (rule rounds_perm_lt [OF x])
    then show "unat (of_nat (?P rs (unat index)) :: u64) = ?P rs (unat index)"
      using unat_u64_lt [of n] by (intro unat_of_nat_u64) linarith
    then show "of_nat (?P rs (unat index)) < n"
      using \<open>?P rs (unat index) < unat n\<close> by (simp add: word_less_nat_alt)
  qed
  note code = ComputeShuffledIndex_perm [OF assms(1,2) _ False, where seed = seed]
  have inv: "?P (rev ?rs) (?P ?rs (unat index)) = unat index" "?P ?rs (?P (rev ?rs) (unat index)) = unat index"
    using rounds_perm_rev [OF x, of H seed ?rs] rounds_perm_rev [OF x, of H seed "rev ?rs"] by simp_all
  show ?thesis
    unfolding ShuffledIndex_def UnShuffledIndex_def
    using code [OF assms(3)] code [OF lt(2)] lt inv by (simp add: Let_def)
qed

lemma shuffled_index_ok:
  assumes "hash32 H" and "n \<le> maxShuffleListSize" "index < n"
  shows "\<exists>i. ShuffledIndex c H index n seed = Inr i \<and> i < n"
  using shuffled_index_inverse [OF assms, of c seed] by blast

text \<open>C29: the shuffle permutes the indices. For a hash with 32-byte results and a list size within the
  limit, \<^verbatim>\<open>ShuffledIndex\<close> and \<^verbatim>\<open>UnShuffledIndex\<close> succeed on every index below the size, return an index
  below the size, and undo each other.\<close>

theorem shuffled_index_bijective:
  assumes "hash32 H" and "n \<le> maxShuffleListSize" "index < n"
  shows "\<exists>i. ShuffledIndex c H index n seed = Inr i \<and> i < n \<and> UnShuffledIndex c H i n seed = Inr index \<and>
    (\<exists>j. UnShuffledIndex c H index n seed = Inr j \<and> j < n \<and> ShuffledIndex c H j n seed = Inr index)"
  by (rule shuffled_index_inverse [OF assms])

section \<open>The list shuffle\<close>

definition hash_at :: "(bytes \<Rightarrow> bytes) \<Rightarrow> bytes \<Rightarrow> nat \<Rightarrow> bytes" where
  "hash_at H buf j = H (buf @ put_le 4 (of_nat (j div 256)))"

text \<open>The hash and the byte that the loop carries are those of the current position, unless the next
  round of the loop is about to refresh them.\<close>

definition cache_ok :: "(bytes \<Rightarrow> bytes) \<Rightarrow> bytes \<Rightarrow> nat \<Rightarrow> u8 \<Rightarrow> bytes \<Rightarrow> bool" where
  "cache_ok H buf j byteV source \<longleftrightarrow>
     (j mod 256 \<noteq> 255 \<longrightarrow> source = hash_at H buf j) \<and>
     (j mod 8 \<noteq> 7 \<longrightarrow> byteV = hash_at H buf j ! (j mod 256 div 8))"

lemma cache_ok_step:
  assumes "0 < j"
  shows "cache_ok H buf (j - 1) (hash_at H buf j ! (j mod 256 div 8)) (hash_at H buf j)"
proof -
  obtain k where k: "j = Suc k" using assms by (cases j) auto
  have a: "k mod 256 \<noteq> 255 \<Longrightarrow> Suc k div 256 = k div 256 \<and> Suc k mod 256 = Suc (k mod 256)"
    by (simp add: div_Suc mod_Suc)
  have b: "k mod 8 \<noteq> 7 \<Longrightarrow> k mod 256 \<noteq> 255 \<and> Suc (k mod 256) div 8 = k mod 256 div 8"
  proof
    assume 7: "k mod 8 \<noteq> 7"
    have "k mod 256 mod 8 = k mod 8" by (simp add: mod_mod_cancel)
    then show "k mod 256 \<noteq> 255" "Suc (k mod 256) div 8 = k mod 256 div 8" using 7 by (auto simp: div_Suc mod_Suc)
  qed
  show ?thesis using a b by (auto simp: cache_ok_def hash_at_def k)
qed

lemma low_bits_iff:
  fixes j :: u64
  shows "j AND 0xff = 0xff \<longleftrightarrow> unat j mod 256 = 255" "j AND 0x7 = 0x7 \<longleftrightarrow> unat j mod 8 = 7"
  by (simp_all only: u64_eq_iff unat_low_bits) simp_all

lemma swapOrNot_at:
  assumes H: "hash32 H" and ok: "cache_ok H buf (unat j) byteV source"
      and "unat i < length input" "unat j < length input"
  shows "swapOrNot H buf i j (byteV, source, input) =
    Inr (hash_at H buf (unat j) ! (unat j mod 256 div 8), hash_at H buf (unat j),
         if swap_bit H buf (unat j) then swap (unat i) (unat j) input else input)"
proof -
  have "drop_bit 8 j = of_nat (unat j div 256)" by (simp add: unat_low_bits(4) [symmetric])
  then have src: "(if j AND 0xff = 0xff then H (buf @ put_le 4 (drop_bit 8 j)) else source) = hash_at H buf (unat j)"
    using ok by (simp add: low_bits_iff cache_ok_def hash_at_def)
  have "unat j mod 256 div 8 < 32" by (rule less_mult_imp_div_less) simp
  moreover have "unat (drop_bit 3 (j AND 0xff)) = unat j mod 256 div 8" by (simp only: unat_low_bits)
  ultimately have byte: "(if j AND 0x7 = 0x7 then idx (hash_at H buf (unat j)) (unat (drop_bit 3 (j AND 0xff))) else Inr byteV)
      = Inr (hash_at H buf (unat j) ! (unat j mod 256 div 8))"
    using ok hash32D [OF H] by (simp add: low_bits_iff cache_ok_def hash_at_def)
  show ?thesis
    unfolding swapOrNot_def prod.case Let_def src byte bindR_Inr
    using assms(3,4) by (simp add: low_bit_iff unat_low_bits(2) swap_at_def swap_bit_def flip: hash_at_def)
qed

definition swap_pairs :: "(nat \<Rightarrow> bool) \<Rightarrow> nat \<Rightarrow> nat \<Rightarrow> nat \<Rightarrow> 'a list \<Rightarrow> 'a list" where
  "swap_pairs b s a m = fold (\<lambda>k xs. if b (s - k) then swap k (s - k) xs else xs) [a..<m]"

lemma length_swap [simp]: "length (swap i j xs) = length xs"
  by (simp add: swap_def)

lemma length_swap_pairs [simp]: "length (swap_pairs b s a m xs) = length xs"
proof -
  have "length (fold (\<lambda>k xs. if b (s - k) then swap k (s - k) xs else xs) ks xs) = length xs" for ks
    by (induction ks arbitrary: xs) simp_all
  then show ?thesis by (simp add: swap_pairs_def)
qed

lemma swap_pairs_nth:
  assumes "a \<le> m" "\<And>k. a \<le> k \<Longrightarrow> k < m \<Longrightarrow> k < s - k \<and> s - k < length xs" "x < length xs"
  shows "swap_pairs b s a m xs ! x =
    xs ! (if (a \<le> x \<and> x < m \<and> b (s - x)) \<or> (x \<le> s \<and> a \<le> s - x \<and> s - x < m \<and> b x) then s - x else x)"
  using assms
proof (induction m arbitrary: x rule: dec_induct)
  case base
  have "\<not> (a \<le> s - x \<and> s - x < a)" by simp
  then show ?case by (auto simp: swap_pairs_def)
next
  case (step m)
  let ?ys = "swap_pairs b s a m xs"
  have m: "m < s - m" "s - m < length xs" using step.prems(1) [of m] step.hyps by auto
  have IH: "?ys ! y = xs ! (if (a \<le> y \<and> y < m \<and> b (s - y)) \<or> (y \<le> s \<and> a \<le> s - y \<and> s - y < m \<and> b y) then s - y else y)"
    if "y < length xs" for y
    using step.IH [OF _ that] step.prems(1) by (meson less_Suc_eq)
  have ends: "?ys ! m = xs ! m" "?ys ! (s - m) = xs ! (s - m)"
    using IH [of m] IH [of "s - m"] m by auto
  have step': "swap_pairs b s a (Suc m) xs = (if b (s - m) then swap m (s - m) ?ys else ?ys)"
    using step.hyps by (simp add: swap_pairs_def)
  consider "x = m" | "x = s - m" | "x \<noteq> m" "x \<noteq> s - m" by blast
  then show ?case
  proof cases
    case 1
    then show ?thesis using step.hyps m ends by (auto simp: step' swap_def nth_list_update)
  next
    case 2
    then show ?thesis using step.hyps m ends by (auto simp: step' swap_def nth_list_update)
  next
    case 3
    have "s - x < Suc m \<longleftrightarrow> s - x < m" if "x \<le> s" using that 3 m by auto
    then show ?thesis using 3 IH [OF step.prems(2)] by (auto simp: step' swap_def nth_list_update less_Suc_eq)
  qed
qed

lemma swap_pairs_Cons:
  "a < m \<Longrightarrow> swap_pairs b s a m xs = swap_pairs b s (Suc a) m (if b (s - a) then swap a (s - a) xs else xs)"
  by (simp add: swap_pairs_def upt_conv_Cons)

lemma mirror_loop_pairs:
  assumes H: "hash32 H"
      and "\<And>k. unat i \<le> k \<Longrightarrow> k < unat mirror \<Longrightarrow> k < s - k \<and> s - k < length input"
      and "unat j = s - unat i" "cache_ok H buf (unat j) byteV source"
  shows "\<exists>bv src. mirror_loop H buf mirror i j (byteV, source, input)
           = Inr (bv, src, swap_pairs (swap_bit H buf) s (unat i) (unat mirror) input)"
  using assms(2-)
proof (induction "unat mirror - unat i" arbitrary: i j byteV source input)
  case 0
  then have "\<not> i < mirror" by (simp add: word_less_nat_alt)
  then show ?case using 0 by (simp add: mirror_loop.simps swap_pairs_def)
next
  case (Suc d)
  then have i: "i < mirror" by (simp add: word_less_nat_alt)
  then have i': "unat (i + 1) = Suc (unat i)" using unat_inc_less [OF i] by simp
  have k: "unat i < s - unat i" "s - unat i < length input"
    using Suc.prems(1) [of "unat i"] i by (simp_all add: word_less_nat_alt)
  let ?input = "if swap_bit H buf (unat j) then swap (unat i) (unat j) input else input"
  have one: "swapOrNot H buf i j (byteV, source, input) =
      Inr (hash_at H buf (unat j) ! (unat j mod 256 div 8), hash_at H buf (unat j), ?input)"
    using k Suc.prems by (intro swapOrNot_at [OF H]) simp_all
  have "1 \<le> j" using k Suc.prems(2) by (simp add: word_le_nat_alt)
  then have j: "unat (j - 1) = unat j - 1" by (simp add: unat_sub_u64)
  obtain bv src where "mirror_loop H buf mirror (i + 1) (j - 1)
        (hash_at H buf (unat j) ! (unat j mod 256 div 8), hash_at H buf (unat j), ?input)
      = Inr (bv, src, swap_pairs (swap_bit H buf) s (unat (i + 1)) (unat mirror) ?input)"
    using Suc.hyps(1) [of "i + 1" ?input "j - 1"] Suc.hyps(2) Suc.prems i' j k
      cache_ok_step [of "unat j" H buf] by fastforce
  then show ?case
    using i k one Suc.prems(2)
    by (simp add: mirror_loop.simps [of H buf mirror i j] i' swap_pairs_Cons [of "unat i"] word_less_nat_alt)
qed

lemma cache_ok_start: "cache_ok H buf j (hash_at H buf j ! (j mod 256 div 8)) (hash_at H buf j)"
  by (simp add: cache_ok_def)

text \<open>Both halves of a round together.\<close>

lemma swap_halves_nth:
  assumes "p < n" "length xs = n" "x < n"
  shows "swap_pairs b (p + n) (p + 1) ((p + n + 1) div 2) (swap_pairs b p 0 ((p + 1) div 2) xs) ! x
    = xs ! round_perm n p b x"
proof -
  have m: "(p + n + 1) div 2 \<le> n" "p + 1 \<le> (p + n + 1) div 2" "(p + 1) div 2 \<le> p + 1"
    using assms(1) by auto
  let ?ys = "swap_pairs b p 0 ((p + 1) div 2) xs"
  have first: "?ys ! y = xs ! (if y \<le> p \<and> ((y < (p + 1) div 2 \<and> b (p - y)) \<or> (p - y < (p + 1) div 2 \<and> b y))
      then p - y else y)" if "y < n" for y
  proof -
    have "?ys ! y = xs ! (if (0 \<le> y \<and> y < (p + 1) div 2 \<and> b (p - y)) \<or>
        (y \<le> p \<and> 0 \<le> p - y \<and> p - y < (p + 1) div 2 \<and> b y) then p - y else y)"
      using assms that by (intro swap_pairs_nth) auto
    moreover have "y < (p + 1) div 2 \<Longrightarrow> y \<le> p" by auto
    ultimately show ?thesis by auto
  qed
  have second: "swap_pairs b (p + n) (p + 1) ((p + n + 1) div 2) ?ys ! x =
      ?ys ! (if p < x \<and> ((x < (p + n + 1) div 2 \<and> b (p + n - x)) \<or> (p + n - x < (p + n + 1) div 2 \<and> b x))
        then p + n - x else x)"
  proof -
    have "swap_pairs b (p + n) (p + 1) ((p + n + 1) div 2) ?ys ! x =
      ?ys ! (if (p + 1 \<le> x \<and> x < (p + n + 1) div 2 \<and> b (p + n - x)) \<or>
        (x \<le> p + n \<and> p + 1 \<le> p + n - x \<and> p + n - x < (p + n + 1) div 2 \<and> b x) then p + n - x else x)"
      using assms m by (intro swap_pairs_nth) auto
    moreover have "p + n - x < (p + n + 1) div 2 \<Longrightarrow> p < x" using assms by auto
    ultimately show ?thesis using assms by auto
  qed
  show ?thesis
  proof (cases "x \<le> p")
    case True
    then have "\<not> p - x < (p + 1) div 2 \<Longrightarrow> p - x \<le> x \<Longrightarrow> p - x = x" by auto
    then show ?thesis
      using True second first [of x] assms(3) flip_of_cases [OF assms(3,1)]
      by (auto simp: round_perm_def max_def)
  next
    case False
    let ?y = "if (x < (p + n + 1) div 2 \<and> b (p + n - x)) \<or> (p + n - x < (p + n + 1) div 2 \<and> b x)
      then p + n - x else x"
    have "p < ?y" "?y < n" using False assms by auto
    then have "?ys ! ?y = xs ! ?y" using first [of ?y] by auto
    moreover have "\<not> p + n - x < (p + n + 1) div 2 \<Longrightarrow> p + n - x \<le> x \<Longrightarrow> p + n - x = x"
      using assms by auto
    then have "?y = round_perm n p b x"
      using False flip_of_cases [OF assms(3,1)] by (auto simp: round_perm_def max_def)
    ultimately show ?thesis using second False by auto
  qed
qed

lemma list_round_perm:
  assumes H: "hash32 H" and n: "length input = n" "2 \<le> n" "n \<le> 2 ^ 40"
  shows "\<exists>out. list_round H seed r input = Inr out \<and> length out = n \<and>
    (\<forall>x < n. out ! x = input ! round_perm n (pivot_of H (seed @ [r]) n) (swap_bit H (seed @ [r])) x)"
proof -
  let ?buf = "seed @ [r]" and ?n = "of_nat n :: u64"
  define pivot where "pivot = get_le (take 8 (H ?buf)) mod ?n"
  define p where "p = pivot_of H ?buf n"
  have N: "unat ?n = n" using n by (intro unat_of_nat_u64) simp
  have P: "unat pivot = p" "p < n"
    using n by (simp_all add: pivot_def p_def pivot_of_def unat_mod_u64 N)
  have end': "unat (?n - 1) = n - 1" using n by (simp add: unat_sub_u64 word_le_nat_alt N)
  have "unat (pivot + 1) = p + 1" using unat_add_u64 [of pivot 1] P n by simp
  then have m1: "unat (drop_bit 1 (pivot + 1)) = (p + 1) div 2" by (simp only: unat_low_bits)
  have "unat (pivot + ?n) = p + n" using unat_add_u64 [of pivot ?n] P N n by simp
  then have "unat (pivot + ?n + 1) = p + n + 1" using unat_add_u64 [of "pivot + ?n" 1] P n by simp
  then have m2: "unat (drop_bit 1 (pivot + ?n + 1)) = (p + n + 1) div 2" by (simp only: unat_low_bits)
  have lt: "unat (drop_bit 3 (j AND 0xff)) = unat j mod 256 div 8" "unat j mod 256 div 8 < 32"
    "drop_bit 8 j = of_nat (unat j div 256)" for j :: u64
  proof -
    show "unat (drop_bit 3 (j AND 0xff)) = unat j mod 256 div 8" by (simp only: unat_low_bits)
    show "unat j mod 256 div 8 < 32" by (rule less_mult_imp_div_less) simp
    show "drop_bit 8 j = of_nat (unat j div 256)" by (simp add: unat_low_bits(4) [symmetric])
  qed
  let ?b = "swap_bit H ?buf" and ?start = "\<lambda>j. hash_at H ?buf j"
  obtain bv src where one: "mirror_loop H ?buf (drop_bit 1 (pivot + 1)) 0 pivot
      (?start p ! (p mod 256 div 8), ?start p, input) = Inr (bv, src, swap_pairs ?b p 0 ((p + 1) div 2) input)"
  proof -
    have "k < p - k \<and> p - k < length input" if "k < unat (drop_bit 1 (pivot + 1))" for k
      using that [unfolded m1] P n(1) by auto
    then show ?thesis
      using that mirror_loop_pairs [OF H, of 0 "drop_bit 1 (pivot + 1)" p input pivot ?buf] cache_ok_start [of H ?buf p]
      by (fastforce simp: P m1 [unfolded One_nat_def])
  qed
  let ?ys = "swap_pairs ?b p 0 ((p + 1) div 2) input"
  obtain bv' src' where two: "mirror_loop H ?buf (drop_bit 1 (pivot + ?n + 1)) (pivot + 1) (?n - 1)
      (?start (n - 1) ! ((n - 1) mod 256 div 8), ?start (n - 1), ?ys)
        = Inr (bv', src', swap_pairs ?b (p + n) (p + 1) ((p + n + 1) div 2) ?ys)"
  proof -
    have "k < p + n - k \<and> p + n - k < length ?ys" if "unat (pivot + 1) \<le> k" "k < unat (drop_bit 1 (pivot + ?n + 1))" for k
      using that [unfolded m2 \<open>unat (pivot + 1) = p + 1\<close>] P n(1) by auto
    then show ?thesis
      using that mirror_loop_pairs [OF H, of "pivot + 1" "drop_bit 1 (pivot + ?n + 1)" "p + n" ?ys "?n - 1" ?buf]
        cache_ok_start [of H ?buf "n - 1"] \<open>unat (pivot + 1) = p + 1\<close> by (fastforce simp: P m2 [unfolded One_nat_def] end')
  qed
  have h8: "le_Uint64 (take 8 (H ?buf)) = Inr (get_le (take 8 (H ?buf)))"
    and piv: "umod (get_le (take 8 (H ?buf))) ?n = Inr pivot"
    using n N by (auto simp: le_Uint64_def hash32D [OF H] pivot_def)
  have at: "H (?buf @ put_le 4 (drop_bit 8 j)) = hash_at H ?buf (unat j)"
    "idx (hash_at H ?buf (unat j)) (unat (drop_bit 3 (j AND 0xff)))
       = Inr (hash_at H ?buf (unat j) ! (unat j mod 256 div 8))" for j
    by (simp_all only: hash_at_def lt hash32D [OF H] idx_in)
  have "list_round H seed r input = Inr (swap_pairs ?b (p + n) (p + 1) ((p + n + 1) div 2) ?ys)"
    by (simp only: list_round_def Let_def n(1) h8 piv bindR_Inr at(1) at(2) [of pivot, unfolded P(1)] P(1) one prod.case
        at(2) [of "?n - 1", unfolded end'] end' two)
  then show ?thesis using swap_halves_nth [OF P(2) n(1)] n by (simp flip: p_def)
qed

lemma foldR_list_round:
  assumes H: "hash32 H" and n: "length input = n" "2 \<le> n" "n \<le> 2 ^ 40"
  shows "\<exists>out. foldR (list_round H seed) rs input = Inr out \<and> length out = n \<and>
    (\<forall>x < n. out ! x = input ! rounds_perm H seed n (rev rs) x)"
  using n(1)
proof (induction rs arbitrary: input)
  case Nil
  then show ?case by (simp add: rounds_perm_def)
next
  case (Cons r rs)
  let ?f = "round_perm n (pivot_of H (seed @ [r]) n) (swap_bit H (seed @ [r]))"
  obtain mid where mid: "list_round H seed r input = Inr mid" "length mid = n" "\<forall>x < n. mid ! x = input ! ?f x"
    using list_round_perm [OF H Cons.prems n(2,3), of seed r] by blast
  obtain out where out: "foldR (list_round H seed) rs mid = Inr out" "length out = n"
      "\<forall>x < n. out ! x = mid ! rounds_perm H seed n (rev rs) x"
    using Cons.IH [OF mid(2)] by blast
  have "rounds_perm H seed n (rev (r # rs)) x = ?f (rounds_perm H seed n (rev rs) x)" for x
    by (simp add: rounds_perm_def)
  then show ?case using mid out rounds_perm_lt [of _ n H seed "rev rs"] by auto
qed

lemma innerShuffleList_perm:
  assumes H: "hash32 H" and n: "length input \<le> 2 ^ 40" and r: "(ucast (ShuffleRoundCount c) :: u8) \<noteq> 0"
  shows "\<exists>out. innerShuffleList c H input seed shuffle = Inr out \<and> length out = length input \<and>
    (\<forall>x < length input. out ! x = input ! rounds_perm H seed (length input)
      (let rs = round_list (ucast (ShuffleRoundCount c)) in if shuffle then rev rs else rs) x)"
proof (cases "length input \<le> 1")
  case True
  have "rounds_perm H seed (length input) rs x = x" if "x < length input" for rs x
    using rounds_perm_lt [OF that, of H seed rs] that True by simp
  then show ?thesis using True by (simp add: innerShuffleList_def)
next
  case False
  let ?rs = "round_list (ucast (ShuffleRoundCount c))"
  have "unat (of_nat (length input) :: u64) = length input" using n by (intro unat_of_nat_u64) simp
  then have "\<not> of_nat (length input) > maxShuffleListSize"
    using n by (simp add: word_less_nat_alt maxShuffleListSize_def)
  then have "innerShuffleList c H input seed shuffle = foldR (list_round H seed) (if shuffle then ?rs else rev ?rs) input"
    using False r by (simp add: innerShuffleList_def Let_def shuffle_up_rounds shuffle_down_rounds)
  moreover have "2 \<le> length input" using False by simp
  ultimately show ?thesis
    using foldR_list_round [OF H refl _ n, of seed "if shuffle then ?rs else rev ?rs"]
    by (cases shuffle) (simp_all add: Let_def)
qed

lemma rounds_perm_bij: "mset (map (rounds_perm H seed n rs) [0..<n]) = mset [0..<n]"
proof -
  let ?f = "rounds_perm H seed n rs" and ?g = "rounds_perm H seed n (rev rs)"
  have g: "?g (?f x) = x" "?f (?g x) = x" if "x < n" for x
    using rounds_perm_rev [OF that, of H seed rs] rounds_perm_rev [OF that, of H seed "rev rs"] by simp_all
  have "inj_on ?f {0..<n}" using g(1) by (intro inj_on_inverseI [of _ ?g]) auto
  moreover have "?f ` {0..<n} = {0..<n}"
  proof
    show "?f ` {0..<n} \<subseteq> {0..<n}" by (auto intro: rounds_perm_lt)
    show "{0..<n} \<subseteq> ?f ` {0..<n}"
      using g(2) rounds_perm_lt [of _ n H seed "rev rs"] by (metis atLeast0LessThan image_eqI lessThan_iff subsetI)
  qed
  ultimately show ?thesis by (intro set_eq_iff_mset_eq_distinct [THEN iffD1]) (simp_all add: distinct_map)
qed

lemma mset_permuted:
  assumes "length out = length input" "\<forall>x < length input. out ! x = input ! rounds_perm H seed (length input) rs x"
  shows "mset out = mset input"
proof -
  have "out = map ((!) input) (map (rounds_perm H seed (length input) rs) [0..<length input])"
    using assms by (intro nth_equalityI) simp_all
  then have "mset out = image_mset ((!) input) (mset (map (rounds_perm H seed (length input) rs) [0..<length input]))"
    by (simp only: mset_map)
  also have "\<dots> = mset (map ((!) input) [0..<length input])" unfolding rounds_perm_bij by (simp only: mset_map)
  finally show ?thesis by (simp add: map_nth)
qed

lemma shuffle_lists_at:
  assumes "hash32 H" and "length input \<le> 2 ^ 40" and "(ucast (ShuffleRoundCount c) :: u8) \<noteq> 0"
  shows "\<exists>un sh. UnshuffleList c H input seed = Inr un \<and> ShuffleList c H input seed = Inr sh \<and>
    mset un = mset input \<and> mset sh = mset input \<and>
    (\<forall>i < length input.
       (\<exists>k. ShuffledIndex c H (of_nat i) (of_nat (length input)) seed = Inr k \<and> un ! i = input ! unat k) \<and>
       (\<exists>k. UnShuffledIndex c H (of_nat i) (of_nat (length input)) seed = Inr k \<and> sh ! i = input ! unat k))"
proof -
  let ?n = "length input" and ?rs = "round_list (ucast (ShuffleRoundCount c))"
  let ?P = "rounds_perm H seed ?n"
  obtain un where un: "UnshuffleList c H input seed = Inr un" "length un = ?n" "\<forall>x < ?n. un ! x = input ! ?P ?rs x"
    using innerShuffleList_perm [OF assms, of seed False] by (auto simp: UnshuffleList_def)
  obtain sh where sh: "ShuffleList c H input seed = Inr sh" "length sh = ?n" "\<forall>x < ?n. sh ! x = input ! ?P (rev ?rs) x"
    using innerShuffleList_perm [OF assms, of seed True] by (auto simp: ShuffleList_def)
  have nat: "unat (of_nat k :: u64) = k" if "k \<le> ?n" for k
    using that assms(2) by (intro unat_of_nat_u64) simp
  have "ShuffleRoundCount c \<noteq> 0" using assms(3) by auto
  then have index: "ComputeShuffledIndex c H (of_nat i) (of_nat ?n) seed b = Inr (of_nat (?P (if b then ?rs else rev ?rs) i))"
    if "i < ?n" for i b
    using ComputeShuffledIndex_perm [OF assms(1), of "of_nat ?n" "of_nat i" c seed b] assms(2,3) that nat [of i] nat [of ?n]
    by (auto simp: word_le_nat_alt word_less_nat_alt maxShuffleListSize_def Let_def)
  have "unat (of_nat (?P rs i) :: u64) = ?P rs i" if "i < ?n" for i rs
    using rounds_perm_lt [OF that, of H seed rs] by (intro nat) simp
  then show ?thesis
    using un sh mset_permuted [OF un(2,3)] mset_permuted [OF sh(2,3)]
    by (auto simp: ShuffledIndex_def UnShuffledIndex_def index)
qed

lemma unshuffle_at:
  assumes "hash32 H" and "length input \<le> 2 ^ 40" and "(ucast (ShuffleRoundCount c) :: u8) \<noteq> 0"
  shows "\<exists>un. UnshuffleList c H input seed = Inr un \<and> mset un = mset input \<and>
    (\<forall>i < length input. \<exists>k. ShuffledIndex c H (of_nat i) (of_nat (length input)) seed = Inr k \<and> un ! i = input ! unat k)"
  using shuffle_lists_at [OF assms, of seed] by blast

text \<open>C8: the list shuffle, which visits every pair of a round once and reuses a hash for up to 256
  positions, agrees with the index shuffle: \<^verbatim>\<open>UnshuffleList\<close> puts at every position the element that
  \<^verbatim>\<open>ShuffledIndex\<close> selects for it, \<^verbatim>\<open>ShuffleList\<close> the one of \<^verbatim>\<open>UnShuffledIndex\<close>, and both only reorder the list.\<close>

theorem list_shuffle_pointwise:
  assumes "hash32 H" and "length input \<le> 2 ^ 40" and "(ucast (ShuffleRoundCount c) :: u8) \<noteq> 0"
  shows "\<exists>un sh. UnshuffleList c H input seed = Inr un \<and> ShuffleList c H input seed = Inr sh \<and>
    mset un = mset input \<and> mset sh = mset input \<and>
    (\<forall>i < length input.
       (\<exists>k. ShuffledIndex c H (of_nat i) (of_nat (length input)) seed = Inr k \<and> un ! i = input ! unat k) \<and>
       (\<exists>k. UnShuffledIndex c H (of_nat i) (of_nat (length input)) seed = Inr k \<and> sh ! i = input ! unat k))"
  by (rule shuffle_lists_at [OF assms])

text \<open>A hash with 32-byte results for the examples.\<close>

definition hash_ex :: "bytes \<Rightarrow> bytes" where
  "hash_ex x = replicate 32 (sum_list x)"

lemma hash_ex_32: "hash32 hash_ex"
  by (simp add: hash32_def hash_ex_def)

theorem shuffled_index_bijective_witness:
  "\<exists>i. ShuffledIndex mainnetBeaconConfig hash_ex 3 5 [7] = Inr i \<and> i < 5 \<and>
     UnShuffledIndex mainnetBeaconConfig hash_ex i 5 [7] = Inr 3"
  using shuffled_index_bijective [OF hash_ex_32, of 5 3 mainnetBeaconConfig "[7]"]
  by (auto simp: maxShuffleListSize_def)

theorem list_shuffle_pointwise_witness:
  "\<exists>un. UnshuffleList mainnetBeaconConfig hash_ex [10, 11, 12 :: u64] [7] = Inr un \<and> mset un = {#10, 11, 12#} \<and>
     (\<exists>k. ShuffledIndex mainnetBeaconConfig hash_ex 2 3 [7] = Inr k \<and> un ! 2 = [10, 11, 12] ! unat k)"
proof -
  have "(ucast (ShuffleRoundCount mainnetBeaconConfig) :: u8) \<noteq> 0" by code_simp
  with list_shuffle_pointwise [OF hash_ex_32, of "[10, 11, 12 :: u64]" mainnetBeaconConfig "[7]"]
  obtain un sh where un: "UnshuffleList mainnetBeaconConfig hash_ex [10, 11, 12 :: u64] [7] = Inr un"
    "mset un = mset [10, 11, 12]"
    and all: "\<forall>i < length [10, 11, 12 :: u64].
       (\<exists>k. ShuffledIndex mainnetBeaconConfig hash_ex (of_nat i) (of_nat (length [10, 11, 12 :: u64])) [7] = Inr k \<and>
            un ! i = [10, 11, 12] ! unat k) \<and>
       (\<exists>k. UnShuffledIndex mainnetBeaconConfig hash_ex (of_nat i) (of_nat (length [10, 11, 12 :: u64])) [7] = Inr k \<and>
            sh ! i = [10, 11, 12 :: u64] ! unat k)"
    by auto
  from all [rule_format, of 2] un show ?thesis by (simp add: numeral_eq_Suc)
qed

section \<open>Splitting a list\<close>

lemma concat_slices:
  assumes "\<And>i. i < n \<Longrightarrow> f i \<le> f (Suc i)" "f n \<le> length l"
  shows "concat (map (\<lambda>i. drop (f i) (take (f (Suc i)) l)) [0..<n]) = drop (f 0) (take (f n) l)"
  using assms
proof (induction n)
  case 0
  then show ?case by simp
next
  case (Suc n)
  have "f 0 \<le> f m" if "m \<le> n" for m
    using that
  proof (induction m)
    case (Suc m)
    then show ?case using Suc.prems Suc.IH \<open>\<And>i. i < Suc n \<Longrightarrow> f i \<le> f (Suc i)\<close> [of m] by simp
  qed simp
  then have le: "f 0 \<le> f n" by simp
  have "f n \<le> f (Suc n)" using Suc.prems(1) by simp
  then have "take (f (Suc n)) l = take (f n) l @ drop (f n) (take (f (Suc n)) l)"
    by (metis append_take_drop_id min.absorb1 take_take)
  then have "drop (f 0) (take (f (Suc n)) l) = drop (f 0) (take (f n) l) @ drop (f n) (take (f (Suc n)) l)"
    using le Suc.prems(2) \<open>f n \<le> f (Suc n)\<close> by (metis drop_append length_take min.absorb2 order_trans drop_0 diff_is_0_eq)
  then show ?case using Suc \<open>f n \<le> f (Suc n)\<close> by simp
qed

text \<open>The start of piece \<open>i\<close> of \<open>n\<close> in a list of length \<open>len\<close>.\<close>

definition split_at :: "nat \<Rightarrow> nat \<Rightarrow> nat \<Rightarrow> nat" where
  "split_at len n i = len * i div n"

lemma split_at_mono: "split_at len n i \<le> split_at len n (Suc i)"
  by (simp add: split_at_def div_le_mono)

lemma split_at_ends: "0 < n \<Longrightarrow> split_at len n 0 = 0 \<and> split_at len n n = len"
  by (simp add: split_at_def)

lemma split_at_le: "0 < n \<Longrightarrow> i \<le> n \<Longrightarrow> split_at len n i \<le> len"
  using div_le_mono [of "len * i" "len * n" n] by (simp add: split_at_def)

lemma SplitOffset_nat:
  assumes "unat listSize * unat index < 2 ^ 64" "chunks \<noteq> 0"
  shows "\<exists>off. SplitOffset listSize chunks index = Inr off \<and>
           unat off = split_at (unat listSize) (unat chunks) (unat index)"
  using assms by (simp add: SplitOffset_def split_at_def unat_div_u64 unat_mult_u64)

lemma SplitIndices_slices:
  assumes "0 < unat n" "length l * unat n < 2 ^ 64"
  shows "SplitIndices l n = Inr (map (\<lambda>i. drop (split_at (length l) (unat n) i)
           (take (split_at (length l) (unat n) (Suc i)) l)) [0..<unat n])"
proof -
  have "length l \<le> length l * unat n" using assms(1) by (cases "unat n") auto
  then have len: "unat (of_nat (length l) :: u64) = length l" using assms(2) by (intro unat_of_nat_u64) linarith
  have nz: "n \<noteq> 0" using assms(1) by auto
  have piece: "bindR (SplitOffset (of_nat (length l)) n (of_nat i)) (\<lambda>start.
      bindR (SplitOffset (of_nat (length l)) n (of_nat i + 1)) (\<lambda>end'. go_slice l start end'))
    = Inr (drop (split_at (length l) (unat n) i) (take (split_at (length l) (unat n) (Suc i)) l))"
    if i: "i < unat n" for i
  proof -
    have "i < 2 ^ 64" "Suc i < 2 ^ 64" using i unat_u64_lt [of n] by linarith+
    then have u: "unat (of_nat i :: u64) = i" "unat (of_nat i + 1 :: u64) = Suc i"
      using unat_of_nat_u64 [of i] unat_of_nat_u64 [of "Suc i"] by (simp_all add: add.commute)
    have "length l * k < 2 ^ 64" if "k \<le> unat n" for k
      using that assms(2) by (meson le_less_trans mult_le_mono2)
    then obtain a b where "SplitOffset (of_nat (length l)) n (of_nat i) = Inr a" "unat a = split_at (length l) (unat n) i"
      "SplitOffset (of_nat (length l)) n (of_nat i + 1) = Inr b" "unat b = split_at (length l) (unat n) (Suc i)"
      using SplitOffset_nat [OF _ nz, of "of_nat (length l)" "of_nat i"]
        SplitOffset_nat [OF _ nz, of "of_nat (length l)" "of_nat i + 1"] i
      unfolding u len by (metis Suc_leI less_imp_le_nat)
    then show ?thesis
      using i assms(1) split_at_mono [of "length l" "unat n" i] split_at_le [of "unat n" "Suc i" "length l"]
      by (simp add: go_slice_def)
  qed
  show ?thesis
    unfolding SplitIndices_def Let_def using piece by (intro mapR_total) simp
qed

text \<open>C30: splitting a list into \<open>n\<close> pieces loses, duplicates and reorders nothing, gives \<open>n\<close> pieces, and
  the pieces differ in length by at most one.\<close>

theorem split_indices_partition:
  assumes "0 < unat n" "length l * unat n < 2 ^ 64"
  shows "\<exists>ps. SplitIndices l n = Inr ps \<and> concat ps = l \<and> length ps = unat n \<and>
    (\<forall>p \<in> set ps. length l div unat n \<le> length p \<and> length p \<le> length l div unat n + 1)"
proof -
  let ?f = "split_at (length l) (unat n)"
  have conc: "concat (map (\<lambda>i. drop (?f i) (take (?f (Suc i)) l)) [0..<unat n]) = l"
    using concat_slices [of "unat n" ?f l] split_at_mono split_at_ends [OF assms(1)] by simp
  have "length l div unat n \<le> ?f (Suc i) - ?f i \<and> ?f (Suc i) - ?f i \<le> length l div unat n + 1" for i
  proof -
    have "length l * Suc i = length l * i + length l" by simp
    then have "?f (Suc i) = ?f i + length l div unat n + (length l * i mod unat n + length l mod unat n) div unat n"
      unfolding split_at_def by (simp only: div_add1_eq [of "length l * i" "length l"])
    moreover have "length l * i mod unat n + length l mod unat n < 2 * unat n"
      using mod_less_divisor [OF assms(1), of "length l * i"] mod_less_divisor [OF assms(1), of "length l"] by linarith
    then have "(length l * i mod unat n + length l mod unat n) div unat n \<le> 1"
      using less_mult_imp_div_less [of _ 2 "unat n"] by fastforce
    ultimately show ?thesis by simp
  qed
  moreover have "length (drop (?f i) (take (?f (Suc i)) l)) = ?f (Suc i) - ?f i" if "i < unat n" for i
    using split_at_le [OF assms(1), of "Suc i" "length l"] that by (simp add: min_absorb2)
  ultimately have "length l div unat n \<le> length (drop (?f i) (take (?f (Suc i)) l)) \<and>
      length (drop (?f i) (take (?f (Suc i)) l)) \<le> length l div unat n + 1" if "i < unat n" for i
    using that by simp
  then have "\<forall>p \<in> set (map (\<lambda>i. drop (?f i) (take (?f (Suc i)) l)) [0..<unat n]).
      length l div unat n \<le> length p \<and> length p \<le> length l div unat n + 1" by simp
  with conc SplitIndices_slices [OF assms] show ?thesis
    by (intro exI [of _ "map (\<lambda>i. drop (?f i) (take (?f (Suc i)) l)) [0..<unat n]"]) simp
qed

theorem split_indices_partition_witness:
  "\<exists>ps. SplitIndices [1, 2, 3, 4, 5 :: u64] 3 = Inr ps \<and> concat ps = [1, 2, 3, 4, 5] \<and> length ps = 3"
  using split_indices_partition [of 3 "[1, 2, 3, 4, 5 :: u64]"] by auto

end
