(* ===== verification/State_Result.thy ===== *)
theory State_Result
  imports Prelude
begin

text \<open>
  Operations that change a state and may fail: the state is returned with the error too, because what the
  code has changed before it returns an error stays changed. The rules for \<open>yields\<close> compose facts of the
  form ``from a state with the invariant the operation succeeds, with such a result, and keeps the
  invariant''.
\<close>

type_synonym ('s, 'a) state_result = "'s \<Rightarrow> 'a result \<times> 's"

definition returnS :: "'a \<Rightarrow> ('s, 'a) state_result" where
  "returnS x s = (Inr x, s)"

definition liftS :: "'a result \<Rightarrow> ('s, 'a) state_result" where
  "liftS m s = (m, s)"

definition readS :: "('s \<Rightarrow> 'a) \<Rightarrow> ('s, 'a) state_result" where
  "readS f s = (Inr (f s), s)"

definition modifyS :: "('s \<Rightarrow> 's) \<Rightarrow> ('s, unit) state_result" where
  "modifyS f s = (Inr (), f s)"

definition bindS :: "('s, 'a) state_result \<Rightarrow> ('a \<Rightarrow> ('s, 'b) state_result) \<Rightarrow> ('s, 'b) state_result" where
  "bindS m f s = (case m s of (Inl e, s') \<Rightarrow> (Inl e, s') | (Inr x, s') \<Rightarrow> f x s')"

definition wrapS :: "string \<Rightarrow> ('s, 'a) state_result \<Rightarrow> ('s, 'a) state_result" where
  "wrapS msg m s = (case m s of (r, s') \<Rightarrow> (wrapR msg r, s'))"

text \<open>A call whose error is logged and ignored; a panic is not an error value and passes.\<close>

definition ignoreS :: "('s, 'a) state_result \<Rightarrow> ('s, unit) state_result" where
  "ignoreS m s = (case m s of (Inl e, s') \<Rightarrow> (if is_panic e then Inl e else Inr (), s') | (Inr _, s') \<Rightarrow> (Inr (), s'))"

primrec mapS :: "('a \<Rightarrow> ('s, 'b) state_result) \<Rightarrow> 'a list \<Rightarrow> ('s, 'b list) state_result" where
  "mapS f [] = returnS []"
| "mapS f (x # xs) = bindS (f x) (\<lambda>y. bindS (mapS f xs) (\<lambda>ys. returnS (y # ys)))"

primrec forS :: "('a \<Rightarrow> ('s, unit) state_result) \<Rightarrow> 'a list \<Rightarrow> ('s, unit) state_result" where
  "forS f [] = returnS ()"
| "forS f (x # xs) = bindS (f x) (\<lambda>_. forS f xs)"

lemma bindS_liftS [simp]: "bindS (liftS (Inr x)) f = f x" "wrapS msg (liftS (Inr x)) = liftS (Inr x)"
    "bindS (returnS x) f = f x" "wrapS msg (returnS x) = returnS x"
  by (auto simp: bindS_def liftS_def wrapS_def returnS_def fun_eq_iff)

section \<open>Success with an invariant\<close>

definition yields :: "('s \<Rightarrow> bool) \<Rightarrow> ('s, 'a) state_result \<Rightarrow> ('a \<Rightarrow> bool) \<Rightarrow> bool" where
  "yields I m P \<longleftrightarrow> (\<forall>cs. I cs \<longrightarrow> (\<exists>x cs'. m cs = (Inr x, cs') \<and> I cs' \<and> P x))"

named_theorems yields_rules \<open>composition of operations that keep an invariant\<close>

lemma yields_returnS [yields_rules]: "P x \<Longrightarrow> yields I (returnS x) P"
  by (simp add: yields_def returnS_def)

lemma yields_liftS [yields_rules]: "m = Inr x \<Longrightarrow> P x \<Longrightarrow> yields I (liftS m) P"
  by (simp add: yields_def liftS_def)

lemma yields_bindS [yields_rules]:
  "yields I m P \<Longrightarrow> (\<And>x. P x \<Longrightarrow> yields I (f x) Q) \<Longrightarrow> yields I (bindS m f) Q"
  unfolding yields_def bindS_def by (fastforce split: prod.splits sum.splits)

lemma yields_wrapS [yields_rules]: "yields I m P \<Longrightarrow> yields I (wrapS msg m) P"
  unfolding yields_def wrapS_def by (fastforce split: prod.splits)

lemma yields_ignoreS: "yields I m P \<Longrightarrow> yields I (ignoreS m) (\<lambda>_. True)"
  unfolding yields_def ignoreS_def by (fastforce split: prod.splits)

lemma yields_mapS:
  "(\<And>x. x \<in> set xs \<Longrightarrow> yields I (f x) (\<lambda>y. y = g x)) \<Longrightarrow> yields I (mapS f xs) (\<lambda>ys. ys = map g xs)"
  by (induction xs) (auto intro!: yields_rules)

section \<open>Invariants on every path\<close>

text \<open>\<open>keeps I m\<close>: the operation keeps the invariant, whether it succeeds or fails.\<close>

definition keeps :: "('s \<Rightarrow> bool) \<Rightarrow> ('s, 'a) state_result \<Rightarrow> bool" where
  "keeps I m \<longleftrightarrow> (\<forall>s. I s \<longrightarrow> I (snd (m s)))"

named_theorems keeps_rules \<open>composition of operations that keep an invariant on every path\<close>

lemma keeps_pure [keeps_rules]: "keeps I (returnS x)" "keeps I (liftS m)" "keeps I (readS f)"
  by (simp_all add: keeps_def returnS_def liftS_def readS_def)

lemma keeps_modifyS: "(\<And>s. I s \<Longrightarrow> I (f s)) \<Longrightarrow> keeps I (modifyS f)"
  by (simp add: keeps_def modifyS_def)

lemma keeps_bindS [keeps_rules]: "keeps I m \<Longrightarrow> (\<And>x. keeps I (f x)) \<Longrightarrow> keeps I (bindS m f)"
  unfolding keeps_def bindS_def by (force split: prod.splits sum.splits)

lemma keeps_wrapS [keeps_rules]: "keeps I m \<Longrightarrow> keeps I (wrapS msg m)"
  unfolding keeps_def wrapS_def by (force split: prod.splits)

lemma keeps_ignoreS [keeps_rules]: "keeps I m \<Longrightarrow> keeps I (ignoreS m)"
  unfolding keeps_def ignoreS_def by (force split: prod.splits sum.splits)

lemma keeps_if [keeps_rules]: "(b \<Longrightarrow> keeps I m) \<Longrightarrow> (\<not> b \<Longrightarrow> keeps I n) \<Longrightarrow> keeps I (if b then m else n)"
  by simp

lemma keeps_forS [keeps_rules]: "(\<And>x. x \<in> set xs \<Longrightarrow> keeps I (f x)) \<Longrightarrow> keeps I (forS f xs)"
  by (induction xs) (auto intro!: keeps_rules)

end
