(* ===== verification/Committees.thy ===== *)
theory Committees
  imports Validators Shuffle State_Result
begin

text \<open>
  Committees and proposers: \<^verbatim>\<open>helpers/beacon_committee.go\<close>, the proposer selection of
  \<^verbatim>\<open>helpers/validators.go\<close>, \<^verbatim>\<open>helpers/randao.go\<close>, the caches \<^verbatim>\<open>cache/committee.go\<close> and
  \<^verbatim>\<open>cache/proposer_indices.go\<close>, and the sampling loop of \<^verbatim>\<open>altair/sync_committee.go\<close>. SHA-256 is the
  argument \<open>H\<close>. The LRU map behind the committee cache is third-party: its two methods are the record
  \<open>lru_ops\<close>, and \<open>lru_laws\<close> is what the code relies on. Operations thread the caches; one caller at a
  time is modelled, so that no other request is in progress, and contexts are never cancelled.
\<close>

unbundle bit_operations_syntax

section \<open>Caches\<close>

record Committees =
  com_CommitteeCount :: u64
  com_Seed :: bytes
  com_ShuffledIndices :: "ValidatorIndex list"
  com_SortedIndices :: "ValidatorIndex list"

record 'l lru_ops =
  lru_Get :: "'l \<Rightarrow> bytes \<Rightarrow> Committees option \<times> 'l"
  lru_Add :: "'l \<Rightarrow> bytes \<Rightarrow> Committees \<Rightarrow> 'l"

text \<open>\<^verbatim>\<open>Get\<close> returns what the cache holds for the key and changes only the order of use; \<^verbatim>\<open>Add\<close> stores the
  value and may drop any entries. \<open>cont\<close> reads the content.\<close>

definition lru_laws :: "'l lru_ops \<Rightarrow> ('l \<Rightarrow> bytes \<Rightarrow> Committees option) \<Rightarrow> bool" where
  "lru_laws L cont \<longleftrightarrow>
     (\<forall>l k. fst (lru_Get L l k) = cont l k \<and> cont (snd (lru_Get L l k)) = cont l) \<and>
     (\<forall>l k v. cont (lru_Add L l k v) \<subseteq>\<^sub>m (cont l)(k \<mapsto> v))"

record ProposerIndicesCache =
  pic_indices :: "Epoch \<Rightarrow> (root \<Rightarrow> ValidatorIndex list option) option"
  pic_rootMap :: "Checkpoint \<Rightarrow> root option"

record 'l Caches =
  ca_committee :: 'l
  ca_proposer :: ProposerIndicesCache

text \<open>Operations that may fail and change the caches.\<close>

type_synonym ('l, 'a) cached = "('l Caches, 'a) state_result"

definition cache_Get :: "'l lru_ops \<Rightarrow> bytes \<Rightarrow> ('l, Committees option) cached" where
  "cache_Get L seed s = (case lru_Get L (ca_committee s) seed of (v, l) \<Rightarrow> (Inr v, s\<lparr>ca_committee := l\<rparr>))"

definition startEndIndices :: "Committees \<Rightarrow> u64 \<Rightarrow> (u64 \<times> u64) result" where
  "startEndIndices item index =
     (let validatorCount = of_nat (length (com_ShuffledIndices item)) in
      bindR (SplitOffset validatorCount (com_CommitteeCount item) index) (\<lambda>start.
      bindR (SplitOffset validatorCount (com_CommitteeCount item) (index + 1)) (\<lambda>end'. Inr (start, end'))))"

definition item_committee :: "BeaconChainConfig \<Rightarrow> Slot \<Rightarrow> u64 \<Rightarrow> Committees \<Rightarrow> ValidatorIndex list result" where
  "item_committee c slot index item =
     bindR (udiv (com_CommitteeCount item) (SlotsPerEpoch c)) (\<lambda>q.
     let committeeCountPerSlot = (if q > 1 then q else 1) in
     bindR (Slot_ModSlot slot (SlotsPerEpoch c)) (\<lambda>r.
     bindR (Slot_Mul r committeeCountPerSlot) (\<lambda>m.
     bindR (Add64 index m) (\<lambda>indexOffSet.
     bindR (startEndIndices item indexOffSet) (\<lambda>(start, end').
     if unat end' > length (com_ShuffledIndices item) \<or> end' < start
     then Inl (Err ''requested index out of bound'')
     else go_slice (com_ShuffledIndices item) start end')))))"

definition cache_Committee ::
    "BeaconChainConfig \<Rightarrow> 'l lru_ops \<Rightarrow> Slot \<Rightarrow> bytes \<Rightarrow> u64 \<Rightarrow> ('l, ValidatorIndex list option) cached" where
  "cache_Committee c L slot seed index =
     bindS (cache_Get L seed) (\<lambda>entry. case entry of None \<Rightarrow> returnS None
       | Some item \<Rightarrow> liftS (bindR (item_committee c slot index item) (\<lambda>x. Inr (Some x))))"

definition cache_ActiveIndices :: "'l lru_ops \<Rightarrow> bytes \<Rightarrow> ('l, ValidatorIndex list option) cached" where
  "cache_ActiveIndices L seed =
     bindS (cache_Get L seed) (\<lambda>entry. returnS (map_option com_SortedIndices entry))"

definition cache_ActiveIndicesCount :: "'l lru_ops \<Rightarrow> bytes \<Rightarrow> ('l, nat) cached" where
  "cache_ActiveIndicesCount L seed =
     bindS (cache_Get L seed) (\<lambda>entry.
     returnS (case entry of None \<Rightarrow> 0 | Some item \<Rightarrow> length (com_SortedIndices item)))"

definition cache_HasEntry :: "'l lru_ops \<Rightarrow> bytes \<Rightarrow> ('l, bool) cached" where
  "cache_HasEntry L seed = bindS (cache_Get L seed) (\<lambda>entry. returnS (entry \<noteq> None))"

definition AddCommitteeShuffledList :: "'l lru_ops \<Rightarrow> Committees \<Rightarrow> ('l, unit) cached" where
  "AddCommitteeShuffledList L committees s =
     (Inr (), s\<lparr>ca_committee := lru_Add L (ca_committee s) (com_Seed committees) committees\<rparr>)"

definition pic_ProposerIndices :: "ProposerIndicesCache \<Rightarrow> Epoch \<Rightarrow> root \<Rightarrow> ValidatorIndex list option" where
  "pic_ProposerIndices p epoch root =
     (case pic_indices p epoch of None \<Rightarrow> None | Some inner \<Rightarrow> inner root)"

definition pic_Prune :: "Epoch \<Rightarrow> ProposerIndicesCache \<Rightarrow> ProposerIndicesCache" where
  "pic_Prune epoch p =
     \<lparr>pic_indices = (\<lambda>key. if key < epoch then None else pic_indices p key),
      pic_rootMap = (\<lambda>key. if cp_Epoch key + 1 < epoch then None else pic_rootMap p key)\<rparr>"

definition pic_Set :: "Epoch \<Rightarrow> root \<Rightarrow> ValidatorIndex list \<Rightarrow> ProposerIndicesCache \<Rightarrow> ProposerIndicesCache" where
  "pic_Set epoch root indices p =
     (let inner = (case pic_indices p epoch of None \<Rightarrow> Map.empty | Some m \<Rightarrow> m)
      in p\<lparr>pic_indices := (pic_indices p)(epoch \<mapsto> inner(root \<mapsto> indices))\<rparr>)"

definition pic_SetCheckpoint :: "Checkpoint \<Rightarrow> root \<Rightarrow> ProposerIndicesCache \<Rightarrow> ProposerIndicesCache" where
  "pic_SetCheckpoint cp root p = p\<lparr>pic_rootMap := (pic_rootMap p)(cp \<mapsto> root)\<rparr>"

definition IndicesFromCheckpoint :: "ProposerIndicesCache \<Rightarrow> Checkpoint \<Rightarrow> ValidatorIndex list option" where
  "IndicesFromCheckpoint p cp =
     (case pic_rootMap p cp of None \<Rightarrow> None | Some root \<Rightarrow> pic_ProposerIndices p (cp_Epoch cp + 1) root)"

section \<open>Seeds and active validators\<close>

definition Seed ::
    "BeaconChainConfig \<Rightarrow> (bytes \<Rightarrow> bytes) \<Rightarrow> BeaconState \<Rightarrow> Epoch \<Rightarrow> bytes \<Rightarrow> bytes result" where
  "Seed c H state epoch domain =
     (let lookAheadEpoch = epoch + EpochsPerHistoricalVector c - MinSeedLookahead c - 1 in
      bindR (RandaoMix c state lookAheadEpoch) (\<lambda>randaoMix.
      Inr (H (domain @ Bytes8 epoch @ randaoMix))))"

text \<open>The pass over the registry that collects the active indices.\<close>

definition activeIndices_scan :: "BeaconState \<Rightarrow> Epoch \<Rightarrow> ValidatorIndex list result" where
  "activeIndices_scan s epoch = ReadFromEveryValidator s (\<lambda>i val indices.
     Inr (if IsActiveValidatorUsingTrie val epoch then indices @ [of_nat i] else indices)) []"

definition SlotCommitteeCount :: "BeaconChainConfig \<Rightarrow> u64 \<Rightarrow> u64 result" where
  "SlotCommitteeCount c activeValidatorCount =
     bindR (udiv activeValidatorCount (SlotsPerEpoch c)) (\<lambda>q.
     bindR (udiv q (TargetCommitteeSize c)) (\<lambda>committeesPerSlot.
     Inr (if committeesPerSlot > MaxCommitteesPerSlot c then MaxCommitteesPerSlot c
          else if committeesPerSlot = 0 then 1 else committeesPerSlot)))"

definition ShuffledIndices ::
    "BeaconChainConfig \<Rightarrow> (bytes \<Rightarrow> bytes) \<Rightarrow> BeaconState \<Rightarrow> Epoch \<Rightarrow> ValidatorIndex list result" where
  "ShuffledIndices c H s epoch =
     bindR (wrapR ''could not get seed for epoch'' (Seed c H s epoch (DomainBeaconAttester c))) (\<lambda>seed.
     bindR (activeIndices_scan s epoch) (\<lambda>indices. UnshuffleList c H indices seed))"

definition UpdateCommitteeCache ::
    "BeaconChainConfig \<Rightarrow> (bytes \<Rightarrow> bytes) \<Rightarrow> 'l lru_ops \<Rightarrow> BeaconState \<Rightarrow> Epoch \<Rightarrow> ('l, unit) cached" where
  "UpdateCommitteeCache c H L state e =
     bindS (liftS (Seed c H state e (DomainBeaconAttester c))) (\<lambda>seed.
     bindS (cache_HasEntry L seed) (\<lambda>has.
     if has then returnS ()
     else bindS (liftS (ShuffledIndices c H state e)) (\<lambda>shuffledIndices.
          bindS (liftS (SlotCommitteeCount c (of_nat (length shuffledIndices)))) (\<lambda>count.
          bindS (liftS (Slot_Mul (SlotsPerEpoch c) count)) (\<lambda>total_count.
          AddCommitteeShuffledList L
            \<lparr>com_CommitteeCount = total_count, com_Seed = seed, com_ShuffledIndices = shuffledIndices,
             com_SortedIndices = sort shuffledIndices\<rparr>)))))"

definition ActiveValidatorIndices ::
    "BeaconChainConfig \<Rightarrow> (bytes \<Rightarrow> bytes) \<Rightarrow> 'l lru_ops \<Rightarrow> BeaconState \<Rightarrow> Epoch
       \<Rightarrow> ('l, ValidatorIndex list) cached" where
  "ActiveValidatorIndices c H L s epoch =
     bindS (wrapS ''could not get seed'' (liftS (Seed c H s epoch (DomainBeaconAttester c)))) (\<lambda>seed.
     bindS (wrapS ''could not interface with committee cache'' (cache_ActiveIndices L seed)) (\<lambda>cached.
     case cached of Some activeIndices \<Rightarrow> returnS activeIndices
     | None \<Rightarrow>
         bindS (liftS (activeIndices_scan s epoch)) (\<lambda>indices.
         if length indices = 0 then liftS (Inl (Err ''no active validator indices''))
         else bindS (ignoreS (UpdateCommitteeCache c H L s epoch)) (\<lambda>_. returnS indices))))"

definition cached_ActiveValidatorCount ::
    "BeaconChainConfig \<Rightarrow> (bytes \<Rightarrow> bytes) \<Rightarrow> 'l lru_ops \<Rightarrow> BeaconState \<Rightarrow> Epoch \<Rightarrow> ('l, u64) cached" where
  "cached_ActiveValidatorCount c H L s epoch =
     bindS (wrapS ''could not get seed'' (liftS (Seed c H s epoch (DomainBeaconAttester c)))) (\<lambda>seed.
     bindS (wrapS ''could not interface with committee cache'' (cache_ActiveIndicesCount L seed)) (\<lambda>activeCount.
     if activeCount \<noteq> 0 \<and> bs_slot s \<noteq> 0 then returnS (of_nat activeCount)
     else bindS (liftS (ActiveValidatorCount s epoch)) (\<lambda>count.
          bindS (wrapS ''could not update committee cache'' (UpdateCommitteeCache c H L s epoch)) (\<lambda>_.
          returnS count))))"

section \<open>Committees\<close>

definition ComputeCommittee ::
    "BeaconChainConfig \<Rightarrow> (bytes \<Rightarrow> bytes) \<Rightarrow> ValidatorIndex list \<Rightarrow> bytes \<Rightarrow> u64 \<Rightarrow> u64 \<Rightarrow> ValidatorIndex list result" where
  "ComputeCommittee c H indices seed index cnt =
     (let validatorCount = of_nat (length indices) in
      bindR (SplitOffset validatorCount cnt index) (\<lambda>start.
      bindR (SplitOffset validatorCount cnt (index + 1)) (\<lambda>end'.
      if start > validatorCount \<or> end' > validatorCount then Inl (Err ''index out of range'')
      else bindR (UnshuffleList c H indices seed) (\<lambda>shuffledList. go_slice shuffledList start end'))))"

definition uncached_committee ::
    "BeaconChainConfig \<Rightarrow> (bytes \<Rightarrow> bytes) \<Rightarrow> ValidatorIndex list \<Rightarrow> bytes \<Rightarrow> Slot \<Rightarrow> u64 \<Rightarrow> ValidatorIndex list result" where
  "uncached_committee c H validatorIndices seed slot committeeIndex =
     bindR (SlotCommitteeCount c (of_nat (length validatorIndices))) (\<lambda>committeesPerSlot.
     bindR (Slot_ModSlot slot (SlotsPerEpoch c)) (\<lambda>r.
     bindR (Slot_Mul r committeesPerSlot) (\<lambda>m.
     bindR (wrapR ''could not add calculate index offset'' (Add64 committeeIndex m)) (\<lambda>indexOffset.
     let cnt = committeesPerSlot * SlotsPerEpoch c in
     ComputeCommittee c H validatorIndices seed indexOffset cnt))))"

definition BeaconCommittee ::
    "BeaconChainConfig \<Rightarrow> (bytes \<Rightarrow> bytes) \<Rightarrow> 'l lru_ops \<Rightarrow> ValidatorIndex list \<Rightarrow> bytes \<Rightarrow> Slot \<Rightarrow> u64
       \<Rightarrow> ('l, ValidatorIndex list) cached" where
  "BeaconCommittee c H L validatorIndices seed slot committeeIndex =
     bindS (wrapS ''could not interface with committee cache'' (cache_Committee c L slot seed committeeIndex))
       (\<lambda>committee. case committee of Some com \<Rightarrow> returnS com
        | None \<Rightarrow> liftS (uncached_committee c H validatorIndices seed slot committeeIndex))"

definition BeaconCommitteeFromState ::
    "BeaconChainConfig \<Rightarrow> (bytes \<Rightarrow> bytes) \<Rightarrow> 'l lru_ops \<Rightarrow> BeaconState \<Rightarrow> Slot \<Rightarrow> u64
       \<Rightarrow> ('l, ValidatorIndex list) cached" where
  "BeaconCommitteeFromState c H L state slot committeeIndex =
     bindS (liftS (ToEpoch c slot)) (\<lambda>epoch.
     bindS (wrapS ''could not get seed'' (liftS (Seed c H state epoch (DomainBeaconAttester c)))) (\<lambda>seed.
     bindS (wrapS ''could not interface with committee cache'' (cache_Committee c L slot seed committeeIndex))
       (\<lambda>committee. case committee of Some com \<Rightarrow> returnS com
        | None \<Rightarrow>
            bindS (wrapS ''could not get active indices'' (ActiveValidatorIndices c H L state epoch)) (\<lambda>activeIndices.
            BeaconCommittee c H L activeIndices seed slot committeeIndex))))"

definition BeaconCommitteeFromCache ::
    "BeaconChainConfig \<Rightarrow> (bytes \<Rightarrow> bytes) \<Rightarrow> 'l lru_ops \<Rightarrow> BeaconState \<Rightarrow> Slot \<Rightarrow> u64
       \<Rightarrow> ('l, ValidatorIndex list option) cached" where
  "BeaconCommitteeFromCache c H L state slot committeeIndex =
     bindS (liftS (ToEpoch c slot)) (\<lambda>epoch.
     bindS (wrapS ''could not get seed'' (liftS (Seed c H state epoch (DomainBeaconAttester c)))) (\<lambda>seed.
     wrapS ''could not interface with committee cache'' (cache_Committee c L slot seed committeeIndex)))"

text \<open>The loop of \<^verbatim>\<open>BeaconCommittees\<close> over the committee indices; it carries the active indices once they
  have been read.\<close>

primrec committees_from ::
    "BeaconChainConfig \<Rightarrow> (bytes \<Rightarrow> bytes) \<Rightarrow> 'l lru_ops \<Rightarrow> BeaconState \<Rightarrow> Slot \<Rightarrow> Epoch \<Rightarrow> bytes \<Rightarrow> u64 list
       \<Rightarrow> ValidatorIndex list \<Rightarrow> ('l, ValidatorIndex list list) cached" where
  "committees_from c H L state slot epoch seed [] activeIndices = returnS []"
| "committees_from c H L state slot epoch seed (i # is) activeIndices =
     bindS (wrapS ''could not interface with committee cache'' (cache_Committee c L slot seed i)) (\<lambda>committee.
     case committee of
       Some com \<Rightarrow> bindS (committees_from c H L state slot epoch seed is activeIndices) (\<lambda>cs. returnS (com # cs))
     | None \<Rightarrow>
         bindS (if length activeIndices = 0
                then wrapS ''could not get active indices'' (ActiveValidatorIndices c H L state epoch)
                else returnS activeIndices) (\<lambda>active'.
         bindS (wrapS ''could not compute beacon committee'' (BeaconCommittee c H L active' seed slot i)) (\<lambda>com.
         bindS (committees_from c H L state slot epoch seed is active') (\<lambda>cs. returnS (com # cs)))))"

definition BeaconCommittees ::
    "BeaconChainConfig \<Rightarrow> (bytes \<Rightarrow> bytes) \<Rightarrow> 'l lru_ops \<Rightarrow> BeaconState \<Rightarrow> Slot
       \<Rightarrow> ('l, ValidatorIndex list list) cached" where
  "BeaconCommittees c H L state slot =
     bindS (liftS (ToEpoch c slot)) (\<lambda>epoch.
     bindS (wrapS ''could not compute active validator count'' (cached_ActiveValidatorCount c H L state epoch)) (\<lambda>activeCount.
     bindS (liftS (SlotCommitteeCount c activeCount)) (\<lambda>committeesPerSlot.
     bindS (wrapS ''could not get seed'' (liftS (Seed c H state epoch (DomainBeaconAttester c)))) (\<lambda>seed.
     committees_from c H L state slot epoch seed (map of_nat [0..<unat committeesPerSlot]) []))))"

definition PrecomputeCommittees ::
    "BeaconChainConfig \<Rightarrow> (bytes \<Rightarrow> bytes) \<Rightarrow> 'l lru_ops \<Rightarrow> BeaconState \<Rightarrow> Slot
       \<Rightarrow> ('l, ValidatorIndex list list list) cached" where
  "PrecomputeCommittees c H L st startSlot =
     mapS (\<lambda>relativeSlot. wrapS ''BeaconCommittees failed at slot'' (BeaconCommittees c H L st (startSlot + of_nat relativeSlot)))
       [0..<unat (SlotsPerEpoch c)]"

record LiteAssignment =
  la_AttesterSlot :: Slot
  la_CommitteeIndex :: u64
  la_CommitteeLength :: u64
  la_ValidatorCommitteeIndex :: u64

definition zero_LiteAssignment :: LiteAssignment where
  "zero_LiteAssignment = \<lparr>la_AttesterSlot = 0, la_CommitteeIndex = 0, la_CommitteeLength = 0,
     la_ValidatorCommitteeIndex = 0\<rparr>"

text \<open>The three nested loops, outermost first; the first match returns.\<close>

definition AssignmentForValidator :: "ValidatorIndex list list list \<Rightarrow> Slot \<Rightarrow> ValidatorIndex \<Rightarrow> LiteAssignment" where
  "AssignmentForValidator bySlot startSlot vIdx =
     (case List.find (\<lambda>(r, cIdx, pos). bySlot ! r ! cIdx ! pos = vIdx)
             (concat (map (\<lambda>(r, committees). concat (map (\<lambda>(cIdx, committee).
                map (\<lambda>pos. (r, cIdx, pos)) [0..<length committee]) (enumerate 0 committees))) (enumerate 0 bySlot))) of
        Some (r, cIdx, pos) \<Rightarrow>
          \<lparr>la_AttesterSlot = startSlot + of_nat r, la_CommitteeIndex = of_nat cIdx,
           la_CommitteeLength = of_nat (length (bySlot ! r ! cIdx)), la_ValidatorCommitteeIndex = of_nat pos\<rparr>
      | None \<Rightarrow> zero_LiteAssignment)"

definition VerifyAssignmentEpoch :: "BeaconChainConfig \<Rightarrow> Epoch \<Rightarrow> BeaconState \<Rightarrow> unit result" where
  "VerifyAssignmentEpoch c epoch state =
     bindR (NextEpoch c state) (\<lambda>nextEpoch.
     if epoch > nextEpoch then Inl (Err ''epoch can't be greater than next epoch'')
     else bindR (EpochStart c epoch) (\<lambda>startSlot.
     let minValidStartSlot = (if bs_slot state \<ge> SlotsPerHistoricalRoot c
                              then bs_slot state - SlotsPerHistoricalRoot c else 0) in
     if startSlot < minValidStartSlot then Inl (Err ''start slot is smaller than the minimum valid start slot'')
     else Inr ()))"

section \<open>Proposers\<close>

definition MaxRandomByte :: u64 where "MaxRandomByte = push_bit 8 1 - 1"
definition MaxRandomValueElectra :: u64 where "MaxRandomValueElectra = push_bit 16 1 - 1"

text \<open>The random draw number \<open>i\<close> and the acceptance test by effective balance, which the proposer and
  the sync committee sampling share.\<close>

definition sample_accepts ::
    "BeaconChainConfig \<Rightarrow> (bytes \<Rightarrow> bytes) \<Rightarrow> BeaconState \<Rightarrow> bytes \<Rightarrow> u64 \<Rightarrow> u64 \<Rightarrow> bool result" where
  "sample_accepts c H s seed i effectiveBal =
     (if bs_version s \<ge> Electra
      then let randomBytes = H (seed @ put_le 8 (i div 16)); offset = unat ((i mod 16) * 2) in
           bindR (idx randomBytes offset) (\<lambda>lo.
           bindR (idx randomBytes (offset + 1)) (\<lambda>hi.
           let randomValue = ucast lo OR push_bit 8 (ucast hi) in
           Inr (effectiveBal * MaxRandomValueElectra \<ge> MaxEffectiveBalanceElectra c * randomValue)))
      else let randomBytes = H (seed @ put_le 8 (i div 32)) in
           bindR (idx randomBytes (unat (i mod 32))) (\<lambda>randomByte.
           Inr (effectiveBal * MaxRandomByte \<ge> MaxEffectiveBalance c * ucast randomByte)))"

definition proposer_candidate ::
    "BeaconChainConfig \<Rightarrow> (bytes \<Rightarrow> bytes) \<Rightarrow> BeaconState \<Rightarrow> ValidatorIndex list \<Rightarrow> bytes \<Rightarrow> u64
       \<Rightarrow> (ValidatorIndex \<times> bool) result" where
  "proposer_candidate c H bState activeIndices seed i =
     (let len = of_nat (length activeIndices) in
      bindR (umod i len) (\<lambda>k.
      bindR (ComputeShuffledIndex c H k len seed True) (\<lambda>shuffled.
      bindR (idx activeIndices (unat shuffled)) (\<lambda>candidateIndex.
      if unat candidateIndex \<ge> NumValidators bState then Inl (Err ''active index out of range'')
      else bindR (ValidatorAtIndexReadOnly bState candidateIndex) (\<lambda>v.
           bindR (sample_accepts c H bState seed i (EffectiveBalance v)) (\<lambda>ok.
           Inr (candidateIndex, ok)))))))"

text \<open>The endless loop of \<^verbatim>\<open>ComputeProposerIndex\<close>; \<open>None\<close> is a loop that never returns.\<close>

partial_function (option) proposer_loop ::
    "(u64 \<Rightarrow> (ValidatorIndex \<times> bool) result) \<Rightarrow> u64 \<Rightarrow> ValidatorIndex result option" where
  "proposer_loop draw i =
     (case draw i of Inl e \<Rightarrow> Some (Inl e)
      | Inr (candidateIndex, ok) \<Rightarrow> if ok then Some (Inr candidateIndex) else proposer_loop draw (i + 1))"

definition ComputeProposerIndex ::
    "BeaconChainConfig \<Rightarrow> (bytes \<Rightarrow> bytes) \<Rightarrow> BeaconState \<Rightarrow> ValidatorIndex list \<Rightarrow> bytes
       \<Rightarrow> ValidatorIndex result option" where
  "ComputeProposerIndex c H bState activeIndices seed =
     (if length activeIndices = 0 then Some (Inl (Err ''empty active indices list''))
      else proposer_loop (proposer_candidate c H bState activeIndices seed) 0)"

text \<open>Calls that may not return: sequencing and the loop over a list.\<close>

definition bindO :: "'a result option \<Rightarrow> ('a \<Rightarrow> 'b result option) \<Rightarrow> 'b result option" where
  "bindO m f = (case m of None \<Rightarrow> None | Some (Inl e) \<Rightarrow> Some (Inl e) | Some (Inr x) \<Rightarrow> f x)"

primrec mapO :: "('a \<Rightarrow> 'b result option) \<Rightarrow> 'a list \<Rightarrow> 'b list result option" where
  "mapO f [] = Some (Inr [])"
| "mapO f (x # xs) = bindO (f x) (\<lambda>y. bindO (mapO f xs) (\<lambda>ys. Some (Inr (y # ys))))"

definition PrecomputeProposerIndices ::
    "BeaconChainConfig \<Rightarrow> (bytes \<Rightarrow> bytes) \<Rightarrow> BeaconState \<Rightarrow> ValidatorIndex list \<Rightarrow> Epoch
       \<Rightarrow> ValidatorIndex list result option" where
  "PrecomputeProposerIndices c H state activeIndices e =
     bindO (Some (wrapR ''could not generate seed'' (Seed c H state e (DomainBeaconProposer c)))) (\<lambda>seed.
     bindO (Some (EpochStart c e)) (\<lambda>slot.
     mapO (\<lambda>i. ComputeProposerIndex c H state activeIndices (H (seed @ Bytes8 (slot + of_nat i))))
       [0..<unat (SlotsPerEpoch c)]))"

definition errProposerIndexMiss :: error where
  "errProposerIndexMiss = Err ''propoposer index not found in cache''"

definition SlotsPerEpoch_field :: nat where
  "SlotsPerEpoch_field = 32"

definition cachedProposerIndexAtSlot ::
    "BeaconChainConfig \<Rightarrow> ProposerIndicesCache \<Rightarrow> Slot \<Rightarrow> root \<Rightarrow> ValidatorIndex result" where
  "cachedProposerIndexAtSlot c p slot root =
     bindR (ToEpoch c slot) (\<lambda>e.
     case pic_ProposerIndices p e root of None \<Rightarrow> Inl errProposerIndexMiss
     | Some proposerIndices \<Rightarrow>
         if length proposerIndices \<noteq> unat (SlotsPerEpoch c) then Inl errProposerIndexMiss
         else bindR (umod slot (SlotsPerEpoch c)) (\<lambda>r. idx proposerIndices (unat r)))"

definition ProposerIndexAtSlotFromCheckpoint ::
    "BeaconChainConfig \<Rightarrow> ProposerIndicesCache \<Rightarrow> Checkpoint \<Rightarrow> Slot \<Rightarrow> ValidatorIndex result" where
  "ProposerIndexAtSlotFromCheckpoint c p cp slot =
     (case IndicesFromCheckpoint p cp of None \<Rightarrow> Inl errProposerIndexMiss
      | Some proposerIndices \<Rightarrow>
          if length proposerIndices \<noteq> unat (SlotsPerEpoch c) then Inl errProposerIndexMiss
          else bindR (umod slot (SlotsPerEpoch c)) (\<lambda>r. idx proposerIndices (unat r)))"

definition beaconProposerIndexAtSlotFulu ::
    "BeaconChainConfig \<Rightarrow> BeaconState \<Rightarrow> Slot \<Rightarrow> ValidatorIndex result" where
  "beaconProposerIndexAtSlotFulu c state slot =
     bindR (ToEpoch c slot) (\<lambda>e.
     bindR (ToEpoch c (bs_slot state)) (\<lambda>stateEpoch.
     if e < stateEpoch \<or> e > stateEpoch + 1
     then Inl (Err ''slot is not in the current epoch or the next epoch'')
     else bindR (wrapR ''could not get proposer lookahead'' (ProposerLookahead state)) (\<lambda>lookAhead.
          bindR (umod slot (SlotsPerEpoch c)) (\<lambda>r.
          if e = stateEpoch then idx lookAhead (unat r)
          else idx lookAhead (unat (SlotsPerEpoch c + r))))))"

text \<open>Operations that change the caches and may not return.\<close>

type_synonym ('l, 'a) sampled = "'l Caches \<Rightarrow> ('a result \<times> 'l Caches) option"

definition bindSO :: "('l, 'a) sampled \<Rightarrow> ('a \<Rightarrow> ('l, 'b) sampled) \<Rightarrow> ('l, 'b) sampled" where
  "bindSO m f s = (case m s of None \<Rightarrow> None | Some (Inl e, s') \<Rightarrow> Some (Inl e, s') | Some (Inr x, s') \<Rightarrow> f x s')"

definition stateSO :: "('l, 'a) cached \<Rightarrow> ('l, 'a) sampled" where
  "stateSO m s = Some (m s)"

definition optSO :: "'a result option \<Rightarrow> ('l, 'a) sampled" where
  "optSO m s = map_option (\<lambda>r. (r, s)) m"

definition UpdateProposerIndicesInCache ::
    "BeaconChainConfig \<Rightarrow> (bytes \<Rightarrow> bytes) \<Rightarrow> 'l lru_ops \<Rightarrow> BeaconState \<Rightarrow> Epoch \<Rightarrow> ('l, unit) sampled" where
  "UpdateProposerIndicesInCache c H L state epoch =
     (if epoch \<le> GenesisEpoch c + MinSeedLookahead c then stateSO (returnS ())
      else bindSO (stateSO (liftS (EpochEnd c (epoch - 1)))) (\<lambda>slot.
      bindSO (stateSO (liftS (StateRootAtSlot c state slot))) (\<lambda>root.
      let store = (\<lambda>proposerIndices s.
            let indicesArray = take SlotsPerEpoch_field proposerIndices
                  @ replicate (SlotsPerEpoch_field - length proposerIndices) 0
            in Some (Inr (), s\<lparr>ca_proposer := pic_Set epoch root indicesArray (pic_Prune (epoch - 2) (ca_proposer s))\<rparr>))
      in if bs_version state \<ge> Fulu
         then bindSO (stateSO (wrapS ''could not get proposer lookahead'' (liftS (ProposerLookahead state)))) (\<lambda>lookAhead.
              bindSO (stateSO (liftS (go_slice lookAhead 0 (SlotsPerEpoch c)))) store)
         else (\<lambda>s. if pic_ProposerIndices (ca_proposer s) epoch root \<noteq> None then Some (Inr (), s)
               else bindSO (stateSO (ActiveValidatorIndices c H L state epoch)) (\<lambda>indices.
                    bindSO (optSO (PrecomputeProposerIndices c H state indices epoch)) (\<lambda>proposerIndices.
                    if length proposerIndices \<noteq> unat (SlotsPerEpoch c)
                    then stateSO (liftS (Inl (Err ''invalid proposer length returned from state'')))
                    else store proposerIndices)) s))))"

definition computed_proposer ::
    "BeaconChainConfig \<Rightarrow> (bytes \<Rightarrow> bytes) \<Rightarrow> 'l lru_ops \<Rightarrow> BeaconState \<Rightarrow> Slot \<Rightarrow> Epoch \<Rightarrow> ('l, ValidatorIndex) sampled" where
  "computed_proposer c H L state slot e =
     bindSO (stateSO (wrapS ''could not generate seed'' (liftS (Seed c H state e (DomainBeaconProposer c))))) (\<lambda>seed.
     let seedWithSlotHash = H (seed @ Bytes8 slot) in
     bindSO (stateSO (wrapS ''could not get active indices'' (ActiveValidatorIndices c H L state e))) (\<lambda>indices.
     optSO (ComputeProposerIndex c H state indices seedWithSlotHash)))"

definition BeaconProposerIndexAtSlot ::
    "BeaconChainConfig \<Rightarrow> (bytes \<Rightarrow> bytes) \<Rightarrow> 'l lru_ops \<Rightarrow> BeaconState \<Rightarrow> Slot \<Rightarrow> ('l, ValidatorIndex) sampled" where
  "BeaconProposerIndexAtSlot c H L state slot =
     bindSO (stateSO (liftS (ToEpoch c slot))) (\<lambda>e.
     bindSO (stateSO (liftS (ToEpoch c (bs_slot state)))) (\<lambda>stateEpoch.
     if bs_version state \<ge> Fulu \<and> e \<ge> FuluForkEpoch c \<and> (e = stateEpoch \<or> e = stateEpoch + 1)
     then stateSO (liftS (beaconProposerIndexAtSlotFulu c state slot))
     else if e \<le> stateEpoch \<and> e > GenesisEpoch c + MinSeedLookahead c
     then bindSO (stateSO (liftS (EpochEnd c (e - 1)))) (\<lambda>last.
          bindSO (stateSO (liftS (StateRootAtSlot c state last))) (\<lambda>r.
          if r \<noteq> replicate 32 0
          then (\<lambda>s. case cachedProposerIndexAtSlot c (ca_proposer s) slot r of
                  Inr pid \<Rightarrow> Some (Inr pid, s)
                | Inl miss \<Rightarrow>
                    bindSO (\<lambda>s. map_option (\<lambda>(res, s'). (wrapR ''could not update proposer index cache'' res, s'))
                               (UpdateProposerIndicesInCache c H L state e s))
                      (\<lambda>_ s. case cachedProposerIndexAtSlot c (ca_proposer s) slot r of
                          Inr pid \<Rightarrow> Some (Inr pid, s)
                        | Inl miss \<Rightarrow> computed_proposer c H L state slot e s) s)
          else computed_proposer c H L state slot e))
     else computed_proposer c H L state slot e))"

definition BeaconProposerIndex ::
    "BeaconChainConfig \<Rightarrow> (bytes \<Rightarrow> bytes) \<Rightarrow> 'l lru_ops \<Rightarrow> BeaconState \<Rightarrow> ('l, ValidatorIndex) sampled" where
  "BeaconProposerIndex c H L state = BeaconProposerIndexAtSlot c H L state (bs_slot state)"

definition UpdateCachedCheckpointToStateRoot ::
    "BeaconChainConfig \<Rightarrow> BeaconState \<Rightarrow> Checkpoint \<Rightarrow> ProposerIndicesCache \<Rightarrow> ProposerIndicesCache result" where
  "UpdateCachedCheckpointToStateRoot c state cp p =
     (if cp_Epoch cp \<le> GenesisEpoch c + MinSeedLookahead c then Inr p
      else bindR (EpochEnd c (cp_Epoch cp)) (\<lambda>slot.
           bindR (umod slot (SlotsPerHistoricalRoot c)) (\<lambda>r.
           bindR (StateRootAtIndex state r) (\<lambda>root. Inr (pic_SetCheckpoint cp root p)))))"

text \<open>\<^verbatim>\<open>NextSyncCommitteeIndices\<close> of \<^verbatim>\<open>altair/sync_committee.go\<close>.\<close>

partial_function (option) sync_loop ::
    "(u64 \<Rightarrow> (ValidatorIndex \<times> bool) result) \<Rightarrow> nat \<Rightarrow> u64 \<Rightarrow> ValidatorIndex list \<Rightarrow> ValidatorIndex list result option" where
  "sync_loop draw syncCommitteeSize i cIndices =
     (if length cIndices < syncCommitteeSize
      then case draw i of Inl e \<Rightarrow> Some (Inl e)
           | Inr (cIndex, ok) \<Rightarrow> sync_loop draw syncCommitteeSize (i + 1) (if ok then cIndices @ [cIndex] else cIndices)
      else Some (Inr cIndices))"

definition sync_candidate ::
    "BeaconChainConfig \<Rightarrow> (bytes \<Rightarrow> bytes) \<Rightarrow> BeaconState \<Rightarrow> ValidatorIndex list \<Rightarrow> bytes \<Rightarrow> u64
       \<Rightarrow> (ValidatorIndex \<times> bool) result" where
  "sync_candidate c H s indices seed i =
     (let cnt = of_nat (length indices) in
      bindR (umod i cnt) (\<lambda>k.
      bindR (ComputeShuffledIndex c H k cnt seed True) (\<lambda>sIndex.
      bindR (idx indices (unat sIndex)) (\<lambda>cIndex.
      bindR (ValidatorAtIndexReadOnly s cIndex) (\<lambda>v.
      bindR (sample_accepts c H s seed i (EffectiveBalance v)) (\<lambda>ok. Inr (cIndex, ok)))))))"

definition NextSyncCommitteeIndices ::
    "BeaconChainConfig \<Rightarrow> (bytes \<Rightarrow> bytes) \<Rightarrow> 'l lru_ops \<Rightarrow> BeaconState \<Rightarrow> ('l, ValidatorIndex list) sampled" where
  "NextSyncCommitteeIndices c H L s =
     bindSO (stateSO (liftS (NextEpoch c s))) (\<lambda>epoch.
     bindSO (stateSO (ActiveValidatorIndices c H L s epoch)) (\<lambda>indices.
     bindSO (stateSO (liftS (Seed c H s epoch (DomainSyncCommittee c)))) (\<lambda>seed.
     optSO (sync_loop (sync_candidate c H s indices seed) (unat (SyncCommitteeSize c)) 0 []))))"

section \<open>The active set and the number of committees\<close>

definition active_of :: "BeaconState \<Rightarrow> Epoch \<Rightarrow> ValidatorIndex list" where
  "active_of s e = map of_nat (filter (\<lambda>i. IsActiveValidatorUsingTrie (bs_validators s ! i) e) [0..<length (bs_validators s)])"

text \<open>Sizes for which no product of a committee computation wraps.\<close>

definition committee_config :: "BeaconChainConfig \<Rightarrow> bool" where
  "committee_config c \<longleftrightarrow>
     SlotsPerEpoch c \<noteq> 0 \<and> TargetCommitteeSize c \<noteq> 0 \<and> MaxCommitteesPerSlot c \<noteq> 0 \<and>
     (ucast (ShuffleRoundCount c) :: u8) \<noteq> 0 \<and>
     unat (SlotsPerEpoch c) * unat (MaxCommitteesPerSlot c) \<le> 2 ^ 16"

lemma committee_config_mainnet: "committee_config mainnetBeaconConfig"
  by (simp add: committee_config_def mainnetBeaconConfig_def)

lemma fold_active:
  "fold (\<lambda>(i, v) acc. if P v then acc @ [of_nat i] else acc) (enumerate k vs) acc
     = acc @ map of_nat (filter (\<lambda>i. P (vs ! (i - k))) [k..<k + length vs])"
proof (induction vs arbitrary: k acc)
  case Nil
  then show ?case by simp
next
  case (Cons v vs)
  have "filter (\<lambda>i. P ((v # vs) ! (i - k))) [Suc k..<Suc k + length vs]
      = filter (\<lambda>i. P (vs ! (i - Suc k))) [Suc k..<Suc k + length vs]"
    by (intro filter_cong) (auto simp: nth_Cons')
  then show ?case using Cons.IH [of "Suc k"] by (simp add: upt_conv_Cons del: upt_Suc)
qed

lemma activeIndices_scan_eq: "activeIndices_scan s e = Inr (active_of s e)"
proof -
  have "activeIndices_scan s e = Inr (fold (\<lambda>(i, v) acc. if IsActiveValidatorUsingTrie v e then acc @ [of_nat i] else acc)
      (enumerate 0 (bs_validators s)) [])"
    unfolding activeIndices_scan_def ReadFromEveryValidator_def by (intro foldR_total) auto
  then show ?thesis by (simp add: fold_active active_of_def)
qed

lemma length_active_of: "length (active_of s e) \<le> length (bs_validators s)"
  unfolding active_of_def length_map by (metis length_filter_le length_upt diff_zero)

lemma sorted_active_of: "length (bs_validators s) \<le> 2 ^ 40 \<Longrightarrow> sorted (active_of s e)"
proof -
  assume len: "length (bs_validators s) \<le> 2 ^ 40"
  let ?xs = "filter (\<lambda>i. IsActiveValidatorUsingTrie (bs_validators s ! i) e) [0..<length (bs_validators s)]"
  have "sorted ?xs" by (simp add: sorted_wrt_filter)
  moreover have "(of_nat x :: u64) \<le> of_nat y" if "x \<in> set ?xs" "y \<in> set ?xs" "x \<le> y" for x y
    using that len by (simp add: word_le_nat_alt unat_of_nat_u64)
  ultimately show ?thesis unfolding active_of_def sorted_map
    by (rule sorted_wrt_mono_rel [rotated])
qed

lemma distinct_active_of: "length (bs_validators s) \<le> 2 ^ 40 \<Longrightarrow> distinct (active_of s e)"
proof -
  assume len: "length (bs_validators s) \<le> 2 ^ 40"
  then have "inj_on (of_nat :: nat \<Rightarrow> u64) {0..<length (bs_validators s)}"
    by (intro inj_on_inverseI [of _ unat]) (simp add: unat_of_nat_u64)
  then show ?thesis by (auto simp: active_of_def distinct_map intro: inj_on_subset)
qed

lemma SlotCommitteeCount_ok:
  assumes "committee_config c"
  shows "\<exists>k. SlotCommitteeCount c n = Inr k \<and> 0 < unat k \<and> unat k \<le> unat (MaxCommitteesPerSlot c) \<and> k \<le> MaxCommitteesPerSlot c"
proof -
  have "0 < unat (MaxCommitteesPerSlot c)" using assms by (simp add: committee_config_def unat_gt_0)
  then show ?thesis
    using assms
    by (auto simp: SlotCommitteeCount_def committee_config_def unat_gt_0 not_less word_le_nat_alt Suc_le_eq)
qed

section \<open>Slices of the shuffled list\<close>

text \<open>\<^verbatim>\<open>compute_committee\<close> of the specification, on natural numbers.\<close>

definition spec_committee ::
    "BeaconChainConfig \<Rightarrow> (bytes \<Rightarrow> bytes) \<Rightarrow> ValidatorIndex list \<Rightarrow> bytes \<Rightarrow> nat \<Rightarrow> nat \<Rightarrow> ValidatorIndex list" where
  "spec_committee c H indices seed index cnt =
     map (\<lambda>i. indices ! unat (projr (ShuffledIndex c H (of_nat i) (of_nat (length indices)) seed)))
       [length indices * index div cnt..<length indices * (index + 1) div cnt]"

lemma slice_is_committee:
  assumes un: "UnshuffleList c H indices seed = Inr un" and "hash32 H" "length indices \<le> 2 ^ 40"
      "(ucast (ShuffleRoundCount c) :: u8) \<noteq> 0"
      and idx: "index < unat cnt" "unat cnt \<le> 2 ^ 16" and i: "unat i = index"
  shows "\<exists>a b. SplitOffset (of_nat (length indices)) cnt i = Inr a \<and> SplitOffset (of_nat (length indices)) cnt (i + 1) = Inr b \<and>
     a \<le> b \<and> b \<le> of_nat (length indices) \<and> length un = length indices \<and>
     go_slice un a b = Inr (spec_committee c H indices seed index (unat cnt))"
proof -
  let ?n = "length indices"
  have n: "unat (of_nat ?n :: u64) = ?n" using assms(3) by (intro unat_of_nat_u64) simp
  have i1: "unat (i + 1) = index + 1" using unat_add_u64 [of i 1] i idx by simp
  have "?n * (index + 1) \<le> 2 ^ 40 * 2 ^ 16" using assms(3) idx by (intro mult_le_mono) simp_all
  then have small: "?n * index < 2 ^ 64" "?n * (index + 1) < 2 ^ 64" by simp_all
  have nz: "cnt \<noteq> 0" using idx(1) by auto
  obtain a b where a: "SplitOffset (of_nat ?n) cnt i = Inr a" "unat a = split_at ?n (unat cnt) index"
      and b: "SplitOffset (of_nat ?n) cnt (i + 1) = Inr b" "unat b = split_at ?n (unat cnt) (index + 1)"
    using SplitOffset_nat [OF _ nz, of "of_nat ?n" i] SplitOffset_nat [OF _ nz, of "of_nat ?n" "i + 1"] small
    unfolding n i i1 by metis
  have ab: "unat a \<le> unat b" "unat b \<le> ?n"
    using a(2) b(2) split_at_mono [of ?n "unat cnt" index] split_at_le [of "unat cnt" "index + 1" ?n] idx(1) by simp_all
  obtain un' where "UnshuffleList c H indices seed = Inr un'" "mset un' = mset indices" and
    nth: "\<forall>k < ?n. \<exists>j. ShuffledIndex c H (of_nat k) (of_nat ?n) seed = Inr j \<and> un' ! k = indices ! unat j"
    using unshuffle_at [OF assms(2-4)] by blast
  then have un': "un' = un" "length un = ?n" using un mset_eq_length by auto
  have "drop (unat a) (take (unat b) un) = spec_committee c H indices seed index (unat cnt)"
  proof (rule nth_equalityI)
    show "length (drop (unat a) (take (unat b) un)) = length (spec_committee c H indices seed index (unat cnt))"
      using ab a(2) b(2) un'(2) by (simp add: spec_committee_def split_at_def)
    fix j assume "j < length (drop (unat a) (take (unat b) un))"
    then have j: "unat a + j < unat b" using ab un'(2) by simp
    then have "unat a + j < ?n" using ab(2) by linarith
    then obtain t where "ShuffledIndex c H (of_nat (unat a + j)) (of_nat ?n) seed = Inr t" "un ! (unat a + j) = indices ! unat t"
      using nth un'(1) by blast
    then show "drop (unat a) (take (unat b) un) ! j = spec_committee c H indices seed index (unat cnt) ! j"
      using j a(2) b(2) ab un'(2) by (simp add: spec_committee_def split_at_def)
  qed
  then have "go_slice un a b = Inr (spec_committee c H indices seed index (unat cnt))"
    using ab un'(2) by (simp add: go_slice_def)
  moreover have "a \<le> b" "b \<le> of_nat ?n" using ab by (simp_all only: word_le_nat_alt n)
  ultimately show ?thesis using a(1) b(1) un'(2) by blast
qed

section \<open>Coherent caches\<close>

text \<open>Entries are keyed by their seed. An entry is right for the active set \<open>act seed\<close> when it holds the
  committees that would be computed from that set.\<close>

definition entry_ok :: "BeaconChainConfig \<Rightarrow> (bytes \<Rightarrow> bytes) \<Rightarrow> (bytes \<Rightarrow> ValidatorIndex list) \<Rightarrow> bytes \<Rightarrow> Committees \<Rightarrow> bool" where
  "entry_ok c H act seed item \<longleftrightarrow>
     com_SortedIndices item = act seed \<and> UnshuffleList c H (act seed) seed = Inr (com_ShuffledIndices item) \<and>
     bindR (SlotCommitteeCount c (of_nat (length (act seed)))) (Slot_Mul (SlotsPerEpoch c)) = Inr (com_CommitteeCount item)"

definition coherent ::
    "('l \<Rightarrow> bytes \<Rightarrow> Committees option) \<Rightarrow> BeaconChainConfig \<Rightarrow> (bytes \<Rightarrow> bytes) \<Rightarrow> (bytes \<Rightarrow> ValidatorIndex list)
       \<Rightarrow> 'l Caches \<Rightarrow> bool" where
  "coherent cont c H act cs \<longleftrightarrow> (\<forall>seed item. cont (ca_committee cs) seed = Some item \<longrightarrow> entry_ok c H act seed item)"

text \<open>The state gives the seed, and the seed stands for its active set.\<close>

definition seeded ::
    "BeaconChainConfig \<Rightarrow> (bytes \<Rightarrow> bytes) \<Rightarrow> (bytes \<Rightarrow> ValidatorIndex list) \<Rightarrow> BeaconState \<Rightarrow> Epoch \<Rightarrow> bytes \<Rightarrow> bool" where
  "seeded c H act s e seed \<longleftrightarrow>
     Seed c H s e (DomainBeaconAttester c) = Inr seed \<and> act seed = active_of s e \<and>
     active_of s e \<noteq> [] \<and> length (bs_validators s) \<le> 2 ^ 40"

lemma yields_cache_Get:
  assumes "lru_laws L cont"
  shows "yields (coherent cont c H act) (cache_Get L seed) (\<lambda>entry. \<forall>item. entry = Some item \<longrightarrow> entry_ok c H act seed item)"
  using assms unfolding yields_def cache_Get_def coherent_def lru_laws_def
  by (auto split: prod.splits) (metis fst_conv snd_conv)+

lemma count_ok:
  assumes "committee_config c"
  shows "\<exists>k. SlotCommitteeCount c n = Inr k \<and> Slot_Mul (SlotsPerEpoch c) k = Inr (SlotsPerEpoch c * k) \<and>
    0 < unat k \<and> unat (SlotsPerEpoch c * k) = unat (SlotsPerEpoch c) * unat k \<and> unat (SlotsPerEpoch c) * unat k \<le> 2 ^ 16"
proof -
  obtain k where k: "SlotCommitteeCount c n = Inr k" "0 < unat k" "unat k \<le> unat (MaxCommitteesPerSlot c)"
    using SlotCommitteeCount_ok [OF assms, of n] by blast
  have "unat (SlotsPerEpoch c) * unat k \<le> unat (SlotsPerEpoch c) * unat (MaxCommitteesPerSlot c)"
    using k(3) by (rule mult_le_mono2)
  also have "\<dots> \<le> 2 ^ 16" using assms by (simp add: committee_config_def)
  finally have small: "unat (SlotsPerEpoch c) * unat k \<le> 2 ^ 16" .
  then have "unat (SlotsPerEpoch c * k) = unat (SlotsPerEpoch c) * unat k" by (intro unat_mult_u64) simp
  moreover have "Slot_Mul (SlotsPerEpoch c) k = Inr (SlotsPerEpoch c * k)"
    using small by (simp add: slot_ops Mul64_cases must_def)
  ultimately show ?thesis using k small by blast
qed

lemma yields_AddCommitteeShuffledList:
  assumes "lru_laws L cont" "entry_ok c H act (com_Seed item) item"
  shows "yields (coherent cont c H act) (AddCommitteeShuffledList L item) (\<lambda>_. True)"
proof -
  have "entry_ok c H act seed v" if "coherent cont c H act cs"
      "cont (lru_Add L (ca_committee cs) (com_Seed item) item) seed = Some v" for cs seed v
  proof -
    have "cont (lru_Add L (ca_committee cs) (com_Seed item) item) \<subseteq>\<^sub>m (cont (ca_committee cs))(com_Seed item \<mapsto> item)"
      using assms(1) by (simp add: lru_laws_def)
    then have "((cont (ca_committee cs))(com_Seed item \<mapsto> item)) seed = Some v"
      using that(2) by (auto simp: map_le_def dom_def)
    then show ?thesis using that(1) assms(2) by (auto simp: coherent_def split: if_splits)
  qed
  then show ?thesis by (auto simp: yields_def AddCommitteeShuffledList_def coherent_def)
qed

definition caching ::
    "BeaconChainConfig \<Rightarrow> (bytes \<Rightarrow> bytes) \<Rightarrow> 'l lru_ops \<Rightarrow> ('l \<Rightarrow> bytes \<Rightarrow> Committees option) \<Rightarrow> bool" where
  "caching c H L cont \<longleftrightarrow> lru_laws L cont \<and> hash32 H \<and> committee_config c"

lemma cachingD:
  assumes "caching c H L cont"
  shows "lru_laws L cont" "hash32 H" "committee_config c"
  using assms by (simp_all add: caching_def)

lemma shuffled_active:
  assumes "caching c H L cont" "seeded c H act s e seed"
  shows "\<exists>un. UnshuffleList c H (active_of s e) seed = Inr un \<and> ShuffledIndices c H s e = Inr un \<and>
    mset un = mset (active_of s e) \<and> length un = length (active_of s e) \<and> sort un = active_of s e"
proof -
  have "length (active_of s e) \<le> 2 ^ 40" "(ucast (ShuffleRoundCount c) :: u8) \<noteq> 0"
    using assms length_active_of [of s e] by (auto simp: seeded_def caching_def committee_config_def)
  then obtain un where un: "UnshuffleList c H (active_of s e) seed = Inr un" "mset un = mset (active_of s e)"
    using unshuffle_at [OF cachingD(2) [OF assms(1)], of "active_of s e" c seed] by blast
  have "sorted (active_of s e)" using assms sorted_active_of by (simp add: seeded_def)
  then have "sort un = active_of s e" using un(2) by (intro properties_for_sort) simp_all
  then show ?thesis
    using un assms(2) mset_eq_length [OF un(2)]
    by (simp add: ShuffledIndices_def seeded_def activeIndices_scan_eq)
qed

lemma yields_UpdateCommitteeCache:
  assumes "caching c H L cont" "seeded c H act s e seed"
  shows "yields (coherent cont c H act) (UpdateCommitteeCache c H L s e) (\<lambda>_. True)"
proof -
  obtain un where un: "UnshuffleList c H (active_of s e) seed = Inr un" "ShuffledIndices c H s e = Inr un"
    "length un = length (active_of s e)" "sort un = active_of s e"
    using shuffled_active [OF assms] by blast
  obtain k where k: "SlotCommitteeCount c (of_nat (length un)) = Inr k" "Slot_Mul (SlotsPerEpoch c) k = Inr (SlotsPerEpoch c * k)"
    using count_ok [OF cachingD(3) [OF assms(1)]] by blast
  let ?item = "\<lparr>com_CommitteeCount = SlotsPerEpoch c * k, com_Seed = seed, com_ShuffledIndices = un,
      com_SortedIndices = sort un\<rparr>"
  have seed: "Seed c H s e (DomainBeaconAttester c) = Inr seed" using assms(2) by (simp add: seeded_def)
  have "entry_ok c H act (com_Seed ?item) ?item"
    using un k assms by (simp add: entry_ok_def seeded_def)
  note add = yields_AddCommitteeShuffledList [OF cachingD(1) [OF assms(1)] this]
  have has: "yields (coherent cont c H act) (cache_HasEntry L seed) (\<lambda>_. True)"
    unfolding cache_HasEntry_def
    by (rule yields_bindS [OF yields_cache_Get [OF cachingD(1) [OF assms(1)]]]) (simp add: yields_returnS)
  show ?thesis
    unfolding UpdateCommitteeCache_def seed bindS_liftS un(2) k
    by (rule yields_bindS [OF has]) (simp add: yields_returnS add)
qed

lemma yields_ActiveValidatorIndices:
  assumes "caching c H L cont" "seeded c H act s e seed"
  shows "yields (coherent cont c H act) (ActiveValidatorIndices c H L s e) (\<lambda>xs. xs = active_of s e)"
proof -
  have seed: "Seed c H s e (DomainBeaconAttester c) = Inr seed" "act seed = active_of s e" "active_of s e \<noteq> []"
    using assms(2) by (simp_all add: seeded_def)
  have get: "yields (coherent cont c H act) (cache_ActiveIndices L seed) (\<lambda>x. \<forall>y. x = Some y \<longrightarrow> y = active_of s e)"
    unfolding cache_ActiveIndices_def
    by (rule yields_bindS [OF yields_cache_Get [OF cachingD(1) [OF assms(1)]]])
      (auto simp: entry_ok_def seed intro: yields_returnS)
  have upd: "yields (coherent cont c H act) (bindS (ignoreS (UpdateCommitteeCache c H L s e)) (\<lambda>_. returnS (active_of s e)))
      (\<lambda>xs. xs = active_of s e)"
    by (rule yields_bindS [OF yields_ignoreS [OF yields_UpdateCommitteeCache [OF assms]]]) (simp add: yields_returnS)
  show ?thesis
    unfolding ActiveValidatorIndices_def seed(1) bindS_liftS activeIndices_scan_eq
  proof (rule yields_bindS [OF yields_wrapS [OF get]])
    fix x assume x: "\<forall>y. x = Some y \<longrightarrow> y = active_of s e"
    show "yields (coherent cont c H act) (case x of None \<Rightarrow>
          if length (active_of s e) = 0 then liftS (Inl (Err ''no active validator indices''))
          else bindS (ignoreS (UpdateCommitteeCache c H L s e)) (\<lambda>_. returnS (active_of s e))
        | Some activeIndices \<Rightarrow> returnS activeIndices) (\<lambda>xs. xs = active_of s e)"
      using x seed(3) upd by (cases x) (simp_all add: yields_returnS)
  qed
qed

text \<open>The position of committee \<open>ci\<close> of a slot among the committees of the epoch.\<close>

definition committee_no :: "BeaconChainConfig \<Rightarrow> Slot \<Rightarrow> u64 \<Rightarrow> nat \<Rightarrow> nat" where
  "committee_no c slot k ci = unat slot mod unat (SlotsPerEpoch c) * unat k + ci"

lemma committee_no_lt:
  assumes "SlotsPerEpoch c \<noteq> 0" "ci < unat k"
  shows "committee_no c slot k ci < unat (SlotsPerEpoch c) * unat k"
proof -
  have "unat slot mod unat (SlotsPerEpoch c) + 1 \<le> unat (SlotsPerEpoch c)"
    using assms(1) by (simp add: Suc_le_eq unat_gt_0)
  then have "(unat slot mod unat (SlotsPerEpoch c) + 1) * unat k \<le> unat (SlotsPerEpoch c) * unat k"
    by (rule mult_le_mono1)
  then show ?thesis using assms(2) by (simp add: committee_no_def)
qed

lemma committee_offset:
  assumes "committee_config c" "SlotCommitteeCount c n = Inr k" "unat ci < unat k"
  shows "\<exists>r m i. Slot_ModSlot slot (SlotsPerEpoch c) = Inr r \<and> Slot_Mul r k = Inr m \<and> Add64 ci m = Inr i \<and>
    unat i = committee_no c slot k (unat ci)"
proof -
  let ?r = "slot mod SlotsPerEpoch c"
  have nz: "SlotsPerEpoch c \<noteq> 0" using assms(1) by (simp add: committee_config_def)
  have "unat (SlotsPerEpoch c) * unat k \<le> 2 ^ 16" using count_ok [OF assms(1), of n] assms(2) by auto
  then have small: "unat ?r * unat k + unat ci < 2 ^ 16"
    using committee_no_lt [OF nz assms(3), of slot] by (simp add: committee_no_def unat_mod_u64)
  then have mul: "unat (?r * k) = unat ?r * unat k" by (intro unat_mult_u64) simp
  then have "unat (ci + ?r * k) = unat ci + unat ?r * unat k" using small by (simp add: unat_add_u64)
  moreover have "Slot_Mul ?r k = Inr (?r * k)" using small by (simp add: slot_ops Mul64_cases must_def)
  moreover have "Add64 ci (?r * k) = Inr (ci + ?r * k)" using small mul by (simp add: Add64_cases)
  moreover have "Slot_ModSlot slot (SlotsPerEpoch c) = Inr ?r" using nz by (simp add: slot_ops must_def Mod64_def)
  ultimately show ?thesis by (auto simp: committee_no_def unat_mod_u64)
qed

lemma uncached_committee_spec:
  assumes "caching c H L cont" "seeded c H act s e seed"
      and k: "SlotCommitteeCount c (of_nat (length (active_of s e))) = Inr k" "unat ci < unat k"
  shows "uncached_committee c H (active_of s e) seed slot ci
    = Inr (spec_committee c H (active_of s e) seed (committee_no c slot k (unat ci)) (unat (SlotsPerEpoch c) * unat k))"
proof -
  note cfg = cachingD(3) [OF assms(1)]
  obtain r m i where off: "Slot_ModSlot slot (SlotsPerEpoch c) = Inr r" "Slot_Mul r k = Inr m" "Add64 ci m = Inr i"
      "unat i = committee_no c slot k (unat ci)"
    using committee_offset [OF cfg k] by blast
  have cnt: "unat (k * SlotsPerEpoch c) = unat (SlotsPerEpoch c) * unat k" "unat (SlotsPerEpoch c) * unat k \<le> 2 ^ 16"
    using count_ok [OF cfg, of "of_nat (length (active_of s e))"] k(1) by (auto simp: mult.commute)
  have "SlotsPerEpoch c \<noteq> 0" using cfg by (simp add: committee_config_def)
  then have lt: "unat i < unat (k * SlotsPerEpoch c)" using committee_no_lt k(2) cnt(1) off(4) by simp
  obtain un where un: "UnshuffleList c H (active_of s e) seed = Inr un"
    using shuffled_active [OF assms(1,2)] by blast
  have len: "length (active_of s e) \<le> 2 ^ 40" "(ucast (ShuffleRoundCount c) :: u8) \<noteq> 0"
    using assms(2) cfg length_active_of [of s e] by (auto simp: seeded_def committee_config_def)
  then obtain a b where ab: "SplitOffset (of_nat (length (active_of s e))) (k * SlotsPerEpoch c) i = Inr a"
      "SplitOffset (of_nat (length (active_of s e))) (k * SlotsPerEpoch c) (i + 1) = Inr b" "a \<le> b"
      "b \<le> of_nat (length (active_of s e))"
      "go_slice un a b = Inr (spec_committee c H (active_of s e) seed (unat i) (unat (k * SlotsPerEpoch c)))"
    using slice_is_committee [OF un cachingD(2) [OF assms(1)] len lt _ refl] cnt by auto
  have "\<not> (a > of_nat (length (active_of s e)) \<or> b > of_nat (length (active_of s e)))" using ab(3,4) by auto
  then show ?thesis
    using ab off cnt k(1) by (simp add: uncached_committee_def ComputeCommittee_def un Let_def)
qed

lemma item_committee_spec:
  assumes "caching c H L cont" "seeded c H act s e seed" "entry_ok c H act seed item"
      and k: "SlotCommitteeCount c (of_nat (length (active_of s e))) = Inr k" "unat ci < unat k"
  shows "item_committee c slot ci item
    = Inr (spec_committee c H (active_of s e) seed (committee_no c slot k (unat ci)) (unat (SlotsPerEpoch c) * unat k))"
proof -
  note cfg = cachingD(3) [OF assms(1)]
  let ?cnt = "com_CommitteeCount item" and ?un = "com_ShuffledIndices item"
  have act: "act seed = active_of s e" using assms(2) by (simp add: seeded_def)
  have item: "?cnt = SlotsPerEpoch c * k" "UnshuffleList c H (active_of s e) seed = Inr ?un"
    using assms(3) k(1) count_ok [OF cfg, of "of_nat (length (active_of s e))"] by (auto simp: entry_ok_def act)
  obtain r m i where off: "Slot_ModSlot slot (SlotsPerEpoch c) = Inr r" "Slot_Mul r k = Inr m" "Add64 ci m = Inr i"
      "unat i = committee_no c slot k (unat ci)"
    using committee_offset [OF cfg k] by blast
  have cnt: "unat ?cnt = unat (SlotsPerEpoch c) * unat k" "unat ?cnt \<le> 2 ^ 16"
    using count_ok [OF cfg, of "of_nat (length (active_of s e))"] k(1) item(1) by auto
  have nz: "SlotsPerEpoch c \<noteq> 0" using cfg by (simp add: committee_config_def)
  then have lt: "unat i < unat ?cnt" using committee_no_lt k(2) cnt(1) off(4) by simp
  have "unat (?cnt div SlotsPerEpoch c) = unat k" using nz by (simp add: unat_div_u64 cnt(1) unat_gt_0)
  then have q: "?cnt div SlotsPerEpoch c = k" by (rule u64_eqI)
  have per: "(if k > 1 then k else 1) = k" using k(2) by (auto simp: word_less_nat_alt u64_eq_iff)
  have len: "length (active_of s e) \<le> 2 ^ 40" "(ucast (ShuffleRoundCount c) :: u8) \<noteq> 0"
    using assms(2) cfg length_active_of [of s e] by (auto simp: seeded_def committee_config_def)
  then obtain a b where ab: "SplitOffset (of_nat (length (active_of s e))) ?cnt i = Inr a"
      "SplitOffset (of_nat (length (active_of s e))) ?cnt (i + 1) = Inr b" "a \<le> b" "length ?un = length (active_of s e)"
      "go_slice ?un a b = Inr (spec_committee c H (active_of s e) seed (unat i) (unat ?cnt))"
    using slice_is_committee [OF item(2) cachingD(2) [OF assms(1)] len lt cnt(2) refl] by blast
  then have "unat b \<le> length ?un" by (auto simp: go_slice_def split: if_splits)
  then show ?thesis
    using ab off cnt(1) nz q per by (simp add: item_committee_def startEndIndices_def Let_def not_less)
qed

section \<open>Cached committees are the committees of the specification\<close>

definition committee_of ::
    "BeaconChainConfig \<Rightarrow> (bytes \<Rightarrow> bytes) \<Rightarrow> BeaconState \<Rightarrow> Epoch \<Rightarrow> bytes \<Rightarrow> Slot \<Rightarrow> u64 \<Rightarrow> nat \<Rightarrow> ValidatorIndex list" where
  "committee_of c H s e seed slot k ci =
     spec_committee c H (active_of s e) seed (committee_no c slot k ci) (unat (SlotsPerEpoch c) * unat k)"

lemma yields_cache_Committee:
  assumes "caching c H L cont" "seeded c H act s e seed"
      and "SlotCommitteeCount c (of_nat (length (active_of s e))) = Inr k" "unat ci < unat k"
  shows "yields (coherent cont c H act) (cache_Committee c L slot seed ci)
    (\<lambda>x. x = None \<or> x = Some (committee_of c H s e seed slot k (unat ci)))"
  unfolding cache_Committee_def
proof (rule yields_bindS [OF yields_cache_Get [OF cachingD(1) [OF assms(1)]]])
  fix x assume x: "\<forall>item. x = Some item \<longrightarrow> entry_ok c H act seed item"
  show "yields (coherent cont c H act) (case x of None \<Rightarrow> returnS None
      | Some item \<Rightarrow> liftS (bindR (item_committee c slot ci item) (\<lambda>x. Inr (Some x))))
    (\<lambda>x. x = None \<or> x = Some (committee_of c H s e seed slot k (unat ci)))"
    using x item_committee_spec [OF assms(1,2) _ assms(3,4), of _ slot]
    by (cases x) (auto simp: committee_of_def intro!: yields_returnS yields_liftS)
qed

lemma yields_BeaconCommittee:
  assumes "caching c H L cont" "seeded c H act s e seed"
      and "SlotCommitteeCount c (of_nat (length (active_of s e))) = Inr k" "unat ci < unat k"
  shows "yields (coherent cont c H act) (BeaconCommittee c H L (active_of s e) seed slot ci)
    (\<lambda>x. x = committee_of c H s e seed slot k (unat ci))"
  unfolding BeaconCommittee_def
  by (rule yields_bindS [OF yields_wrapS [OF yields_cache_Committee [OF assms]]])
    (auto simp: uncached_committee_spec [OF assms] committee_of_def intro: yields_returnS yields_liftS)

lemma yields_BeaconCommitteeFromState:
  assumes "caching c H L cont" "seeded c H act s e seed" and e: "ToEpoch c slot = Inr e"
      and "SlotCommitteeCount c (of_nat (length (active_of s e))) = Inr k" "unat ci < unat k"
  shows "yields (coherent cont c H act) (BeaconCommitteeFromState c H L s slot ci)
    (\<lambda>x. x = committee_of c H s e seed slot k (unat ci))"
proof -
  have seed: "Seed c H s e (DomainBeaconAttester c) = Inr seed" using assms(2) by (simp add: seeded_def)
  have miss: "yields (coherent cont c H act)
      (bindS (wrapS ''could not get active indices'' (ActiveValidatorIndices c H L s e)) (\<lambda>activeIndices.
         BeaconCommittee c H L activeIndices seed slot ci)) (\<lambda>x. x = committee_of c H s e seed slot k (unat ci))"
    by (rule yields_bindS [OF yields_wrapS [OF yields_ActiveValidatorIndices [OF assms(1,2)]]])
      (simp add: yields_BeaconCommittee [OF assms(1,2,4,5)])
  show ?thesis
    unfolding BeaconCommitteeFromState_def e seed bindS_liftS
    by (rule yields_bindS [OF yields_wrapS [OF yields_cache_Committee [OF assms(1,2,4,5)]]])
      (auto simp: miss intro: yields_returnS)
qed

lemma ActiveValidatorCount_active: "ActiveValidatorCount s e = Inr (of_nat (length (active_of s e)))"
proof -
  have "fold (\<lambda>(i, v) n. if P v then n + 1 else n) (enumerate k vs) (acc :: u64)
      = acc + of_nat (length (filter (\<lambda>i. P (vs ! (i - k))) [k..<k + length vs]))" for P k vs acc
  proof (induction vs arbitrary: k acc)
    case (Cons v vs)
    have "filter (\<lambda>i. P ((v # vs) ! (i - k))) [Suc k..<Suc k + length vs]
        = filter (\<lambda>i. P (vs ! (i - Suc k))) [Suc k..<Suc k + length vs]"
      by (intro filter_cong) (auto simp: nth_Cons')
    then show ?case using Cons.IH [of "Suc k"] by (simp add: upt_conv_Cons del: upt_Suc)
  qed simp
  from this [of "\<lambda>v. IsActiveValidatorUsingTrie v e" 0 "bs_validators s" 0] show ?thesis
    by (simp add: ActiveValidatorCount_def ReadFromEveryValidator_pure active_of_def)
qed

lemma yields_cached_count:
  assumes "caching c H L cont" "seeded c H act s e seed"
  shows "yields (coherent cont c H act) (cached_ActiveValidatorCount c H L s e) (\<lambda>n. n = of_nat (length (active_of s e)))"
proof -
  have seed: "Seed c H s e (DomainBeaconAttester c) = Inr seed" "act seed = active_of s e"
    using assms(2) by (simp_all add: seeded_def)
  have get: "yields (coherent cont c H act) (cache_ActiveIndicesCount L seed) (\<lambda>n. n = 0 \<or> n = length (active_of s e))"
    unfolding cache_ActiveIndicesCount_def
    by (rule yields_bindS [OF yields_cache_Get [OF cachingD(1) [OF assms(1)]]])
      (auto simp: entry_ok_def seed split: option.splits intro!: yields_returnS)
  have scan: "yields (coherent cont c H act) (bindS (wrapS ''could not update committee cache'' (UpdateCommitteeCache c H L s e))
      (\<lambda>_. returnS (of_nat (length (active_of s e))))) (\<lambda>n. n = of_nat (length (active_of s e)))"
    by (rule yields_bindS [OF yields_wrapS [OF yields_UpdateCommitteeCache [OF assms]]]) (simp add: yields_returnS)
  show ?thesis
    unfolding cached_ActiveValidatorCount_def seed(1) bindS_liftS ActiveValidatorCount_active
    by (rule yields_bindS [OF yields_wrapS [OF get]]) (auto simp: scan intro: yields_returnS)
qed

lemma yields_committees_from:
  assumes "caching c H L cont" "seeded c H act s e seed"
      and k: "SlotCommitteeCount c (of_nat (length (active_of s e))) = Inr k" "\<forall>ci \<in> set cis. unat ci < unat k"
      and "xs = [] \<or> xs = active_of s e"
  shows "yields (coherent cont c H act) (committees_from c H L s slot e seed cis xs)
    (\<lambda>ys. ys = map (\<lambda>ci. committee_of c H s e seed slot k (unat ci)) cis)"
  using assms(4,5)
proof (induction cis arbitrary: xs)
  case Nil
  then show ?case by (simp add: yields_returnS)
next
  case (Cons ci cis)
  have ci: "unat ci < unat k" and rest: "\<forall>ci \<in> set cis. unat ci < unat k" using Cons.prems(1) by auto
  let ?com = "committee_of c H s e seed slot k (unat ci)"
  have tl: "yields (coherent cont c H act) (bindS (committees_from c H L s slot e seed cis ys) (\<lambda>cs. returnS (?com # cs)))
      (\<lambda>zs. zs = map (\<lambda>ci. committee_of c H s e seed slot k (unat ci)) (ci # cis))"
    if "ys = [] \<or> ys = active_of s e" for ys
    by (rule yields_bindS [OF Cons.IH [OF rest that]]) (simp add: yields_returnS)
  have act: "yields (coherent cont c H act) (if length xs = 0
      then wrapS ''could not get active indices'' (ActiveValidatorIndices c H L s e) else returnS xs) (\<lambda>ys. ys = active_of s e)"
    using Cons.prems(2) yields_wrapS [OF yields_ActiveValidatorIndices [OF assms(1,2)]]
    by (auto intro: yields_returnS)
  have miss: "yields (coherent cont c H act) (bindS (if length xs = 0
      then wrapS ''could not get active indices'' (ActiveValidatorIndices c H L s e) else returnS xs) (\<lambda>active'.
         bindS (wrapS ''could not compute beacon committee'' (BeaconCommittee c H L active' seed slot ci)) (\<lambda>com.
         bindS (committees_from c H L s slot e seed cis active') (\<lambda>cs. returnS (com # cs)))))
      (\<lambda>zs. zs = map (\<lambda>ci. committee_of c H s e seed slot k (unat ci)) (ci # cis))"
    by (rule yields_bindS [OF act], simp only:)
      (rule yields_bindS [OF yields_wrapS [OF yields_BeaconCommittee [OF assms(1,2) k(1) ci]]], simp only:, rule tl, simp)
  show ?case
    unfolding committees_from.simps
    by (rule yields_bindS [OF yields_wrapS [OF yields_cache_Committee [OF assms(1,2) k(1) ci]]])
      (use miss tl [OF Cons.prems(2)] in auto)
qed

lemma yields_BeaconCommittees:
  assumes "caching c H L cont" "seeded c H act s e seed" and e: "ToEpoch c slot = Inr e"
      and k: "SlotCommitteeCount c (of_nat (length (active_of s e))) = Inr k"
  shows "yields (coherent cont c H act) (BeaconCommittees c H L s slot)
    (\<lambda>ys. ys = map (committee_of c H s e seed slot k) [0..<unat k])"
proof -
  have seed: "Seed c H s e (DomainBeaconAttester c) = Inr seed" using assms(2) by (simp add: seeded_def)
  have u: "unat (of_nat i :: u64) = i" if "i < unat k" for i
    using that unat_u64_lt [of k] by (intro unat_of_nat_u64) linarith
  have eq: "map (\<lambda>ci. committee_of c H s e seed slot k (unat ci)) (map of_nat [0..<unat k] :: u64 list)
      = map (committee_of c H s e seed slot k) [0..<unat k]"
    by (auto simp: u)
  have "\<forall>ci \<in> set (map of_nat [0..<unat k] :: u64 list). unat ci < unat k" by (auto simp: u)
  then have loop: "yields (coherent cont c H act) (committees_from c H L s slot e seed (map of_nat [0..<unat k]) [])
      (\<lambda>ys. ys = map (committee_of c H s e seed slot k) [0..<unat k])"
    using yields_committees_from [OF assms(1,2) k, of "map of_nat [0..<unat k]" "[]" slot] unfolding eq by blast
  show ?thesis
    unfolding BeaconCommittees_def e bindS_liftS seed
    by (rule yields_bindS [OF yields_wrapS [OF yields_cached_count [OF assms(1,2)]]]) (simp only: k bindS_liftS loop)
qed

text \<open>C3: the committee cache is transparent. As long as it holds right entries, and whatever entries the
  LRU map has dropped, \<^verbatim>\<open>BeaconCommittees\<close> and \<^verbatim>\<open>BeaconCommitteeFromState\<close> return the committees of the
  specification's \<^verbatim>\<open>compute_committee\<close>, computed or cached, and leave only right entries.\<close>

theorem committees_cached_as_specified:
  assumes "caching c H L cont" "seeded c H act s e seed" "ToEpoch c slot = Inr e" "coherent cont c H act cs"
  shows "\<exists>k. SlotCommitteeCount c (of_nat (length (active_of s e))) = Inr k \<and>
    (\<exists>cs'. BeaconCommittees c H L s slot cs = (Inr (map (\<lambda>ci. spec_committee c H (active_of s e) seed
         (unat slot mod unat (SlotsPerEpoch c) * unat k + ci) (unat (SlotsPerEpoch c) * unat k)) [0..<unat k]), cs') \<and>
       coherent cont c H act cs') \<and>
    (\<forall>ci. unat ci < unat k \<longrightarrow> (\<exists>cs'. BeaconCommitteeFromState c H L s slot ci cs =
       (Inr (spec_committee c H (active_of s e) seed (unat slot mod unat (SlotsPerEpoch c) * unat k + unat ci)
          (unat (SlotsPerEpoch c) * unat k)), cs') \<and> coherent cont c H act cs'))"
proof -
  obtain k where k: "SlotCommitteeCount c (of_nat (length (active_of s e))) = Inr k"
    using count_ok [OF cachingD(3) [OF assms(1)]] by blast
  then show ?thesis
    using yields_BeaconCommittees [OF assms(1-3) k] yields_BeaconCommitteeFromState [OF assms(1-3) k] assms(4)
    unfolding yields_def committee_of_def committee_no_def by blast
qed

section \<open>The committees of an epoch partition the active set\<close>

lemma concat_upt:
  "(\<And>i. i < n \<Longrightarrow> f i \<le> f (Suc i)) \<Longrightarrow> concat (map (\<lambda>i. map g [f i..<f (Suc i)]) [0..<n]) = map g [f 0..<f n]"
proof (induction n)
  case (Suc n)
  have "f 0 \<le> f m" if "m \<le> n" for m
    using that
  proof (induction m)
    case (Suc m)
    then show ?case using Suc.prems Suc.IH \<open>\<And>i. i < Suc n \<Longrightarrow> f i \<le> f (Suc i)\<close> [of m] by simp
  qed simp
  then have "f 0 \<le> f n" "f n \<le> f (Suc n)" using Suc.prems by auto
  then have "[f 0..<f (Suc n)] = [f 0..<f n] @ [f n..<f (Suc n)]" by (metis le_add_diff_inverse upt_add_eq_append)
  then show ?case using Suc by simp
qed simp

lemma map_upt_blocks:
  "concat (map (\<lambda>r. map (\<lambda>i. f (r * k + i)) [0..<k]) [0..<n]) = map f [0..<n * k]"
proof (induction n)
  case (Suc n)
  have "[0..<Suc n * k] = [0..<n * k] @ [n * k..<n * k + k]"
    using upt_add_eq_append [of 0 "n * k" k] by (simp add: add.commute)
  moreover have "map f [n * k..<n * k + k] = map (\<lambda>i. f (n * k + i)) [0..<k]"
    by (simp add: map_add_upt [symmetric] comp_def add.commute)
  ultimately show ?case using Suc by simp
qed simp

lemma spec_committees_partition:
  assumes "hash32 H" "length xs \<le> 2 ^ 40" "(ucast (ShuffleRoundCount c) :: u8) \<noteq> 0" "0 < cnt"
  shows "mset (concat (map (\<lambda>j. spec_committee c H xs seed j cnt) [0..<cnt])) = mset xs"
proof -
  obtain un where un: "mset un = mset xs"
      "\<forall>i < length xs. \<exists>k. ShuffledIndex c H (of_nat i) (of_nat (length xs)) seed = Inr k \<and> un ! i = xs ! unat k"
    using unshuffle_at [OF assms(1-3)] by blast
  let ?g = "\<lambda>i. xs ! unat (projr (ShuffledIndex c H (of_nat i) (of_nat (length xs)) seed))"
  let ?f = "\<lambda>j. length xs * j div cnt"
  have "concat (map (\<lambda>j. map ?g [?f j..<?f (Suc j)]) [0..<cnt]) = map ?g [?f 0..<?f cnt]"
    by (rule concat_upt) (simp add: div_le_mono)
  also have "\<dots> = map ?g [0..<length xs]" using assms(4) by simp
  also have "\<dots> = un"
    using un mset_eq_length [OF un(1)] by (intro nth_equalityI) fastforce+
  finally show ?thesis using un(1) by (simp add: spec_committee_def)
qed

lemma epoch_slots:
  assumes "SlotsPerEpoch c \<noteq> 0" "EpochStart c e = Inr start" "unat start + unat (SlotsPerEpoch c) \<le> 2 ^ 64"
      and r: "r < unat (SlotsPerEpoch c)"
  shows "ToEpoch c (start + of_nat r) = Inr e \<and> unat (start + of_nat r) mod unat (SlotsPerEpoch c) = r"
proof -
  have "unat (of_nat r :: u64) = r" using r unat_u64_lt [of "SlotsPerEpoch c"] by (intro unat_of_nat_u64) linarith
  then have "unat (start + of_nat r) = unat start + r" using assms(3) r unat_add_u64 [of start "of_nat r"] by simp
  then have u: "unat (start + of_nat r) = unat (SlotsPerEpoch c) * unat e + r" using unat_epoch_start [OF assms(2)] by simp
  then have "unat ((start + of_nat r) div SlotsPerEpoch c) = unat e" using r by (simp add: unat_div_u64)
  then show ?thesis using assms(1) u r by (simp add: u64_eqI)
qed

text \<open>C12: the committees that \<^verbatim>\<open>PrecomputeCommittees\<close> returns for the slots of an epoch partition the active
  validators of the epoch: every one of them is in exactly one committee and no other index is in any.\<close>

theorem epoch_committees_partition:
  assumes "caching c H L cont" "seeded c H act s e seed" "coherent cont c H act cs"
      and "EpochStart c e = Inr start" "unat start + unat (SlotsPerEpoch c) \<le> 2 ^ 64"
  shows "\<exists>bySlot cs'. PrecomputeCommittees c H L s start cs = (Inr bySlot, cs') \<and> coherent cont c H act cs' \<and>
    length bySlot = unat (SlotsPerEpoch c) \<and> mset (concat (concat bySlot)) = mset (active_of s e) \<and>
    distinct (concat (concat bySlot))"
proof -
  note cfg = cachingD(3) [OF assms(1)]
  have nz: "SlotsPerEpoch c \<noteq> 0" using cfg by (simp add: committee_config_def)
  obtain k where k: "SlotCommitteeCount c (of_nat (length (active_of s e))) = Inr k" "0 < unat k"
    using count_ok [OF cfg] by blast
  let ?cnt = "unat (SlotsPerEpoch c) * unat k" and ?S = "\<lambda>j. spec_committee c H (active_of s e) seed j (unat (SlotsPerEpoch c) * unat k)"
  let ?by = "map (\<lambda>r. map (\<lambda>i. ?S (r * unat k + i)) [0..<unat k]) [0..<unat (SlotsPerEpoch c)]"
  have "yields (coherent cont c H act) (PrecomputeCommittees c H L s start) (\<lambda>ys. ys = ?by)"
    unfolding PrecomputeCommittees_def
  proof (rule yields_mapS)
    fix r assume "r \<in> set [0..<unat (SlotsPerEpoch c)]"
    then have r: "ToEpoch c (start + of_nat r) = Inr e" "unat (start + of_nat r) mod unat (SlotsPerEpoch c) = r"
      using epoch_slots [OF nz assms(4,5)] by auto
    show "yields (coherent cont c H act) (wrapS ''BeaconCommittees failed at slot'' (BeaconCommittees c H L s (start + of_nat r)))
        (\<lambda>y. y = map (\<lambda>i. ?S (r * unat k + i)) [0..<unat k])"
      using yields_wrapS [OF yields_BeaconCommittees [OF assms(1,2) r(1) k(1)]]
      unfolding committee_of_def [abs_def] committee_no_def r(2) .
  qed
  then obtain cs' where run: "PrecomputeCommittees c H L s start cs = (Inr ?by, cs')" "coherent cont c H act cs'"
    using assms(3) by (auto simp: yields_def)
  have flat: "concat ?by = map ?S [0..<?cnt]" by (rule map_upt_blocks)
  have len: "length (active_of s e) \<le> 2 ^ 40" "(ucast (ShuffleRoundCount c) :: u8) \<noteq> 0" "0 < ?cnt"
    using assms(2) cfg length_active_of [of s e] k(2) nz by (auto simp: seeded_def committee_config_def unat_gt_0)
  have part: "mset (concat (concat ?by)) = mset (active_of s e)"
    unfolding flat by (rule spec_committees_partition [OF cachingD(2) [OF assms(1)] len])
  have "distinct (active_of s e)" using assms(2) by (simp add: distinct_active_of seeded_def)
  then have "distinct (concat (concat ?by))" using part by (metis mset_eq_imp_distinct_iff)
  then show ?thesis using run part by (intro exI [of _ ?by] exI [of _ cs']) simp
qed

section \<open>A registry of two validators\<close>

definition lru_ex :: "(bytes \<Rightarrow> Committees option) lru_ops" where
  "lru_ex = \<lparr>lru_Get = (\<lambda>l k. (l k, l)), lru_Add = (\<lambda>l k v. l(k \<mapsto> v))\<rparr>"

definition state_two :: BeaconState where
  "state_two = state0\<lparr>bs_randaoMixes := replicate 16 (replicate 32 7)\<rparr>"

definition caches_ex :: "(bytes \<Rightarrow> Committees option) Caches" where
  "caches_ex = \<lparr>ca_committee = Map.empty, ca_proposer = \<lparr>pic_indices = Map.empty, pic_rootMap = Map.empty\<rparr>\<rparr>"

lemma caching_ex: "caching mainnetBeaconConfig hash_ex lru_ex (\<lambda>l. l)"
  by (simp add: caching_def lru_laws_def lru_ex_def hash_ex_32 committee_config_mainnet)

lemma coherent_ex: "coherent (\<lambda>l. l) mainnetBeaconConfig hash_ex act caches_ex"
  by (simp add: coherent_def caches_ex_def)

lemma active_ex: "e \<in> {10, 11} \<Longrightarrow> active_of state_two e = [0, 1]"
proof -
  have "[0..<length (bs_validators state_two)] = [0, 1]" by (simp add: state_two_def state0_def upt_rec)
  moreover assume "e \<in> {10, 11}"
  moreover have "(10 :: u64) < max_u64" "(11 :: u64) < max_u64" by (simp_all add: max_u64_def)
  ultimately show ?thesis
    by (auto simp: active_of_def state_two_def state0_def val0_def IsActiveValidatorUsingTrie_def
        checkValidatorActiveStatus_def)
qed

lemma seeded_ex:
  assumes "e \<in> {10, 11}"
  shows "\<exists>seed. seeded mainnetBeaconConfig hash_ex (\<lambda>_. [0, 1]) state_two e seed"
proof -
  have "\<exists>seed. Seed mainnetBeaconConfig hash_ex state_two e (DomainBeaconAttester mainnetBeaconConfig) = Inr seed"
    using assms by (auto simp: Seed_def Let_def RandaoMix_def RandaoMixAtIndex_def mv_At_def state_two_def mainnetBeaconConfig_def)
  moreover have "length (bs_validators state_two) \<le> 2 ^ 40" by (simp add: state_two_def state0_def)
  ultimately show ?thesis using active_ex [OF assms] unfolding seeded_def by auto
qed

theorem committees_cached_as_specified_witness:
  "\<exists>k cs' seed. SlotCommitteeCount mainnetBeaconConfig 2 = Inr k \<and>
     BeaconCommittees mainnetBeaconConfig hash_ex lru_ex state_two 320 caches_ex = (Inr (map (\<lambda>ci.
       spec_committee mainnetBeaconConfig hash_ex [0, 1] seed ci (32 * unat k)) [0..<unat k]), cs')"
proof -
  let ?c = mainnetBeaconConfig
  obtain seed where seed: "seeded ?c hash_ex (\<lambda>_. [0, 1]) state_two 10 seed" using seeded_ex [of 10] by auto
  have e: "ToEpoch ?c 320 = Inr 10" by (simp add: ToEpoch_def mainnetBeaconConfig_def)
  have act: "active_of state_two 10 = [0, 1]" by (simp add: active_ex)
  have n: "unat (SlotsPerEpoch ?c) = 32" "unat (320 :: u64) mod 32 = 0" by (simp_all add: mainnetBeaconConfig_def)
  show ?thesis
    using committees_cached_as_specified [OF caching_ex seed e coherent_ex] unfolding act n by auto
qed

theorem epoch_committees_partition_witness:
  "\<exists>bySlot cs'. PrecomputeCommittees mainnetBeaconConfig hash_ex lru_ex state_two 320 caches_ex = (Inr bySlot, cs') \<and>
     length bySlot = 32 \<and> mset (concat (concat bySlot)) = {#0, 1#}"
proof -
  let ?c = mainnetBeaconConfig
  obtain seed where seed: "seeded ?c hash_ex (\<lambda>_. [0, 1]) state_two 10 seed" using seeded_ex [of 10] by auto
  have e: "EpochStart ?c 10 = Inr 320" by code_simp
  have act: "mset (active_of state_two 10) = {#0, 1#}" by (simp add: active_ex)
  have n: "unat (SlotsPerEpoch ?c) = 32" by (simp add: mainnetBeaconConfig_def)
  have "unat (320 :: u64) + unat (SlotsPerEpoch ?c) \<le> 2 ^ 64" by (simp add: n)
  then show ?thesis
    using epoch_committees_partition [OF caching_ex seed coherent_ex e] unfolding act n by auto
qed

end
