(* ===== verification/Sampling.thy ===== *)
theory Sampling
  imports Committees
begin

text \<open>The weighted draws of a proposer and of a sync committee: the loops of Committees that keep
  drawing until a candidate is accepted end, because every position of the active list is drawn
  within one pass and a validator of maximal effective balance is always accepted.\<close>

section \<open>Sampling by effective balance ends\<close>

definition max_balance :: "BeaconChainConfig \<Rightarrow> BeaconState \<Rightarrow> u64" where
  "max_balance c s = (if bs_version s \<ge> Electra then MaxEffectiveBalanceElectra c else MaxEffectiveBalance c)"

lemma unat_u8_lt: "unat (x :: u8) < 256"
  using unsigned_less [of x] by simp

lemma u16_pair: "unat (ucast lo OR push_bit 8 (ucast hi) :: u64) \<le> 65535" for lo hi :: u8
proof -
  let ?x = "ucast lo OR push_bit 8 (ucast hi) :: u64"
  have tb: "take_bit 16 ?x = ?x"
  proof (rule bit_eqI)
    fix n
    show "bit (take_bit 16 ?x) n \<longleftrightarrow> bit ?x n"
      using bit_imp_le_length [of lo n] bit_imp_le_length [of hi "n - 8"]
      by (auto simp: bit_take_bit_iff bit_or_iff bit_push_bit_iff bit_ucast_iff)
  qed
  have "unat ?x = take_bit 16 (unat ?x)" using unsigned_take_bit_eq [of 16 ?x] unfolding tb .
  also have "\<dots> < 2 ^ 16" by (rule take_bit_nat_less_exp)
  finally show ?thesis by simp
qed

lemma accept_nat:
  fixes bal M r top :: u64
  assumes "unat M \<le> unat bal" "unat r \<le> unat top" "unat bal * unat top < 2 ^ 64"
  shows "M * r \<le> bal * top"
proof -
  have le: "unat M * unat r \<le> unat bal * unat top" using assms(1,2) by (rule mult_le_mono)
  then have "unat M * unat r < 2 ^ 64" using assms(3) by linarith
  then have "unat (M * r) = unat M * unat r" "unat (bal * top) = unat bal * unat top"
    using assms(3) by (auto intro: unat_mult_u64)
  then show ?thesis using le by (simp add: word_le_nat_alt)
qed

lemma accepted_if: "(P \<Longrightarrow> Q \<Longrightarrow> b) \<Longrightarrow> \<exists>ok. Inr b = Inr ok \<and> (P \<and> Q \<longrightarrow> ok)"
  by simp

lemma sample_accepts_max:
  assumes "hash32 H"
  shows "\<exists>ok. sample_accepts c H s seed i bal = Inr ok \<and>
    (max_balance c s \<le> bal \<and> unat bal * 65535 < 2 ^ 64 \<longrightarrow> ok)"
proof (cases "bs_version s \<ge> Electra")
  case True
  have "unat ((i mod 16) * 2) \<le> 30"
  proof -
    have "unat (i mod 16) < 16" by (simp add: unat_mod_u64)
    then show ?thesis using unat_mult_u64 [of "i mod 16" 2] by simp
  qed
  then have idx: "idx (H x) (unat ((i mod 16) * 2)) = Inr (H x ! unat ((i mod 16) * 2))"
    "idx (H x) (unat ((i mod 16) * 2) + 1) = Inr (H x ! (unat ((i mod 16) * 2) + 1))" for x
    using hash32D [OF assms, of x] by simp_all
  have top: "unat MaxRandomValueElectra = 65535" by (simp add: MaxRandomValueElectra_def)
  have "max_balance c s = MaxEffectiveBalanceElectra c" using True by (simp add: max_balance_def)
  moreover have "MaxEffectiveBalanceElectra c * (ucast lo OR push_bit 8 (ucast hi)) \<le> bal * MaxRandomValueElectra"
    if "MaxEffectiveBalanceElectra c \<le> bal" "unat bal * 65535 < 2 ^ 64" for lo hi :: u8
    using that u16_pair by (intro accept_nat) (simp_all only: top word_le_nat_alt)
  ultimately show ?thesis using True by (simp only: sample_accepts_def idx Let_def bindR_Inr if_True) (rule accepted_if, simp only:)
next
  case False
  have "unat (i mod 32) < 32" by (simp add: unat_mod_u64)
  then have idx: "idx (H x) (unat (i mod 32)) = Inr (H x ! unat (i mod 32))" for x
    using hash32D [OF assms, of x] by simp
  have top: "unat MaxRandomByte = 255" by (simp add: MaxRandomByte_def)
  have byte: "unat (ucast b :: u64) \<le> 255" for b :: u8
    using unat_u8_lt [of b] by (simp add: unsigned_ucast_eq take_bit_nat_eq_self)
  have "max_balance c s = MaxEffectiveBalance c" using False by (simp add: max_balance_def)
  moreover have "MaxEffectiveBalance c * ucast b \<le> bal * MaxRandomByte"
    if "MaxEffectiveBalance c \<le> bal" "unat bal * 65535 < 2 ^ 64" for b :: u8
  proof (rule accept_nat)
    show "unat (MaxEffectiveBalance c) \<le> unat bal" using that(1) by (simp only: word_le_nat_alt)
    show "unat (ucast b :: u64) \<le> unat MaxRandomByte" unfolding top by (rule byte)
    show "unat bal * unat MaxRandomByte < 2 ^ 64" using that(2) unfolding top by linarith
  qed
  ultimately show ?thesis using False by (simp only: sample_accepts_def idx Let_def bindR_Inr if_False) (rule accepted_if, simp only:)
qed

lemma proposer_loop_returns:
  assumes "\<And>m. i \<le> m \<Longrightarrow> m \<le> j \<Longrightarrow> \<exists>x ok. draw (of_nat m) = Inr (x, ok) \<and> Q x"
      and "i \<le> j" "draw (of_nat j) = Inr (y, True)"
  shows "\<exists>x. proposer_loop draw (of_nat i) = Some (Inr x) \<and> Q x"
  using assms(2,1)
proof (induction rule: inc_induct)
  case base
  then show ?case using assms(3) by (fastforce simp: proposer_loop.simps [of draw "of_nat j"])
next
  case (step n)
  obtain x ok where "draw (of_nat n) = Inr (x, ok)" "Q x" using step.prems [of n] step.hyps by auto
  moreover have "(of_nat n + 1 :: u64) = of_nat (Suc n)" by (simp add: add.commute)
  ultimately show ?case
    using step.IH step.prems by (cases ok) (auto simp: proposer_loop.simps [of draw "of_nat n"] add.commute)
qed

text \<open>Draw number \<open>m\<close> succeeds, and among any \<open>n\<close> consecutive draws every position of the list occurs.\<close>

lemma candidate_ok:
  assumes "hash32 H" "ShuffleRoundCount c \<noteq> 0" and n: "0 < length xs" "length xs \<le> 2 ^ 40"
      and vals: "\<And>x. x \<in> set xs \<Longrightarrow> unat x < length (bs_validators s)" and m: "m < 2 ^ 64"
  shows "\<exists>x ok. proposer_candidate c H s xs seed (of_nat m) = Inr (x, ok) \<and>
    sync_candidate c H s xs seed (of_nat m) = Inr (x, ok) \<and> x \<in> set xs \<and>
    (\<exists>k. ShuffledIndex c H (of_nat (m mod length xs)) (of_nat (length xs)) seed = Inr k \<and> x = xs ! unat k) \<and>
    (max_balance c s \<le> EffectiveBalance (bs_validators s ! unat x) \<and>
      unat (EffectiveBalance (bs_validators s ! unat x)) * 65535 < 2 ^ 64 \<longrightarrow> ok)"
proof -
  let ?n = "length xs"
  have u: "unat (of_nat ?n :: u64) = ?n" "unat (of_nat m :: u64) = m" using n(2) m by (simp_all add: unat_of_nat_u64)
  then have mod: "umod (of_nat m) (of_nat ?n) = Inr (of_nat (m mod ?n))"
  proof -
    have "(of_nat m mod of_nat ?n :: u64) = of_nat (m mod ?n)"
      using n m by (intro u64_eqI) (simp add: unat_mod_u64 u unat_of_nat_u64 less_le_trans [of _ ?n])
    moreover have "(of_nat ?n :: u64) \<noteq> 0" using u(1) n(1) by (metis less_irrefl unat_0)
    ultimately show ?thesis by simp
  qed
  have "m mod ?n < ?n" using n(1) by simp
  then have lt: "(of_nat (m mod ?n) :: u64) < of_nat ?n"
    using n(2) by (simp add: word_less_nat_alt u(1) unat_of_nat_u64)
  have "of_nat ?n \<le> maxShuffleListSize" using n(2) by (simp add: maxShuffleListSize_def word_le_nat_alt u(1))
  then obtain k where k: "ShuffledIndex c H (of_nat (m mod ?n)) (of_nat ?n) seed = Inr k" "k < of_nat ?n"
    using shuffled_index_ok [OF assms(1) _ lt] by blast
  then have k': "unat k < ?n" by (simp add: word_less_nat_alt u(1))
  let ?x = "xs ! unat k"
  have x: "?x \<in> set xs" "unat ?x < length (bs_validators s)" using k' vals [of ?x] by simp_all
  then have v: "ValidatorAtIndexReadOnly s ?x = Inr (bs_validators s ! unat ?x)"
    by (simp add: ValidatorAtIndexReadOnly_def mv_At_def)
  obtain ok where ok: "sample_accepts c H s seed (of_nat m) (EffectiveBalance (bs_validators s ! unat ?x)) = Inr ok"
    "max_balance c s \<le> EffectiveBalance (bs_validators s ! unat ?x) \<and>
      unat (EffectiveBalance (bs_validators s ! unat ?x)) * 65535 < 2 ^ 64 \<longrightarrow> ok"
    using sample_accepts_max [OF assms(1)] by blast
  have "proposer_candidate c H s xs seed (of_nat m) = Inr (?x, ok)" "sync_candidate c H s xs seed (of_nat m) = Inr (?x, ok)"
    using k(1) k' x(2) v ok(1) mod
    by (simp_all add: proposer_candidate_def sync_candidate_def Let_def ShuffledIndex_def NumValidators_def)
  then show ?thesis using k(1) x(1) ok(2) by blast
qed

definition sampling_ok :: "BeaconChainConfig \<Rightarrow> (bytes \<Rightarrow> bytes) \<Rightarrow> BeaconState \<Rightarrow> ValidatorIndex list \<Rightarrow> bool" where
  "sampling_ok c H s xs \<longleftrightarrow>
     hash32 H \<and> ShuffleRoundCount c \<noteq> 0 \<and> 0 < length xs \<and> length xs \<le> 2 ^ 40 \<and>
     (\<forall>x \<in> set xs. unat x < length (bs_validators s)) \<and>
     (\<exists>x \<in> set xs. max_balance c s \<le> EffectiveBalance (bs_validators s ! unat x) \<and>
        unat (EffectiveBalance (bs_validators s ! unat x)) * 65535 < 2 ^ 64)"

lemma accepted_residue:
  assumes "sampling_ok c H s xs"
  shows "\<exists>j < length xs. \<forall>m. m mod length xs = j \<and> m < 2 ^ 64 \<longrightarrow>
    (\<exists>x. proposer_candidate c H s xs seed (of_nat m) = Inr (x, True) \<and> sync_candidate c H s xs seed (of_nat m) = Inr (x, True))"
proof -
  let ?n = "length xs"
  have ok: "hash32 H" "ShuffleRoundCount c \<noteq> 0" "0 < ?n" "?n \<le> 2 ^ 40" "\<And>x. x \<in> set xs \<Longrightarrow> unat x < length (bs_validators s)"
    using assms by (auto simp: sampling_ok_def)
  obtain p where p: "p < ?n" and big: "max_balance c s \<le> EffectiveBalance (bs_validators s ! unat (xs ! p))"
      "unat (EffectiveBalance (bs_validators s ! unat (xs ! p))) * 65535 < 2 ^ 64"
    using assms by (auto simp: sampling_ok_def in_set_conv_nth)
  have u: "unat (of_nat i :: u64) = i" if "i \<le> ?n" for i using that ok(4) by (intro unat_of_nat_u64) simp
  have lt: "(of_nat p :: u64) < of_nat ?n" using p by (simp add: word_less_nat_alt u)
  have "of_nat ?n \<le> maxShuffleListSize" using ok(4) by (simp add: maxShuffleListSize_def word_le_nat_alt u)
  then obtain j where j: "j < of_nat ?n" "ShuffledIndex c H j (of_nat ?n) seed = Inr (of_nat p)"
    using shuffled_index_inverse [OF ok(1) _ lt, of c seed] by blast
  have j': "unat j < ?n" "of_nat (unat j) = j" using j(1) by (simp_all add: word_less_nat_alt u)
  have "\<exists>x. proposer_candidate c H s xs seed (of_nat m) = Inr (x, True) \<and> sync_candidate c H s xs seed (of_nat m) = Inr (x, True)"
    if "m mod ?n = unat j" "m < 2 ^ 64" for m
    using candidate_ok [OF ok that(2), of seed] j(2) big p u [of p] unfolding that(1) j'(2) by auto
  then show ?thesis using j'(1) by blast
qed

lemma residue_hit: "j < n \<Longrightarrow> \<exists>m. i \<le> m \<and> m < i + n \<and> m mod n = j" for i j n :: nat
proof -
  assume j: "j < n"
  let ?d = "(j + n - i mod n) mod n"
  have "(i + ?d) mod n = (i mod n + (j + n - i mod n)) mod n" by (simp add: mod_simps)
  also have "i mod n + (j + n - i mod n) = j + n" using j by (simp add: less_imp_le mod_less_divisor le_add_diff_inverse trans_le_add2)
  finally have "(i + ?d) mod n = j" using j by simp
  moreover have "?d < n" using j by simp
  ultimately show ?thesis by (intro exI [of _ "i + ?d"]) simp
qed

lemma sync_loop_step:
  assumes "\<And>m. i \<le> m \<Longrightarrow> m \<le> j \<Longrightarrow> \<exists>x ok. draw (of_nat m) = Inr (x, ok) \<and> Q x"
      and "i \<le> j" "draw (of_nat j) = Inr (y, True)" "length acc < sz"
  shows "\<exists>x i'. sync_loop draw sz (of_nat i) acc = sync_loop draw sz (of_nat i') (acc @ [x]) \<and> Q x \<and> i < i' \<and> i' \<le> Suc j"
  using assms(2,1)
proof (induction rule: inc_induct)
  case base
  have "Q y" using base [of j] assms(3) by auto
  then show ?case
    using assms(3,4) by (intro exI [of _ y] exI [of _ "Suc j"]) (simp add: sync_loop.simps [of draw sz "of_nat j"] add.commute)
next
  case (step n)
  obtain x ok where x: "draw (of_nat n) = Inr (x, ok)" "Q x" using step.prems [of n] step.hyps by auto
  have next': "(of_nat n + 1 :: u64) = of_nat (Suc n)" by (simp add: add.commute)
  show ?case
  proof (cases ok)
    case True
    then show ?thesis
      using x assms(4) step.hyps next'
      by (intro exI [of _ x] exI [of _ "Suc n"]) (simp add: sync_loop.simps [of draw sz "of_nat n"] add.commute)
  next
    case False
    then have "sync_loop draw sz (of_nat n) acc = sync_loop draw sz (of_nat (Suc n)) acc"
      using x assms(4) next' by (simp add: sync_loop.simps [of draw sz "of_nat n"] add.commute)
    moreover obtain x i' where "sync_loop draw sz (of_nat (Suc n)) acc = sync_loop draw sz (of_nat i') (acc @ [x])" "Q x" "Suc n < i'" "i' \<le> Suc j"
      using step.IH step.prems by (meson Suc_leD)
    ultimately show ?thesis by (intro exI [of _ x] exI [of _ i']) simp
  qed
qed

lemma sync_loop_complete:
  assumes total: "\<And>m. m < 2 ^ 64 \<Longrightarrow> \<exists>x ok. draw (of_nat m) = Inr (x, ok) \<and> Q x"
      and hit: "\<And>i. \<exists>m. i \<le> m \<and> m < i + n \<and> (m < 2 ^ 64 \<longrightarrow> (\<exists>y. draw (of_nat m) = Inr (y, True)))"
      and "i + (sz - length acc) * n \<le> 2 ^ 64" "length acc \<le> sz" "\<forall>x \<in> set acc. Q x"
  shows "\<exists>xs. sync_loop draw sz (of_nat i) acc = Some (Inr xs) \<and> length xs = sz \<and> (\<forall>x \<in> set xs. Q x)"
  using assms(3-)
proof (induction "sz - length acc" arbitrary: i acc)
  case 0
  then show ?case by (intro exI [of _ acc]) (simp add: sync_loop.simps [of draw _ "of_nat i" acc])
next
  case (Suc d)
  obtain m where m: "i \<le> m" "m < i + n" "m < 2 ^ 64 \<longrightarrow> (\<exists>y. draw (of_nat m) = Inr (y, True))" using hit by blast
  have room: "i + n + d * n \<le> 2 ^ 64" using Suc.prems(1) Suc.hyps(2) [symmetric] by (simp add: algebra_simps)
  then have m64: "m < 2 ^ 64" using m(2) by linarith
  then obtain y where y: "draw (of_nat m) = Inr (y, True)" using m(3) by blast
  have "length acc < sz" using Suc.hyps(2) by linarith
  then obtain x i' where step: "sync_loop draw sz (of_nat i) acc = sync_loop draw sz (of_nat i') (acc @ [x])" "Q x" "i' \<le> Suc m"
    using sync_loop_step [where draw = draw and j = m and Q = Q, OF total m(1) y] m64 by (meson le_less_trans)
  have "sz - length (acc @ [x]) = d" using Suc.hyps(2) by simp
  then have "i' + (sz - length (acc @ [x])) * n \<le> 2 ^ 64" using step(3) m(2) room by simp
  then show ?case
    using Suc.hyps(1) [of "acc @ [x]" i'] Suc.hyps(2) Suc.prems(2,3) step by fastforce
qed

lemma sampling_draws:
  assumes "sampling_ok c H s xs" "m < 2 ^ 64"
  shows "\<exists>x ok. proposer_candidate c H s xs seed (of_nat m) = Inr (x, ok) \<and>
    sync_candidate c H s xs seed (of_nat m) = Inr (x, ok) \<and> x \<in> set xs"
  using candidate_ok [of H c xs s m seed] assms unfolding sampling_ok_def by blast

text \<open>C10: \<^verbatim>\<open>ComputeProposerIndex\<close> returns, and it returns one of the active indices it was given, whatever the
  seed, as soon as some active validator has the maximal effective balance: the loop over the draws has no
  bound in the code, and every validator is drawn within one pass over the list.\<close>

theorem proposer_index_returns:
  assumes "sampling_ok c H s xs"
  shows "\<exists>x \<in> set xs. ComputeProposerIndex c H s xs seed = Some (Inr x)"
proof -
  obtain j where j: "j < length xs" "\<And>m. m mod length xs = j \<Longrightarrow> m < 2 ^ 64 \<Longrightarrow>
      \<exists>x. proposer_candidate c H s xs seed (of_nat m) = Inr (x, True)"
    using accepted_residue [OF assms, of seed] by blast
  have n: "length xs \<le> 2 ^ 40" "0 < length xs" using assms by (simp_all add: sampling_ok_def)
  then have "j < 2 ^ 64" using j(1) by simp
  then obtain y where y: "proposer_candidate c H s xs seed (of_nat j) = Inr (y, True)" using j(2) [of j] j(1) by auto
  have "\<exists>x. proposer_loop (proposer_candidate c H s xs seed) (of_nat 0) = Some (Inr x) \<and> x \<in> set xs"
    using sampling_draws [OF assms le_less_trans [OF _ \<open>j < 2 ^ 64\<close>]] by (intro proposer_loop_returns [where draw = "proposer_candidate c H s xs seed" and i = 0, OF _ _ y]) blast+
  then show ?thesis using n(2) by (auto simp: ComputeProposerIndex_def)
qed

lemma active_of_in_registry: "length (bs_validators s) \<le> 2 ^ 40 \<Longrightarrow> x \<in> set (active_of s e) \<Longrightarrow> unat x < length (bs_validators s)"
  by (auto simp: active_of_def unat_of_nat_u64)

lemma Seed_other_domain:
  "Seed c H s e d = Inr seed \<Longrightarrow> \<exists>seed'. Seed c H s e d' = Inr seed'"
  by (auto simp: Seed_def Let_def bindR_eq_Inr)

text \<open>C14: \<^verbatim>\<open>NextSyncCommitteeIndices\<close> returns a committee of exactly \<^verbatim>\<open>SyncCommitteeSize\<close> members, each of them
  active in the next epoch, and keeps the caches coherent, as soon as some of these validators has the maximal
  effective balance and the size times the number of these validators is at most \<open>2 ^ 64\<close>.\<close>

theorem sync_committee_complete:
  assumes "caching c H L cont" "seeded c H act s e seed" "coherent cont c H act cs" "NextEpoch c s = Inr e"
      and ok: "sampling_ok c H s (active_of s e)" and "unat (SyncCommitteeSize c) * length (active_of s e) \<le> 2 ^ 64"
  shows "\<exists>xs cs'. NextSyncCommitteeIndices c H L s cs = Some (Inr xs, cs') \<and> coherent cont c H act cs' \<and>
    length xs = unat (SyncCommitteeSize c) \<and> set xs \<subseteq> set (active_of s e)"
proof -
  let ?xs = "active_of s e"
  obtain seed' where seed': "Seed c H s e (DomainSyncCommittee c) = Inr seed'"
    using assms(2) Seed_other_domain unfolding seeded_def by blast
  obtain cs' where cs': "ActiveValidatorIndices c H L s e cs = (Inr ?xs, cs')" "coherent cont c H act cs'"
    using yields_ActiveValidatorIndices [OF assms(1,2)] assms(3) unfolding yields_def by blast
  obtain j where j: "j < length ?xs" "\<And>m. m mod length ?xs = j \<Longrightarrow> m < 2 ^ 64 \<Longrightarrow>
      \<exists>x. sync_candidate c H s ?xs seed' (of_nat m) = Inr (x, True)"
    using accepted_residue [OF ok, of seed'] by blast
  have "\<exists>m. i \<le> m \<and> m < i + length ?xs \<and> (m < 2 ^ 64 \<longrightarrow> (\<exists>y. sync_candidate c H s ?xs seed' (of_nat m) = Inr (y, True)))" for i
    using residue_hit [OF j(1), of i] j(2) by blast
  moreover have "\<exists>x ok. sync_candidate c H s ?xs seed' (of_nat m) = Inr (x, ok) \<and> x \<in> set ?xs" if "m < 2 ^ 64" for m
    using sampling_draws [OF ok that, of seed'] by blast
  ultimately have "\<exists>xs. sync_loop (sync_candidate c H s ?xs seed') (unat (SyncCommitteeSize c)) (of_nat 0) [] = Some (Inr xs) \<and>
      length xs = unat (SyncCommitteeSize c) \<and> (\<forall>x \<in> set xs. x \<in> set ?xs)"
    using assms(6) by (intro sync_loop_complete [where n = "length ?xs"]) simp_all
  then show ?thesis
    using cs' by (auto simp: NextSyncCommitteeIndices_def bindSO_def stateSO_def liftS_def optSO_def assms(4) seed')
qed

section \<open>The registry of two validators\<close>

lemma sampling_ex: "sampling_ok mainnetBeaconConfig hash_ex state_two [0, 1]"
  by (simp add: sampling_ok_def hash_ex_32 max_balance_def state_two_def state0_def val0_def mainnetBeaconConfig_def)

theorem proposer_index_returns_witness:
  "\<exists>x \<in> set [0, 1]. ComputeProposerIndex mainnetBeaconConfig hash_ex state_two [0, 1] (replicate 32 5) = Some (Inr x)"
  by (rule proposer_index_returns [OF sampling_ex])

theorem sync_committee_complete_witness:
  "\<exists>xs cs'. NextSyncCommitteeIndices mainnetBeaconConfig hash_ex lru_ex state_two caches_ex = Some (Inr xs, cs') \<and>
     length xs = 512 \<and> set xs \<subseteq> {0, 1}"
proof -
  let ?c = mainnetBeaconConfig
  have e: "NextEpoch ?c state_two = Inr 11"
    by (simp add: NextEpoch_def ToEpoch_def state_two_def state0_def mainnetBeaconConfig_def)
  obtain seed where seed: "seeded ?c hash_ex (\<lambda>_. [0, 1]) state_two 11 seed" using seeded_ex [of 11] by auto
  have act: "active_of state_two 11 = [0, 1]" by (simp add: active_ex)
  have sz: "unat (SyncCommitteeSize ?c) = 512" by (simp add: mainnetBeaconConfig_def)
  show ?thesis
    using sync_committee_complete [OF caching_ex seed coherent_ex e] sampling_ex unfolding act sz by auto
qed

end
