(* ===== verification/Altair_Epoch.thy ===== *)
theory Altair_Epoch
  imports Justification Sampling
begin

text \<open>
  The epoch transition from Altair on: \<^verbatim>\<open>src/beacon-chain/core/altair\<close> with
  \<^verbatim>\<open>epoch_precompute.go\<close>, \<^verbatim>\<open>epoch_spec.go\<close>, \<^verbatim>\<open>reward.go\<close>, \<^verbatim>\<open>transition.go\<close> and the participation flags of
  \<^verbatim>\<open>attestation.go\<close>. Validator records are shared by pointer in the code; here every operation that writes
  to them returns them. The aggregation of public keys of \<^verbatim>\<open>bls\<close> is an argument.
\<close>

unbundle bit_operations_syntax

section \<open>Participation flags\<close>

definition HasValidatorFlag :: "u8 \<Rightarrow> u8 \<Rightarrow> bool result" where
  "HasValidatorFlag flag flagPosition =
     (if flagPosition > 7 then Inl (Err ''flag position exceeds length'')
      else Inr (drop_bit (unat flagPosition) flag AND 1 = 1))"

definition AddValidatorFlag :: "u8 \<Rightarrow> u8 \<Rightarrow> u8 result" where
  "AddValidatorFlag flag flagPosition =
     (if flagPosition > 7 then Inl (Err ''flag position exceeds length'')
      else Inr (flag OR push_bit (unat flagPosition) 1))"

section \<open>Rewards\<close>

definition BaseRewardPerIncrement :: "BeaconChainConfig \<Rightarrow> sqrt_cache \<Rightarrow> u64 \<Rightarrow> (u64 \<times> sqrt_cache) result" where
  "BaseRewardPerIncrement c cache activeBalance =
     (if activeBalance = 0 then Inl (Err ''active balance cannot be 0'')
      else bindR (CachedSquareRoot activeBalance cache) (\<lambda>(root, cache').
           bindR (udiv (EffectiveBalanceIncrement c * BaseRewardFactor c) root) (\<lambda>r. Inr (r, cache'))))"

definition BaseRewardWithTotalBalance ::
    "BeaconChainConfig \<Rightarrow> sqrt_cache \<Rightarrow> BeaconState \<Rightarrow> ValidatorIndex \<Rightarrow> u64 \<Rightarrow> (u64 \<times> sqrt_cache) result" where
  "BaseRewardWithTotalBalance c cache s index totalBalance =
     bindR (ValidatorAtIndexReadOnly s index) (\<lambda>val.
     bindR (udiv (EffectiveBalance val) (EffectiveBalanceIncrement c)) (\<lambda>increments.
     bindR (BaseRewardPerIncrement c cache totalBalance) (\<lambda>(baseRewardPerInc, cache').
     Inr (increments * baseRewardPerInc, cache'))))"

text \<open>The total active balance comes from a cache keyed by the state, which is transparent.\<close>

definition BaseReward ::
    "BeaconChainConfig \<Rightarrow> sqrt_cache \<Rightarrow> BeaconState \<Rightarrow> ValidatorIndex \<Rightarrow> (u64 \<times> sqrt_cache) result" where
  "BaseReward c cache s index =
     bindR (wrapR ''could not calculate active balance'' (computeTotalActiveBalance c s)) (\<lambda>totalBalance.
     BaseRewardWithTotalBalance c cache s index totalBalance)"

section \<open>Precomputation\<close>

record AttDelta =
  dl_HeadReward :: u64
  dl_SourceReward :: u64
  dl_SourcePenalty :: u64
  dl_TargetReward :: u64
  dl_TargetPenalty :: u64
  dl_InactivityPenalty :: u64

definition zero_AttDelta :: AttDelta where
  "zero_AttDelta = \<lparr>dl_HeadReward = 0, dl_SourceReward = 0, dl_SourcePenalty = 0, dl_TargetReward = 0,
     dl_TargetPenalty = 0, dl_InactivityPenalty = 0\<rparr>"

text \<open>The visit of one validator in \<^verbatim>\<open>InitializePrecomputeValidators\<close>.\<close>

definition initialize_visit ::
    "Epoch \<Rightarrow> Epoch \<Rightarrow> u64 list \<Rightarrow> nat \<Rightarrow> Validator \<Rightarrow> PValidator list \<times> PBalance \<Rightarrow> (PValidator list \<times> PBalance) result" where
  "initialize_visit currentEpoch prevEpoch scores i val = (\<lambda>(vals, bal).
     bindR (idx scores i) (\<lambda>score.
     let v = zero_PValidator\<lparr>pv_CurrentEpochEffectiveBalance := EffectiveBalance val, pv_InactivityScore := score,
               pv_IsSlashed := Slashed val, pv_IsWithdrawableCurrentEpoch := currentEpoch \<ge> WithdrawableEpoch val\<rparr> in
     bindR (if IsActiveValidatorUsingTrie val currentEpoch
            then bindR (Add64 (pb_ActiveCurrentEpoch bal) (EffectiveBalance val)) (\<lambda>x.
                 Inr (v\<lparr>pv_IsActiveCurrentEpoch := True\<rparr>, bal\<lparr>pb_ActiveCurrentEpoch := x\<rparr>))
            else Inr (v, bal)) (\<lambda>(v, bal).
     bindR (if IsActiveValidatorUsingTrie val prevEpoch
            then bindR (Add64 (pb_ActivePrevEpoch bal) (EffectiveBalance val)) (\<lambda>x.
                 Inr (v\<lparr>pv_IsActivePrevEpoch := True\<rparr>, bal\<lparr>pb_ActivePrevEpoch := x\<rparr>))
            else Inr (v, bal)) (\<lambda>(v, bal).
     Inr (vals @ [v], bal)))))"

definition InitializePrecomputeValidators ::
    "BeaconChainConfig \<Rightarrow> BeaconState \<Rightarrow> (PValidator list \<times> PBalance) result" where
  "InitializePrecomputeValidators c s =
     bindR (PrevEpoch c s) (\<lambda>prevEpoch.
     bindR (CurrentEpoch c s) (\<lambda>currentEpoch.
     bindR (InactivityScores s) (\<lambda>inactivityScores.
     if NumValidators s \<noteq> length inactivityScores
     then Inl (Err ''num of validators is different than num of inactivity scores'')
     else wrapR ''could not read every validator''
            (ReadFromEveryValidator s (initialize_visit currentEpoch prevEpoch inactivityScores) ([], zero_PBalance)))))"

text \<open>The new score of one validator, and the loop of \<^verbatim>\<open>ProcessInactivityScores\<close>.\<close>

definition inactivity_score :: "BeaconChainConfig \<Rightarrow> bool \<Rightarrow> PValidator \<Rightarrow> u64 result" where
  "inactivity_score c leak v =
     bindR (if pv_IsPrevEpochTargetAttester v \<and> \<not> pv_IsSlashed v
            then Inr (if pv_InactivityScore v > 0 then pv_InactivityScore v - 1 else pv_InactivityScore v)
            else Add64 (pv_InactivityScore v) (InactivityScoreBias c)) (\<lambda>score.
     Inr (if \<not> leak then score - min (InactivityScoreRecoveryRate c) score else score))"

definition inactivity_step ::
    "BeaconChainConfig \<Rightarrow> bool \<Rightarrow> nat \<times> PValidator \<Rightarrow> u64 list \<times> PValidator list \<Rightarrow> (u64 list \<times> PValidator list) result" where
  "inactivity_step c leak = (\<lambda>(i, v) (scores, vals).
     if \<not> EligibleForRewards v then Inr (scores, vals @ [v])
     else bindR (inactivity_score c leak v) (\<lambda>score.
          bindR (idx scores i) (\<lambda>_.
          Inr (scores[i := score], vals @ [v\<lparr>pv_InactivityScore := score\<rparr>]))))"

definition ProcessInactivityScores ::
    "BeaconChainConfig \<Rightarrow> BeaconState \<Rightarrow> PValidator list \<Rightarrow> (BeaconState \<times> PValidator list) result" where
  "ProcessInactivityScores c s vals =
     bindR (CurrentEpoch c s) (\<lambda>currentEpoch.
     if currentEpoch = GenesisEpoch c then Inr (s, vals)
     else bindR (InactivityScores s) (\<lambda>inactivityScores.
          bindR (PrevEpoch c s) (\<lambda>prevEpoch.
          bindR (foldR (inactivity_step c (IsInInactivityLeak c prevEpoch (FinalizedCheckpointEpoch s)))
                   (enumerate 0 vals) (inactivityScores, [])) (\<lambda>(scores, vals').
          bindR (SetInactivityScores scores s) (\<lambda>s'. Inr (s', vals'))))))"

text \<open>\<open>mark has active f i vals\<close>: \<^verbatim>\<open>if has && vals[i].active\<close> then the record is changed by \<open>f\<close>.\<close>

definition mark ::
    "bool \<Rightarrow> (PValidator \<Rightarrow> bool) \<Rightarrow> (PValidator \<Rightarrow> PValidator) \<Rightarrow> nat \<Rightarrow> PValidator list \<Rightarrow> PValidator list result" where
  "mark has active f i vals =
     (if has then bindR (idx vals i) (\<lambda>v. Inr (if active v then vals[i := f v] else vals)) else Inr vals)"

definition current_flags :: "BeaconChainConfig \<Rightarrow> nat \<times> u8 \<Rightarrow> PValidator list \<Rightarrow> PValidator list result" where
  "current_flags c = (\<lambda>(i, b) vals.
     bindR (HasValidatorFlag b (TimelySourceFlagIndex c)) (\<lambda>has.
     bindR (mark has pv_IsActiveCurrentEpoch (\<lambda>v. v\<lparr>pv_IsCurrentEpochAttester := True\<rparr>) i vals) (\<lambda>vals.
     bindR (HasValidatorFlag b (TimelyTargetFlagIndex c)) (\<lambda>has.
     mark has pv_IsActiveCurrentEpoch
       (\<lambda>v. v\<lparr>pv_IsCurrentEpochAttester := True, pv_IsCurrentEpochTargetAttester := True\<rparr>) i vals))))"

definition previous_flags :: "BeaconChainConfig \<Rightarrow> nat \<times> u8 \<Rightarrow> PValidator list \<Rightarrow> PValidator list result" where
  "previous_flags c = (\<lambda>(i, b) vals.
     bindR (HasValidatorFlag b (TimelySourceFlagIndex c)) (\<lambda>has.
     bindR (mark has pv_IsActivePrevEpoch
       (\<lambda>v. v\<lparr>pv_IsPrevEpochAttester := True, pv_IsPrevEpochSourceAttester := True\<rparr>) i vals) (\<lambda>vals.
     bindR (HasValidatorFlag b (TimelyTargetFlagIndex c)) (\<lambda>has.
     bindR (mark has pv_IsActivePrevEpoch
       (\<lambda>v. v\<lparr>pv_IsPrevEpochAttester := True, pv_IsPrevEpochTargetAttester := True\<rparr>) i vals) (\<lambda>vals.
     bindR (HasValidatorFlag b (TimelyHeadFlagIndex c)) (\<lambda>has.
     mark has pv_IsActivePrevEpoch (\<lambda>v. v\<lparr>pv_IsPrevEpochHeadAttester := True\<rparr>) i vals))))))"

definition ProcessEpochParticipation ::
    "BeaconChainConfig \<Rightarrow> BeaconState \<Rightarrow> PBalance \<Rightarrow> PValidator list \<Rightarrow> (PValidator list \<times> PBalance) result" where
  "ProcessEpochParticipation c s bal vals =
     bindR (CurrentEpochParticipation s) (\<lambda>cp.
     bindR (foldR (current_flags c) (enumerate 0 cp) vals) (\<lambda>vals.
     bindR (PreviousEpochParticipation s) (\<lambda>pp.
     bindR (foldR (previous_flags c) (enumerate 0 pp) vals) (\<lambda>vals.
     Inr (vals, UpdateBalance c vals bal (bs_version s))))))"

section \<open>Rewards and penalties\<close>

text \<open>The reward for one kind of vote: its share of the participation, and nothing in a leak.\<close>

definition vote_reward :: "BeaconChainConfig \<Rightarrow> bool \<Rightarrow> u64 \<Rightarrow> u64 \<Rightarrow> u64 \<Rightarrow> u64 \<Rightarrow> u64 result" where
  "vote_reward c leak baseReward weight attested activeIncrement =
     (if leak then Inr 0
      else bindR (udiv attested (EffectiveBalanceIncrement c)) (\<lambda>attestedIncrement.
           udiv (baseReward * weight * attestedIncrement) (activeIncrement * WeightDenominator c)))"

definition attestationDelta ::
    "BeaconChainConfig \<Rightarrow> PBalance \<Rightarrow> PValidator \<Rightarrow> u64 \<Rightarrow> u64 \<Rightarrow> bool \<Rightarrow> AttDelta result" where
  "attestationDelta c bal val baseRewardMultiplier inactivityDenominator leak =
     (if \<not> EligibleForRewards val \<or> pb_ActiveCurrentEpoch bal = 0 then Inr zero_AttDelta
      else let increment = EffectiveBalanceIncrement c; ok = \<not> pv_IsSlashed val in
      bindR (udiv (pv_CurrentEpochEffectiveBalance val) increment) (\<lambda>q.
      let baseReward = q * baseRewardMultiplier in
      bindR (udiv (pb_ActiveCurrentEpoch bal) increment) (\<lambda>activeIncrement.
      bindR (if pv_IsPrevEpochSourceAttester val \<and> ok
             then bindR (vote_reward c leak baseReward (TimelySourceWeight c) (pb_PrevEpochAttested bal) activeIncrement)
                    (\<lambda>r. Inr (zero_AttDelta\<lparr>dl_SourceReward := r\<rparr>))
             else bindR (udiv (baseReward * TimelySourceWeight c) (WeightDenominator c))
                    (\<lambda>p. Inr (zero_AttDelta\<lparr>dl_SourcePenalty := p\<rparr>))) (\<lambda>d.
      bindR (if pv_IsPrevEpochTargetAttester val \<and> ok
             then bindR (vote_reward c leak baseReward (TimelyTargetWeight c) (pb_PrevEpochTargetAttested bal) activeIncrement)
                    (\<lambda>r. Inr (d\<lparr>dl_TargetReward := r\<rparr>))
             else bindR (udiv (baseReward * TimelyTargetWeight c) (WeightDenominator c))
                    (\<lambda>p. Inr (d\<lparr>dl_TargetPenalty := p\<rparr>))) (\<lambda>d.
      bindR (if pv_IsPrevEpochHeadAttester val \<and> ok
             then bindR (vote_reward c leak baseReward (TimelyHeadWeight c) (pb_PrevEpochHeadAttested bal) activeIncrement)
                    (\<lambda>r. Inr (d\<lparr>dl_HeadReward := r\<rparr>))
             else Inr d) (\<lambda>d.
      if \<not> pv_IsPrevEpochTargetAttester val \<or> pv_IsSlashed val
      then bindR (Mul64 (pv_CurrentEpochEffectiveBalance val) (pv_InactivityScore val)) (\<lambda>n.
           bindR (udiv n inactivityDenominator) (\<lambda>p. Inr (d\<lparr>dl_InactivityPenalty := p\<rparr>)))
      else Inr d))))))"

definition AttestationsDelta ::
    "BeaconChainConfig \<Rightarrow> sqrt_cache \<Rightarrow> BeaconState \<Rightarrow> PBalance \<Rightarrow> PValidator list \<Rightarrow> (AttDelta list \<times> sqrt_cache) result" where
  "AttestationsDelta c cache s bal vals =
     bindR (PrevEpoch c s) (\<lambda>prevEpoch.
     bindR (CachedSquareRoot (pb_ActiveCurrentEpoch bal) cache) (\<lambda>(root, cache').
     bindR (udiv (EffectiveBalanceIncrement c * BaseRewardFactor c) root) (\<lambda>baseRewardMultiplier.
     let leak = IsInInactivityLeak c prevEpoch (FinalizedCheckpointEpoch s) in
     bindR (state_InactivityPenaltyQuotient c s) (\<lambda>inactivityPenaltyQuotient.
     let inactivityDenominator = InactivityScoreBias c * inactivityPenaltyQuotient in
     bindR (mapR (\<lambda>v. attestationDelta c bal v baseRewardMultiplier inactivityDenominator leak) vals) (\<lambda>ds.
     Inr (ds, cache'))))))"

text \<open>One round of the loop of \<^verbatim>\<open>ProcessRewardsAndPenaltiesPrecompute\<close>: the rewards are added before the
  penalties are taken off, and the inactivity penalty is not taken off.\<close>

definition apply_delta :: "AttDelta \<Rightarrow> Gwei \<Rightarrow> Gwei result" where
  "apply_delta d balance =
     bindR (IncreaseBalanceWithVal balance (dl_HeadReward d + dl_SourceReward d + dl_TargetReward d)) (\<lambda>b.
     Inr (DecreaseBalanceWithVal b (dl_SourcePenalty d + dl_TargetPenalty d)))"

definition ProcessRewardsAndPenaltiesPrecompute ::
    "BeaconChainConfig \<Rightarrow> sqrt_cache \<Rightarrow> BeaconState \<Rightarrow> PBalance \<Rightarrow> PValidator list
       \<Rightarrow> (BeaconState \<times> PValidator list \<times> sqrt_cache) result" where
  "ProcessRewardsAndPenaltiesPrecompute c cache s bal vals =
     bindR (CurrentEpoch c s) (\<lambda>currentEpoch.
     if currentEpoch = GenesisEpoch c then Inr (s, vals, cache)
     else if length vals \<noteq> NumValidators s \<or> length vals \<noteq> BalancesLength s
     then Inl (Err ''validator registries not the same length as validator registries of the state'')
     else bindR (wrapR ''could not get attestation delta'' (AttestationsDelta c cache s bal vals)) (\<lambda>(attDeltas, cache').
          bindR (mapR (\<lambda>(d, b). apply_delta d b) (zip attDeltas (bs_balances s))) (\<lambda>balances.
          bindR (wrapR ''could not set validator balances'' (SetBalances balances s)) (\<lambda>s'.
          Inr (s', map (\<lambda>(v, b, b'). v\<lparr>pv_BeforeEpochTransitionBalance := b, pv_AfterEpochTransitionBalance := b'\<rparr>)
                     (zip vals (zip (bs_balances s) balances)), cache')))))"

section \<open>Updates at the end of an epoch\<close>

definition PubkeyAtIndex :: "BeaconState \<Rightarrow> ValidatorIndex \<Rightarrow> bytes" where
  "PubkeyAtIndex s i =
     (case mv_At (bs_validators s) i of Inl _ \<Rightarrow> replicate 48 0 | Inr v \<Rightarrow> ToBytes48 (PublicKey v))"

abbreviation liftSO :: "'a result \<Rightarrow> ('l, 'a) sampled" where
  "liftSO m \<equiv> stateSO (liftS m)"

definition NextSyncCommittee ::
    "BeaconChainConfig \<Rightarrow> (bytes \<Rightarrow> bytes) \<Rightarrow> 'l lru_ops \<Rightarrow> (bytes list \<Rightarrow> bytes result) \<Rightarrow> BeaconState
       \<Rightarrow> ('l, SyncCommittee) sampled" where
  "NextSyncCommittee c H L AggregatePublicKeys s =
     bindSO (NextSyncCommitteeIndices c H L s) (\<lambda>indices.
     let pubkeys = map (PubkeyAtIndex s) indices in
     bindSO (liftSO (AggregatePublicKeys pubkeys)) (\<lambda>aggregated.
     liftSO (Inr \<lparr>sc_Pubkeys = pubkeys, sc_AggregatePubkey = aggregated\<rparr>)))"

definition ProcessSyncCommitteeUpdates ::
    "BeaconChainConfig \<Rightarrow> (bytes \<Rightarrow> bytes) \<Rightarrow> 'l lru_ops \<Rightarrow> (bytes list \<Rightarrow> bytes result) \<Rightarrow> BeaconState
       \<Rightarrow> ('l, BeaconState) sampled" where
  "ProcessSyncCommitteeUpdates c H L AggregatePublicKeys s =
     bindSO (liftSO (NextEpoch c s)) (\<lambda>nextEpoch.
     bindSO (liftSO (umod nextEpoch (EpochsPerSyncCommitteePeriod c))) (\<lambda>r.
     if r = 0
     then bindSO (liftSO (state_NextSyncCommittee s)) (\<lambda>next.
          bindSO (liftSO (SetCurrentSyncCommittee next s)) (\<lambda>s.
          bindSO (NextSyncCommittee c H L AggregatePublicKeys s) (\<lambda>next.
          liftSO (SetNextSyncCommittee next s))))
     else liftSO (Inr s)))"

definition ProcessParticipationFlagUpdates :: "BeaconState \<Rightarrow> BeaconState result" where
  "ProcessParticipationFlagUpdates s =
     bindR (CurrentEpochParticipation s) (\<lambda>c.
     bindR (SetPreviousParticipationBits c s) (\<lambda>s.
     SetCurrentParticipationBits (replicate (NumValidators s) 0) s))"

text \<open>\<^verbatim>\<open>altair.ProcessEpoch\<close> in three parts: the accounting, the other steps that work on the state alone,
  and the sync committees, which also need the caches.\<close>

definition altair_ProcessEpoch_accounting ::
    "BeaconChainConfig \<Rightarrow> bitvector4_ops \<Rightarrow> sqrt_cache \<Rightarrow> BeaconState \<Rightarrow> (BeaconState \<times> sqrt_cache) result" where
  "altair_ProcessEpoch_accounting c B cache s =
     bindR (InitializePrecomputeValidators c s) (\<lambda>(vp, bp).
     bindR (ProcessEpochParticipation c s bp vp) (\<lambda>(vp, bp).
     bindR (wrapR ''could not process justification'' (ProcessJustificationAndFinalizationPreCompute c B bp s)) (\<lambda>s.
     bindR (wrapR ''could not process inactivity updates'' (ProcessInactivityScores c s vp)) (\<lambda>(s, vp).
     bindR (wrapR ''could not process rewards and penalties''
              (ProcessRewardsAndPenaltiesPrecompute c cache s bp vp)) (\<lambda>(s, vp, cache).
     Inr (s, cache))))))"

definition altair_ProcessEpoch_state ::
    "BeaconChainConfig \<Rightarrow> bitvector4_ops \<Rightarrow> (root list \<Rightarrow> root result) \<Rightarrow> (root list \<Rightarrow> root list \<Rightarrow> root result)
       \<Rightarrow> sqrt_cache \<Rightarrow> BeaconState \<Rightarrow> (BeaconState \<times> sqrt_cache) result" where
  "altair_ProcessEpoch_state c B ArraysRoot HistoricalBatchRoot cache s =
     bindR (altair_ProcessEpoch_accounting c B cache s) (\<lambda>(s, cache).
     bindR (wrapR ''could not process registry updates'' (ProcessRegistryUpdates c s)) (\<lambda>s.
     bindR (ProcessSlashings c s) (\<lambda>s.
     bindR (ProcessEth1DataReset c s) (\<lambda>s.
     bindR (ProcessEffectiveBalanceUpdates c s) (\<lambda>s.
     bindR (ProcessSlashingsReset c s) (\<lambda>s.
     bindR (ProcessRandaoMixesReset c s) (\<lambda>s.
     bindR (ProcessHistoricalDataUpdate c ArraysRoot HistoricalBatchRoot s) (\<lambda>s.
     bindR (ProcessParticipationFlagUpdates s) (\<lambda>s. Inr (s, cache))))))))))"

definition altair_ProcessEpoch ::
    "BeaconChainConfig \<Rightarrow> (bytes \<Rightarrow> bytes) \<Rightarrow> bitvector4_ops \<Rightarrow> 'l lru_ops \<Rightarrow> (bytes list \<Rightarrow> bytes result)
       \<Rightarrow> (root list \<Rightarrow> root result) \<Rightarrow> (root list \<Rightarrow> root list \<Rightarrow> root result)
       \<Rightarrow> sqrt_cache \<Rightarrow> BeaconState \<Rightarrow> ('l, BeaconState \<times> sqrt_cache) sampled" where
  "altair_ProcessEpoch c H B L AggregatePublicKeys ArraysRoot HistoricalBatchRoot cache s =
     bindSO (liftSO (altair_ProcessEpoch_state c B ArraysRoot HistoricalBatchRoot cache s)) (\<lambda>(s, cache).
     bindSO (ProcessSyncCommitteeUpdates c H L AggregatePublicKeys s) (\<lambda>s.
     liftSO (Inr (s, cache))))"

section \<open>What the precomputation holds\<close>

definition init_record :: "Epoch \<Rightarrow> Epoch \<Rightarrow> u64 list \<Rightarrow> nat \<times> Validator \<Rightarrow> PValidator" where
  "init_record cur prev scores = (\<lambda>(i, val). zero_PValidator\<lparr>pv_CurrentEpochEffectiveBalance := EffectiveBalance val,
     pv_InactivityScore := scores ! i, pv_IsSlashed := Slashed val,
     pv_IsWithdrawableCurrentEpoch := cur \<ge> WithdrawableEpoch val,
     pv_IsActiveCurrentEpoch := IsActiveValidatorUsingTrie val cur,
     pv_IsActivePrevEpoch := IsActiveValidatorUsingTrie val prev\<rparr>)"

text \<open>The effective balances of the list, and of its members in a set.\<close>

definition all_balance :: "Validator list \<Rightarrow> nat" where
  "all_balance vs = (\<Sum>v\<leftarrow>vs. unat (EffectiveBalance v))"

definition balance_of :: "(Validator \<Rightarrow> bool) \<Rightarrow> Validator list \<Rightarrow> u64" where
  "balance_of P vs = (\<Sum>v\<leftarrow>vs. if P v then EffectiveBalance v else 0)"

lemma all_balance_simps [simp]:
  "all_balance [] = 0" "all_balance (v # vs) = unat (EffectiveBalance v) + all_balance vs"
  by (simp_all add: all_balance_def)

lemma balance_of_simps [simp]:
  "balance_of P [] = 0" "balance_of P (v # vs) = (if P v then EffectiveBalance v else 0) + balance_of P vs"
  by (simp_all add: balance_of_def)

lemma unat_add_le: "unat (a + b :: u64) \<le> unat a + unat b"
  by (simp add: unat_word_ariths)

lemma unat_balance_of_le: "unat (balance_of P vs) \<le> all_balance vs"
proof (induction vs)
  case (Cons v vs)
  then show ?case using unat_add_le [of "EffectiveBalance v" "balance_of P vs"] by auto
qed simp

lemma initialize_fold:
  assumes "unat (pb_ActiveCurrentEpoch bal) + all_balance vs < 2 ^ 64" "unat (pb_ActivePrevEpoch bal) + all_balance vs < 2 ^ 64"
      and "k + length vs \<le> length scores"
  shows "foldR (\<lambda>(i, v). initialize_visit cur prev scores i v) (enumerate k vs) (acc, bal) =
    Inr (acc @ map (init_record cur prev scores) (enumerate k vs),
      bal\<lparr>pb_ActiveCurrentEpoch := pb_ActiveCurrentEpoch bal + balance_of (\<lambda>v. IsActiveValidatorUsingTrie v cur) vs,
         pb_ActivePrevEpoch := pb_ActivePrevEpoch bal + balance_of (\<lambda>v. IsActiveValidatorUsingTrie v prev) vs\<rparr>)"
  using assms
proof (induction vs arbitrary: k acc bal)
  case (Cons v vs)
  let ?a = "\<lambda>e. if IsActiveValidatorUsingTrie v e then EffectiveBalance v else 0"
  let ?bal = "bal\<lparr>pb_ActiveCurrentEpoch := pb_ActiveCurrentEpoch bal + ?a cur, pb_ActivePrevEpoch := pb_ActivePrevEpoch bal + ?a prev\<rparr>"
  have "initialize_visit cur prev scores k v (acc, bal) = Inr (acc @ [init_record cur prev scores (k, v)], ?bal)"
    using Cons.prems by (auto simp: initialize_visit_def init_record_def zero_PValidator_def Let_def Add64_cases)
  moreover have "unat (pb_ActiveCurrentEpoch ?bal) + all_balance vs < 2 ^ 64" "unat (pb_ActivePrevEpoch ?bal) + all_balance vs < 2 ^ 64"
    using Cons.prems unat_add_le [of "pb_ActiveCurrentEpoch bal" "?a cur"] unat_add_le [of "pb_ActivePrevEpoch bal" "?a prev"]
    by auto
  ultimately show ?case using Cons.IH [of ?bal "Suc k"] Cons.prems(3) by (simp add: add.assoc)
qed simp

lemma InitializePrecomputeValidators_ok:
  assumes "CurrentEpoch c s = Inr cur" "PrevEpoch c s = Inr prev" "bs_version s \<noteq> Phase0"
      and "length (bs_inactivityScores s) = length (bs_validators s)" "all_balance (bs_validators s) < 2 ^ 64"
  shows "InitializePrecomputeValidators c s =
    Inr (map (init_record cur prev (bs_inactivityScores s)) (enumerate 0 (bs_validators s)),
      zero_PBalance\<lparr>pb_ActiveCurrentEpoch := balance_of (\<lambda>v. IsActiveValidatorUsingTrie v cur) (bs_validators s),
        pb_ActivePrevEpoch := balance_of (\<lambda>v. IsActiveValidatorUsingTrie v prev) (bs_validators s)\<rparr>)"
proof -
  have "foldR (\<lambda>(i, v). initialize_visit cur prev (bs_inactivityScores s) i v) (enumerate 0 (bs_validators s)) ([], zero_PBalance) =
    Inr ([] @ map (init_record cur prev (bs_inactivityScores s)) (enumerate 0 (bs_validators s)),
      zero_PBalance\<lparr>pb_ActiveCurrentEpoch := pb_ActiveCurrentEpoch zero_PBalance + balance_of (\<lambda>v. IsActiveValidatorUsingTrie v cur) (bs_validators s),
        pb_ActivePrevEpoch := pb_ActivePrevEpoch zero_PBalance + balance_of (\<lambda>v. IsActiveValidatorUsingTrie v prev) (bs_validators s)\<rparr>)"
    using assms(4,5) by (intro initialize_fold) (simp_all add: zero_PBalance_def)
  then show ?thesis
    using assms(1-4)
    by (simp add: InitializePrecomputeValidators_def InactivityScores_def NumValidators_def ReadFromEveryValidator_def zero_PBalance_def)
qed

text \<open>The flag loops change every record once.\<close>

definition flag :: "u8 \<Rightarrow> u8 \<Rightarrow> bool" where
  "flag b i \<longleftrightarrow> bit b (unat i)"

lemma HasValidatorFlag_ok: "i \<le> 7 \<Longrightarrow> HasValidatorFlag b i = Inr (flag b i)"
  by (simp add: HasValidatorFlag_def flag_def bit_iff_odd_drop_bit and_one_eq odd_iff_mod_2_eq_one)

definition set_current :: "BeaconChainConfig \<Rightarrow> u8 \<Rightarrow> PValidator \<Rightarrow> PValidator" where
  "set_current c b v = (if pv_IsActiveCurrentEpoch v
     then v\<lparr>pv_IsCurrentEpochAttester := pv_IsCurrentEpochAttester v \<or> flag b (TimelySourceFlagIndex c) \<or> flag b (TimelyTargetFlagIndex c),
       pv_IsCurrentEpochTargetAttester := pv_IsCurrentEpochTargetAttester v \<or> flag b (TimelyTargetFlagIndex c)\<rparr> else v)"

definition set_previous :: "BeaconChainConfig \<Rightarrow> u8 \<Rightarrow> PValidator \<Rightarrow> PValidator" where
  "set_previous c b v = (if pv_IsActivePrevEpoch v
     then v\<lparr>pv_IsPrevEpochAttester := pv_IsPrevEpochAttester v \<or> flag b (TimelySourceFlagIndex c) \<or> flag b (TimelyTargetFlagIndex c),
       pv_IsPrevEpochSourceAttester := pv_IsPrevEpochSourceAttester v \<or> flag b (TimelySourceFlagIndex c),
       pv_IsPrevEpochTargetAttester := pv_IsPrevEpochTargetAttester v \<or> flag b (TimelyTargetFlagIndex c),
       pv_IsPrevEpochHeadAttester := pv_IsPrevEpochHeadAttester v \<or> flag b (TimelyHeadFlagIndex c)\<rparr> else v)"

definition flags_ok :: "BeaconChainConfig \<Rightarrow> bool" where
  "flags_ok c \<longleftrightarrow> TimelySourceFlagIndex c \<le> 7 \<and> TimelyTargetFlagIndex c \<le> 7 \<and> TimelyHeadFlagIndex c \<le> 7"

lemma current_flags_ok:
  assumes "flags_ok c" "i < length vals"
  shows "current_flags c (i, b) vals = Inr (vals[i := set_current c b (vals ! i)])"
proof -
  have "mark has pv_IsActiveCurrentEpoch f i xs = Inr (xs[i := if has \<and> pv_IsActiveCurrentEpoch (xs ! i) then f (xs ! i) else xs ! i])"
    if "i < length xs" for has f xs using that by (simp add: mark_def)
  then show ?thesis
    using assms
    by (cases "vals ! i"; cases "flag b (TimelySourceFlagIndex c)"; cases "flag b (TimelyTargetFlagIndex c)")
      (simp_all add: current_flags_def flags_ok_def HasValidatorFlag_ok set_current_def)
qed

lemma previous_flags_ok:
  assumes "flags_ok c" "i < length vals"
  shows "previous_flags c (i, b) vals = Inr (vals[i := set_previous c b (vals ! i)])"
proof -
  have "mark has pv_IsActivePrevEpoch f i xs = Inr (xs[i := if has \<and> pv_IsActivePrevEpoch (xs ! i) then f (xs ! i) else xs ! i])"
    if "i < length xs" for has f xs using that by (simp add: mark_def)
  then show ?thesis
    using assms
    by (cases "vals ! i"; cases "flag b (TimelySourceFlagIndex c)"; cases "flag b (TimelyTargetFlagIndex c)";
        cases "flag b (TimelyHeadFlagIndex c)")
      (simp_all add: previous_flags_def flags_ok_def HasValidatorFlag_ok set_previous_def)
qed

lemma foldR_update_each:
  assumes "\<And>i b xs. i < length xs \<Longrightarrow> f (i, b) xs = Inr (xs[i := g b (xs ! i)])" "length bs = length ys"
  shows "foldR f (enumerate (length xs) bs) (xs @ ys) = Inr (xs @ map2 g bs ys)"
  using assms(2)
proof (induction bs ys arbitrary: xs rule: list_induct2)
  case (Cons b bs y ys)
  then show ?case using Cons.IH [of "xs @ [g b y]"] assms(1) [of "length xs" "xs @ y # ys" b] by (simp add: nth_append)
qed simp

lemma ProcessEpochParticipation_ok:
  assumes "flags_ok c" "bs_version s \<noteq> Phase0"
      and "length (bs_currentEpochParticipation s) = length vals" "length (bs_previousEpochParticipation s) = length vals"
  shows "ProcessEpochParticipation c s bal vals =
    (let vals' = map2 (set_previous c) (bs_previousEpochParticipation s) (map2 (set_current c) (bs_currentEpochParticipation s) vals)
     in Inr (vals', UpdateBalance c vals' bal (bs_version s)))"
proof -
  have "foldR (current_flags c) (enumerate 0 (bs_currentEpochParticipation s)) vals =
      Inr (map2 (set_current c) (bs_currentEpochParticipation s) vals)"
    using foldR_update_each [of "current_flags c" "set_current c" "bs_currentEpochParticipation s" vals "[]"]
      current_flags_ok [OF assms(1)] assms(3) by simp
  moreover have "foldR (previous_flags c) (enumerate 0 (bs_previousEpochParticipation s)) xs =
      Inr (map2 (set_previous c) (bs_previousEpochParticipation s) xs)" if "length xs = length vals" for xs
    using foldR_update_each [of "previous_flags c" "set_previous c" "bs_previousEpochParticipation s" xs "[]"]
      previous_flags_ok [OF assms(1)] assms(4) that by simp
  ultimately show ?thesis
    using assms(2,3) by (simp add: ProcessEpochParticipation_def CurrentEpochParticipation_def PreviousEpochParticipation_def Let_def)
qed

text \<open>The unslashed effective balance of the records with a property.\<close>

definition voted :: "(PValidator \<Rightarrow> bool) \<Rightarrow> PValidator list \<Rightarrow> u64" where
  "voted P vs = (\<Sum>v\<leftarrow>vs. if \<not> pv_IsSlashed v \<and> P v then pv_CurrentEpochEffectiveBalance v else 0)"

lemma voted_simps [simp]:
  "voted P [] = 0"
  "voted P (v # vs) = (if \<not> pv_IsSlashed v \<and> P v then pv_CurrentEpochEffectiveBalance v else 0) + voted P vs"
  by (simp_all add: voted_def)

lemma updateBalance_fold:
  assumes "ver \<ge> Altair"
  shows "fold (updateBalance_step ver) vs b =
    b\<lparr>pb_CurrentEpochAttested := pb_CurrentEpochAttested b + voted pv_IsCurrentEpochAttester vs,
      pb_CurrentEpochTargetAttested := pb_CurrentEpochTargetAttested b + voted pv_IsCurrentEpochTargetAttester vs,
      pb_PrevEpochAttested := pb_PrevEpochAttested b + voted pv_IsPrevEpochSourceAttester vs,
      pb_PrevEpochTargetAttested := pb_PrevEpochTargetAttested b + voted pv_IsPrevEpochTargetAttester vs,
      pb_PrevEpochHeadAttested := pb_PrevEpochHeadAttested b + voted pv_IsPrevEpochHeadAttester vs\<rparr>"
proof (induction vs arbitrary: b)
  case (Cons v vs)
  have "ver \<noteq> Phase0" using assms by (auto simp: Altair_def Phase0_def)
  then have "updateBalance_step ver v b =
    b\<lparr>pb_CurrentEpochAttested := pb_CurrentEpochAttested b + voted pv_IsCurrentEpochAttester [v],
      pb_CurrentEpochTargetAttested := pb_CurrentEpochTargetAttested b + voted pv_IsCurrentEpochTargetAttester [v],
      pb_PrevEpochAttested := pb_PrevEpochAttested b + voted pv_IsPrevEpochSourceAttester [v],
      pb_PrevEpochTargetAttested := pb_PrevEpochTargetAttested b + voted pv_IsPrevEpochTargetAttester [v],
      pb_PrevEpochHeadAttested := pb_PrevEpochHeadAttested b + voted pv_IsPrevEpochHeadAttester [v]\<rparr>"
    using assms by (cases b) (simp add: updateBalance_step_def Let_def add_if_def)
  then show ?case using Cons.IH by (simp add: add.assoc)
qed (simp add: voted_def)

text \<open>The unslashed effective balance of the validators with a property of their flags.\<close>

definition attested :: "(Validator \<Rightarrow> u8 \<Rightarrow> bool) \<Rightarrow> Validator list \<Rightarrow> u8 list \<Rightarrow> u64" where
  "attested P vs bs = (\<Sum>(v, b)\<leftarrow>zip vs bs. if \<not> Slashed v \<and> P v b then EffectiveBalance v else 0)"

lemma attested_simps [simp]:
  "attested P [] bs = 0"
  "attested P (v # vs) (b # bs) = (if \<not> Slashed v \<and> P v b then EffectiveBalance v else 0) + attested P vs bs"
  by (simp_all add: attested_def)

definition participation_record ::
    "BeaconChainConfig \<Rightarrow> Epoch \<Rightarrow> Epoch \<Rightarrow> u64 list \<Rightarrow> u8 list \<Rightarrow> u8 list \<Rightarrow> nat \<times> Validator \<Rightarrow> PValidator" where
  "participation_record c cur prev scores cp pp = (\<lambda>(i, v).
     (init_record cur prev scores (i, v))\<lparr>
       pv_IsCurrentEpochAttester := IsActiveValidatorUsingTrie v cur \<and>
         (flag (cp ! i) (TimelySourceFlagIndex c) \<or> flag (cp ! i) (TimelyTargetFlagIndex c)),
       pv_IsCurrentEpochTargetAttester := IsActiveValidatorUsingTrie v cur \<and> flag (cp ! i) (TimelyTargetFlagIndex c),
       pv_IsPrevEpochAttester := IsActiveValidatorUsingTrie v prev \<and>
         (flag (pp ! i) (TimelySourceFlagIndex c) \<or> flag (pp ! i) (TimelyTargetFlagIndex c)),
       pv_IsPrevEpochSourceAttester := IsActiveValidatorUsingTrie v prev \<and> flag (pp ! i) (TimelySourceFlagIndex c),
       pv_IsPrevEpochTargetAttester := IsActiveValidatorUsingTrie v prev \<and> flag (pp ! i) (TimelyTargetFlagIndex c),
       pv_IsPrevEpochHeadAttester := IsActiveValidatorUsingTrie v prev \<and> flag (pp ! i) (TimelyHeadFlagIndex c)\<rparr>)"

lemma participation_record_eq:
  assumes "length cp = length vs" "length pp = length vs"
  shows "map2 (set_previous c) pp (map2 (set_current c) cp (map (init_record cur prev scores) (enumerate 0 vs)))
    = map (participation_record c cur prev scores cp pp) (enumerate 0 vs)"
  using assms
  by (intro nth_equalityI)
    (simp_all add: nth_enumerate_eq set_previous_def set_current_def participation_record_def init_record_def zero_PValidator_def)

lemma voted_record:
  assumes "\<And>i v. P (participation_record c cur prev scores cp pp (i, v)) = Q v (bs ! i)" "k + length vs \<le> length bs"
  shows "voted P (map (participation_record c cur prev scores cp pp) (enumerate k vs)) = attested Q vs (drop k bs)"
  using assms(2)
proof (induction vs arbitrary: k)
  case (Cons v vs)
  then have "drop k bs = bs ! k # drop (Suc k) bs" by (simp add: Cons_nth_drop_Suc)
  moreover have "pv_IsSlashed (participation_record c cur prev scores cp pp (k, v)) = Slashed v"
    "pv_CurrentEpochEffectiveBalance (participation_record c cur prev scores cp pp (k, v)) = EffectiveBalance v"
    by (simp_all add: participation_record_def init_record_def)
  ultimately show ?case using Cons assms(1) [of k v] by simp
qed simp

text \<open>A state after Phase 0 whose lists have the length of the registry and whose effective balances
  add up within 64 bits.\<close>

definition registry_ok :: "BeaconState \<Rightarrow> bool" where
  "registry_ok s \<longleftrightarrow> bs_version s \<ge> Altair \<and>
     length (bs_inactivityScores s) = length (bs_validators s) \<and>
     length (bs_currentEpochParticipation s) = length (bs_validators s) \<and>
     length (bs_previousEpochParticipation s) = length (bs_validators s) \<and>
     all_balance (bs_validators s) < 2 ^ 64"

definition epoch_records :: "BeaconChainConfig \<Rightarrow> Epoch \<Rightarrow> Epoch \<Rightarrow> BeaconState \<Rightarrow> PValidator list" where
  "epoch_records c cur prev s = map (participation_record c cur prev (bs_inactivityScores s)
     (bs_currentEpochParticipation s) (bs_previousEpochParticipation s)) (enumerate 0 (bs_validators s))"

text \<open>The totals: the active balances and, for every kind of vote, the unslashed active balance that cast it.\<close>

definition epoch_totals :: "BeaconChainConfig \<Rightarrow> Epoch \<Rightarrow> Epoch \<Rightarrow> BeaconState \<Rightarrow> PBalance" where
  "epoch_totals c cur prev s =
     (let vs = bs_validators s; cp = bs_currentEpochParticipation s; pp = bs_previousEpochParticipation s;
          src = TimelySourceFlagIndex c; tgt = TimelyTargetFlagIndex c; hd = TimelyHeadFlagIndex c
      in EnsureBalancesLowerBound c
        \<lparr>pb_ActiveCurrentEpoch = balance_of (\<lambda>v. IsActiveValidatorUsingTrie v cur) vs,
         pb_ActivePrevEpoch = balance_of (\<lambda>v. IsActiveValidatorUsingTrie v prev) vs,
         pb_CurrentEpochAttested = attested (\<lambda>v b. IsActiveValidatorUsingTrie v cur \<and> (flag b src \<or> flag b tgt)) vs cp,
         pb_CurrentEpochTargetAttested = attested (\<lambda>v b. IsActiveValidatorUsingTrie v cur \<and> flag b tgt) vs cp,
         pb_PrevEpochAttested = attested (\<lambda>v b. IsActiveValidatorUsingTrie v prev \<and> flag b src) vs pp,
         pb_PrevEpochTargetAttested = attested (\<lambda>v b. IsActiveValidatorUsingTrie v prev \<and> flag b tgt) vs pp,
         pb_PrevEpochHeadAttested = attested (\<lambda>v b. IsActiveValidatorUsingTrie v prev \<and> flag b hd) vs pp\<rparr>)"

lemma precomputed:
  assumes "registry_ok s" "flags_ok c" "CurrentEpoch c s = Inr cur" "PrevEpoch c s = Inr prev"
  shows "\<exists>vp bp. InitializePrecomputeValidators c s = Inr (vp, bp) \<and>
    ProcessEpochParticipation c s bp vp = Inr (epoch_records c cur prev s, epoch_totals c cur prev s)"
proof -
  let ?vs = "bs_validators s" and ?cp = "bs_currentEpochParticipation s" and ?pp = "bs_previousEpochParticipation s"
  let ?R = "participation_record c cur prev (bs_inactivityScores s) ?cp ?pp"
  let ?vp = "map (init_record cur prev (bs_inactivityScores s)) (enumerate 0 ?vs)"
  let ?bp = "zero_PBalance\<lparr>pb_ActiveCurrentEpoch := balance_of (\<lambda>v. IsActiveValidatorUsingTrie v cur) ?vs,
    pb_ActivePrevEpoch := balance_of (\<lambda>v. IsActiveValidatorUsingTrie v prev) ?vs\<rparr>"
  have ver: "bs_version s \<ge> Altair" "bs_version s \<noteq> Phase0"
    and len: "length (bs_inactivityScores s) = length ?vs" "length ?cp = length ?vs" "length ?pp = length ?vs"
    and bal: "all_balance ?vs < 2 ^ 64"
    using assms(1) by (auto simp: registry_ok_def Altair_def Phase0_def)
  have init: "InitializePrecomputeValidators c s = Inr (?vp, ?bp)"
    using InitializePrecomputeValidators_ok [OF assms(3,4) ver(2) len(1) bal] .
  have recs: "map2 (set_previous c) ?pp (map2 (set_current c) ?cp ?vp) = epoch_records c cur prev s"
    using participation_record_eq [OF len(2,3)] by (simp add: epoch_records_def)
  have sums: "voted pv_IsCurrentEpochAttester (map ?R (enumerate 0 ?vs)) = attested (\<lambda>v b. IsActiveValidatorUsingTrie v cur \<and>
        (flag b (TimelySourceFlagIndex c) \<or> flag b (TimelyTargetFlagIndex c))) ?vs ?cp"
    "voted pv_IsCurrentEpochTargetAttester (map ?R (enumerate 0 ?vs)) = attested (\<lambda>v b. IsActiveValidatorUsingTrie v cur \<and> flag b (TimelyTargetFlagIndex c)) ?vs ?cp"
    "voted pv_IsPrevEpochSourceAttester (map ?R (enumerate 0 ?vs)) = attested (\<lambda>v b. IsActiveValidatorUsingTrie v prev \<and> flag b (TimelySourceFlagIndex c)) ?vs ?pp"
    "voted pv_IsPrevEpochTargetAttester (map ?R (enumerate 0 ?vs)) = attested (\<lambda>v b. IsActiveValidatorUsingTrie v prev \<and> flag b (TimelyTargetFlagIndex c)) ?vs ?pp"
    "voted pv_IsPrevEpochHeadAttester (map ?R (enumerate 0 ?vs)) = attested (\<lambda>v b. IsActiveValidatorUsingTrie v prev \<and> flag b (TimelyHeadFlagIndex c)) ?vs ?pp"
    using voted_record [where k = 0 and vs = ?vs and bs = ?cp] voted_record [where k = 0 and vs = ?vs and bs = ?pp] len
    by (simp_all add: participation_record_def)
  have "UpdateBalance c (epoch_records c cur prev s) ?bp (bs_version s) = epoch_totals c cur prev s"
    unfolding UpdateBalance_def updateBalance_fold [OF ver(1)] epoch_records_def sums
    by (simp add: epoch_totals_def zero_PBalance_def Let_def)
  moreover have "ProcessEpochParticipation c s ?bp ?vp = Inr (epoch_records c cur prev s, UpdateBalance c (epoch_records c cur prev s) ?bp (bs_version s))"
    using ProcessEpochParticipation_ok [OF assms(2) ver(2), of ?vp ?bp] len unfolding recs by (simp add: Let_def)
  ultimately show ?thesis using init by auto
qed

section \<open>Unrealized and realized checkpoints\<close>

lemma flag_bit: "(drop_bit (unat i) b AND 1 = (1 :: u8)) = flag b i"
  by (simp add: flag_def bit_iff_odd_drop_bit and_one_eq odd_iff_mod_2_eq_one)

lemma unrealized_fold:
  assumes "unat a + all_balance vs < 2 ^ 64" "unat p + all_balance vs < 2 ^ 64" "unat q + all_balance vs < 2 ^ 64"
      and "k + length vs \<le> length cp" "k + length vs \<le> length pp"
  shows "foldR (\<lambda>(i, v). unrealized_visit c cp pp cur i v) (enumerate k vs) (a, p, q) =
    Inr (a + balance_of (\<lambda>v. ActivationEpoch v \<le> cur \<and> cur < ExitEpoch v) vs,
      p + attested (\<lambda>v b. (ActivationEpoch v < cur \<and> cur \<le> ExitEpoch v) \<and> flag b (TimelyTargetFlagIndex c)) vs (drop k pp),
      q + attested (\<lambda>v b. (ActivationEpoch v \<le> cur \<and> cur < ExitEpoch v) \<and> flag b (TimelyTargetFlagIndex c)) vs (drop k cp))"
  using assms
proof (induction vs arbitrary: k a p q)
  case (Cons v vs)
  let ?e = "EffectiveBalance v" and ?cur = "ActivationEpoch v \<le> cur \<and> cur < ExitEpoch v"
    and ?prev = "ActivationEpoch v < cur \<and> cur \<le> ExitEpoch v"
  let ?a = "a + (if ?cur then ?e else 0)"
    and ?p = "p + (if \<not> Slashed v \<and> ?prev \<and> flag (pp ! k) (TimelyTargetFlagIndex c) then ?e else 0)"
    and ?q = "q + (if \<not> Slashed v \<and> ?cur \<and> flag (cp ! k) (TimelyTargetFlagIndex c) then ?e else 0)"
  have "unrealized_visit c cp pp cur k v (a, p, q) = Inr (?a, ?p, ?q)"
    using Cons.prems by (auto simp: unrealized_visit_def Let_def Add64_cases flag_bit)
  moreover have "unat ?a + all_balance vs < 2 ^ 64" "unat ?p + all_balance vs < 2 ^ 64" "unat ?q + all_balance vs < 2 ^ 64"
    using Cons.prems(1-3) unat_add_le [of a ?e] unat_add_le [of p ?e] unat_add_le [of q ?e] by auto
  moreover have "drop k pp = pp ! k # drop (Suc k) pp" "drop k cp = cp ! k # drop (Suc k) cp"
    using Cons.prems(4,5) by (simp_all add: Cons_nth_drop_Suc)
  ultimately show ?case using Cons.IH [of ?a ?p ?q "Suc k"] Cons.prems(4,5) by (simp add: add.assoc)
qed simp

lemma active_previous:
  "cur \<noteq> 0 \<Longrightarrow> (ActivationEpoch v < cur \<and> cur \<le> ExitEpoch v) = IsActiveValidatorUsingTrie v (cur - 1)" for cur :: u64
proof -
  assume "cur \<noteq> 0"
  then have "unat (cur - 1) = unat cur - 1" "0 < unat cur" by (simp_all add: unat_sub_u64 unat_gt_0 word_le_nat_alt Suc_leI)
  then show ?thesis
    by (auto simp: IsActiveValidatorUsingTrie_def checkValidatorActiveStatus_def word_le_nat_alt word_less_nat_alt)
qed

lemma unrealized_balances:
  assumes "registry_ok s" "CurrentEpoch c s = Inr cur" "cur \<noteq> 0"
  shows "UnrealizedCheckpointBalances c s = (let t = epoch_totals c cur (cur - 1) s in
    Inr (pb_ActiveCurrentEpoch t, pb_PrevEpochTargetAttested t, pb_CurrentEpochTargetAttested t))"
proof -
  have "bs_version s \<noteq> Phase0" "length (bs_currentEpochParticipation s) = length (bs_validators s)"
    "length (bs_previousEpochParticipation s) = length (bs_validators s)" "all_balance (bs_validators s) < 2 ^ 64"
    using assms(1) by (auto simp: registry_ok_def Altair_def Phase0_def)
  moreover have "(ActivationEpoch v \<le> cur \<and> cur < ExitEpoch v) = IsActiveValidatorUsingTrie v cur" for v
    by (simp add: IsActiveValidatorUsingTrie_def checkValidatorActiveStatus_def)
  ultimately show ?thesis
    using assms(2) active_previous [OF assms(3)]
    by (simp add: UnrealizedCheckpointBalances_def stateutil_UnrealizedCheckpointBalances_def unrealized_fold
        ensureLowerBound_def epoch_totals_def EnsureBalancesLowerBound_def Let_def)
qed

text \<open>C32: the checkpoints that fork choice computes ahead of time with \<^verbatim>\<open>UnrealizedCheckpoints\<close> are those the epoch
  transition will realize: the balances that \<^verbatim>\<open>InitializePrecomputeValidators\<close> and
  \<^verbatim>\<open>ProcessEpochParticipation\<close> collect lead \<^verbatim>\<open>ProcessJustificationAndFinalizationPreCompute\<close> to the same
  justified and finalized checkpoints, or to the same error.\<close>

theorem unrealized_checkpoints_realized:
  assumes "valid_config c" "GenesisEpoch c = 0" "flags_ok c" "registry_ok s"
      and "EpochStart c 2 = Inr start" "start < bs_slot s"
  shows "\<exists>vp bp vp' bp'. InitializePrecomputeValidators c s = Inr (vp, bp) \<and>
    ProcessEpochParticipation c s bp vp = Inr (vp', bp') \<and>
    bindR (ProcessJustificationAndFinalizationPreCompute c B bp' s)
      (\<lambda>s'. Inr (bs_currentJustifiedCheckpoint s', bs_finalizedCheckpoint s')) = UnrealizedCheckpoints c B s"
proof -
  let ?cur = "bs_slot s div SlotsPerEpoch c"
  have cur: "CurrentEpoch c s = Inr ?cur" using CurrentEpoch_ok [OF assms(1)] .
  have "2 \<le> unat ?cur"
  proof -
    have "unat start = unat (SlotsPerEpoch c) * 2" using unat_epoch_start [OF assms(5)] by simp
    then have "unat (SlotsPerEpoch c) * 2 \<le> unat (bs_slot s)" using assms(6) by (simp add: word_less_nat_alt)
    then show ?thesis using assms(1) by (simp add: unat_div_u64 less_eq_div_iff_mult_less_eq unat_gt_0 mult.commute)
  qed
  then have big: "?cur \<noteq> 0" "\<not> ?cur \<le> 1" by (auto simp: word_le_nat_alt)
  then have prev: "PrevEpoch c s = Inr (?cur - 1)" by (simp add: PrevEpoch_def cur)
  let ?t = "epoch_totals c ?cur (?cur - 1) s"
  have "bindR (ProcessJustificationAndFinalizationPreCompute c B ?t s)
      (\<lambda>s'. Inr (bs_currentJustifiedCheckpoint s', bs_finalizedCheckpoint s')) =
    computeCheckpoints c B s (processJustificationBits B s (pb_ActiveCurrentEpoch ?t)
      (pb_PrevEpochTargetAttested ?t) (pb_CurrentEpochTargetAttested ?t))" (is "_ = ?cc")
    using assms(5,6)
    by (cases ?cc) (auto simp: ProcessJustificationAndFinalizationPreCompute_def weighJustificationAndFinalization_def
        SetPreviousJustifiedCheckpoint_def SetCurrentJustifiedCheckpoint_def SetJustificationBits_def SetFinalizedCheckpoint_def)
  moreover have "UnrealizedCheckpoints c B s = ?cc"
    using unrealized_balances [OF assms(4) cur big(1)] big cur assms(2)
    by (simp add: UnrealizedCheckpoints_def CurrentEpoch_def Let_def)
  ultimately show ?thesis using precomputed [OF assms(4,3) cur prev] by fastforce
qed

lemma flags_ok_mainnet: "flags_ok mainnetBeaconConfig"
  by (simp add: flags_ok_def mainnetBeaconConfig_def)

lemma registry_ok_late: "registry_ok state_late"
  by (simp add: registry_ok_def state_late_def state0_def val0_def all_balance_def Altair_def Electra_def)

theorem unrealized_checkpoints_realized_witness:
  "\<exists>vp bp vp' bp'. InitializePrecomputeValidators mainnetBeaconConfig state_late = Inr (vp, bp) \<and>
     ProcessEpochParticipation mainnetBeaconConfig state_late bp vp = Inr (vp', bp') \<and>
     bindR (ProcessJustificationAndFinalizationPreCompute mainnetBeaconConfig bv4 bp' state_late)
       (\<lambda>s'. Inr (bs_currentJustifiedCheckpoint s', bs_finalizedCheckpoint s')) = UnrealizedCheckpoints mainnetBeaconConfig bv4 state_late"
proof -
  have "EpochStart mainnetBeaconConfig 2 = Inr 64" by code_simp
  moreover have "(64 :: u64) < bs_slot state_late" by (simp add: state_late_def)
  moreover have "GenesisEpoch mainnetBeaconConfig = 0" by (simp add: mainnetBeaconConfig_def)
  ultimately show ?thesis
    using unrealized_checkpoints_realized [OF valid_config_mainnet _ flags_ok_mainnet registry_ok_late] by blast
qed

end
