(* ===== verification/Altair_Rewards.thy ===== *)
theory Altair_Rewards
  imports Altair_Epoch
begin

text \<open>
  The rewards, penalties and inactivity scores of \<^verbatim>\<open>altair/epoch_precompute.go\<close> against formulas on
  natural numbers: the products of the code stay below 2^64, and the inactivity penalty that the code
  computes is never charged.
\<close>

section \<open>The formulas\<close>

definition reward_config :: "BeaconChainConfig \<Rightarrow> bool" where
  "reward_config c \<longleftrightarrow> valid_config c \<and> EffectiveBalanceIncrement c = 1000000000 \<and> BaseRewardFactor c = 64 \<and>
     TimelySourceWeight c = 14 \<and> TimelyTargetWeight c = 26 \<and> TimelyHeadWeight c = 14 \<and> WeightDenominator c = 64 \<and>
     InactivityScoreBias c * InactivityPenaltyQuotientAltair c \<noteq> 0 \<and>
     InactivityScoreBias c * InactivityPenaltyQuotientBellatrix c \<noteq> 0"

lemma reward_config_mainnet: "reward_config mainnetBeaconConfig"
  using valid_config_mainnet by (simp add: reward_config_def mainnetBeaconConfig_def)

text \<open>The base reward of an effective balance when \<open>r\<close> is the root of the active balance.\<close>

definition spec_base :: "nat \<Rightarrow> PValidator \<Rightarrow> nat" where
  "spec_base r v = unat (pv_CurrentEpochEffectiveBalance v) div 10 ^ 9 * (64 * 10 ^ 9 div r)"

definition spec_vote :: "bool \<Rightarrow> nat \<Rightarrow> nat \<Rightarrow> Gwei \<Rightarrow> Gwei \<Rightarrow> nat" where
  "spec_vote leak base weight att active =
     (if leak then 0 else base * weight * (unat att div 10 ^ 9) div (unat active div 10 ^ 9 * 64))"

definition spec_gain :: "bool \<Rightarrow> PBalance \<Rightarrow> nat \<Rightarrow> PValidator \<Rightarrow> nat" where
  "spec_gain leak bal r v =
     (if EligibleForRewards v \<and> \<not> pv_IsSlashed v
      then (if pv_IsPrevEpochSourceAttester v then spec_vote leak (spec_base r v) 14 (pb_PrevEpochAttested bal) (pb_ActiveCurrentEpoch bal) else 0)
         + (if pv_IsPrevEpochTargetAttester v then spec_vote leak (spec_base r v) 26 (pb_PrevEpochTargetAttested bal) (pb_ActiveCurrentEpoch bal) else 0)
         + (if pv_IsPrevEpochHeadAttester v then spec_vote leak (spec_base r v) 14 (pb_PrevEpochHeadAttested bal) (pb_ActiveCurrentEpoch bal) else 0)
      else 0)"

definition spec_loss :: "nat \<Rightarrow> PValidator \<Rightarrow> nat" where
  "spec_loss r v =
     (if EligibleForRewards v
      then (if pv_IsPrevEpochSourceAttester v \<and> \<not> pv_IsSlashed v then 0 else spec_base r v * 14 div 64)
         + (if pv_IsPrevEpochTargetAttester v \<and> \<not> pv_IsSlashed v then 0 else spec_base r v * 26 div 64)
      else 0)"

text \<open>Totals for which no product wraps: at least one increment is active, and no vote is backed by more
  than twice the active balance.\<close>

definition totals_ok :: "PBalance \<Rightarrow> bool" where
  "totals_ok bal \<longleftrightarrow> 10 ^ 9 \<le> unat (pb_ActiveCurrentEpoch bal) \<and>
     unat (pb_PrevEpochAttested bal) \<le> 2 * unat (pb_ActiveCurrentEpoch bal) \<and>
     unat (pb_PrevEpochTargetAttested bal) \<le> 2 * unat (pb_ActiveCurrentEpoch bal) \<and>
     unat (pb_PrevEpochHeadAttested bal) \<le> 2 * unat (pb_ActiveCurrentEpoch bal)"

definition record_ok :: "PValidator \<Rightarrow> bool" where
  "record_ok v \<longleftrightarrow> unat (pv_CurrentEpochEffectiveBalance v) \<le> 2048 * 10 ^ 9 \<and>
     unat (pv_CurrentEpochEffectiveBalance v) * unat (pv_InactivityScore v) < 2 ^ 64"

section \<open>No product wraps\<close>

lemma root_bounds:
  assumes "is_isqrt r n" "10 ^ 9 \<le> n" "n < 2 ^ 64"
  shows "31622 \<le> r" "r < 2 ^ 32"
proof -
  show "r < 2 ^ 32" using isqrt_u64_lt [OF assms(1,3)] .
  show "31622 \<le> r"
  proof (rule ccontr)
    assume "\<not> 31622 \<le> r"
    then have "(r + 1) * (r + 1) \<le> 31622 * 31622" by (intro mult_le_mono) simp_all
    then show False using assms(1,2) by (simp add: is_isqrt_def)
  qed
qed

lemma share_bound:
  fixes r n :: nat
  assumes "is_isqrt r n" "0 < r" "att \<le> 2 * n"
  shows "64 * 10 ^ 9 div r * (att div 10 ^ 9) \<le> 128 * (r + 3)"
proof -
  let ?m = "64 * 10 ^ 9 div r" and ?a = "att div 10 ^ 9"
  have "?a * 10 ^ 9 \<le> 2 * n" using assms(3) div_times_less_eq_dividend [of att "10 ^ 9"] by linarith
  also have "\<dots> \<le> 2 * ((r + 1) * (r + 1))" using assms(1) by (simp add: is_isqrt_def)
  also have "\<dots> \<le> 2 * (r * (r + 3))" using assms(2) by (simp add: algebra_simps)
  finally have "?m * (?a * 10 ^ 9) \<le> ?m * (2 * (r * (r + 3)))" by (rule mult_le_mono2)
  also have "\<dots> = (?m * r) * (2 * (r + 3))" by (simp add: algebra_simps)
  also have "\<dots> \<le> (64 * 10 ^ 9) * (2 * (r + 3))" by (intro mult_le_mono1 div_times_less_eq_dividend)
  finally have "(?m * ?a) * 10 ^ 9 \<le> (128 * (r + 3)) * 10 ^ 9" by (simp add: algebra_simps)
  then show ?thesis by (rule mult_le_cancel2 [THEN iffD1, THEN mp]) simp
qed

lemma vote_bound:
  assumes "is_isqrt r n" "10 ^ 9 \<le> n" "n < 2 ^ 64" "att \<le> 2 * n" "q \<le> 2048" "w \<le> 26"
  shows "q * (64 * 10 ^ 9 div r) * w * (att div 10 ^ 9) < 2 ^ 55"
proof -
  have r: "31622 \<le> r" "r < 2 ^ 32" using root_bounds [OF assms(1-3)] .
  then have "64 * 10 ^ 9 div r * (att div 10 ^ 9) \<le> 128 * (r + 3)" by (intro share_bound [OF assms(1) _ assms(4)]) simp
  then have share: "64 * 10 ^ 9 div r * (att div 10 ^ 9) \<le> 128 * 4294967299" using r(2) by simp
  have "q * w \<le> 2048 * 26" using assms(5,6) by (intro mult_le_mono)
  from mult_le_mono [OF this share] show ?thesis by (simp add: ac_simps)
qed

lemma base_bound:
  assumes "is_isqrt r n" "10 ^ 9 \<le> n" "n < 2 ^ 64" "q \<le> 2048"
  shows "q * (64 * 10 ^ 9 div r) < 2 ^ 33"
proof -
  have "64 * 10 ^ 9 div r \<le> 64 * 10 ^ 9 div 31622" using root_bounds(1) [OF assms(1-3)] by (intro div_le_mono2) simp_all
  then have "q * (64 * 10 ^ 9 div r) \<le> 2048 * (64 * 10 ^ 9 div 31622)" using assms(4) by (intro mult_le_mono)
  then show ?thesis by simp
qed

lemma vote_reward_exact:
  assumes c: "reward_config c" and A: "is_isqrt r (unat active)" "10 ^ 9 \<le> unat active" and "unat att \<le> 2 * unat active"
      and base: "unat base = q * (64 * 10 ^ 9 div r)" "q \<le> 2048" and "unat w \<le> 26"
  shows "\<exists>x. vote_reward c leak base w att (active div 1000000000) = Inr x \<and>
    unat x = spec_vote leak (unat base) (unat w) att active \<and> unat x < 2 ^ 55"
proof (cases leak)
  case True
  then show ?thesis by (simp add: vote_reward_def spec_vote_def)
next
  case False
  have prod: "q * (64 * 10 ^ 9 div r) * unat w * (unat att div 10 ^ 9) < 2 ^ 55"
    using vote_bound [OF A unat_u64_lt assms(4) base(2) assms(7)] .
  have "q * (64 * 10 ^ 9 div r) < 2 ^ 33" using base_bound [OF A unat_u64_lt base(2)] .
  then have "unat base * unat w \<le> 2 ^ 33 * 26" using assms(7) unfolding base(1) by (intro mult_le_mono) simp_all
  then have bw: "unat (base * w) = unat base * unat w" by (intro unat_mult_u64) simp
  have n: "unat (base * w * (att div 1000000000)) = unat base * unat w * (unat att div 10 ^ 9)"
    using prod by (subst unat_mult_u64) (simp_all add: bw unat_div_u64 base(1))
  have "unat active div 10 ^ 9 * 64 < 2 ^ 64"
    using div_le_mono [OF less_imp_le [OF unat_u64_lt_num [of active]], of "10 ^ 9"] by simp
  then have d: "unat (active div 1000000000 * 64) = unat active div 10 ^ 9 * 64"
    by (subst unat_mult_u64) (simp_all add: unat_div_u64)
  have "1 \<le> unat active div 10 ^ 9" using A(2) by (simp add: Suc_le_eq div_greater_zero_iff)
  then have nz: "active div 1000000000 * 64 \<noteq> 0" using d by (metis mult_is_0 not_one_le_zero unat_0 zero_neq_numeral)
  have inc: "EffectiveBalanceIncrement c = 1000000000" "WeightDenominator c = 64" using c by (simp_all add: reward_config_def)
  let ?x = "base * w * (att div 1000000000) div (active div 1000000000 * 64)"
  have "unat ?x = spec_vote leak (unat base) (unat w) att active" using False by (simp add: spec_vote_def unat_div_u64 n d)
  moreover have "unat ?x < 2 ^ 55"
    using prod div_le_dividend [of "unat base * unat w * (unat att div 10 ^ 9)" "unat active div 10 ^ 9 * 64"]
    unfolding unat_div_u64 n d base(1) by linarith
  ultimately show ?thesis using False nz by (simp add: vote_reward_def inc)
qed

lemma base_reward_exact:
  fixes root active :: u64
  assumes "is_isqrt (unat root) (unat active)" "10 ^ 9 \<le> unat active" "unat (pv_CurrentEpochEffectiveBalance v) \<le> 2048 * 10 ^ 9"
  shows "unat (pv_CurrentEpochEffectiveBalance v div 1000000000 * (64000000000 div root)) = spec_base (unat root) v"
    "spec_base (unat root) v < 2 ^ 33"
    "unat (pv_CurrentEpochEffectiveBalance v) div 10 ^ 9 \<le> 2048"
proof -
  show q: "unat (pv_CurrentEpochEffectiveBalance v) div 10 ^ 9 \<le> 2048" using div_le_mono [OF assms(3), of "10 ^ 9"] by simp
  show b: "spec_base (unat root) v < 2 ^ 33" unfolding spec_base_def by (rule base_bound [OF assms(1,2) unat_u64_lt q])
  show "unat (pv_CurrentEpochEffectiveBalance v div 1000000000 * (64000000000 div root)) = spec_base (unat root) v"
    using b by (subst unat_mult_u64) (simp_all add: spec_base_def unat_div_u64)
qed

lemma penalty_exact:
  fixes base w :: u64
  assumes "unat base < 2 ^ 33" "unat w \<le> 26"
  shows "unat (base * w div 64) = unat base * unat w div 64" "unat (base * w div 64) < 2 ^ 33"
proof -
  have p: "unat base * unat w \<le> 2 ^ 33 * 26" using assms by (intro mult_le_mono) simp_all
  then have "unat (base * w) = unat base * unat w" by (intro unat_mult_u64) simp
  then show e: "unat (base * w div 64) = unat base * unat w div 64" by (simp add: unat_div_u64)
  show "unat (base * w div 64) < 2 ^ 33" unfolding e using div_le_mono [OF p, of 64] by simp
qed

text \<open>The three votes, each with its reward or its penalty.\<close>

lemma attestation_delta_exact:
  assumes c: "reward_config c" and bal: "totals_ok bal" and v: "record_ok v" and "den \<noteq> 0"
      and root: "is_isqrt (unat root) (unat (pb_ActiveCurrentEpoch bal))"
  shows "\<exists>d. attestationDelta c bal v (64000000000 div root) den leak = Inr d \<and>
    unat (dl_HeadReward d + dl_SourceReward d + dl_TargetReward d) = spec_gain leak bal (unat root) v \<and>
    unat (dl_SourcePenalty d + dl_TargetPenalty d) = spec_loss (unat root) v \<and> spec_gain leak bal (unat root) v < 2 ^ 57"
proof (cases "EligibleForRewards v")
  case False
  then show ?thesis by (simp add: attestationDelta_def zero_AttDelta_def spec_gain_def spec_loss_def)
next
  case True
  let ?A = "pb_ActiveCurrentEpoch bal" and ?eff = "pv_CurrentEpochEffectiveBalance v"
  let ?b = "?eff div 1000000000 * (64000000000 div root)"
  have A: "10 ^ 9 \<le> unat ?A" and att: "unat (pb_PrevEpochAttested bal) \<le> 2 * unat ?A"
      "unat (pb_PrevEpochTargetAttested bal) \<le> 2 * unat ?A" "unat (pb_PrevEpochHeadAttested bal) \<le> 2 * unat ?A"
    using bal by (simp_all add: totals_ok_def)
  have eff: "unat ?eff \<le> 2048 * 10 ^ 9" "unat ?eff * unat (pv_InactivityScore v) < 2 ^ 64" using v by (simp_all add: record_ok_def)
  note base = base_reward_exact [OF root A eff(1)]
  have b33: "unat ?b < 2 ^ 33" using base(2) unfolding base(1) .
  have bq: "unat ?b = unat ?eff div 10 ^ 9 * (64 * 10 ^ 9 div unat root)" unfolding base(1) spec_base_def ..
  obtain xs where xs: "vote_reward c leak ?b 14 (pb_PrevEpochAttested bal) (?A div 1000000000) = Inr xs"
      "unat xs = spec_vote leak (unat ?b) 14 (pb_PrevEpochAttested bal) ?A" "unat xs < 2 ^ 55"
    using vote_reward_exact [OF c root A att(1) bq base(3), of 14 leak] by auto
  obtain xt where xt: "vote_reward c leak ?b 26 (pb_PrevEpochTargetAttested bal) (?A div 1000000000) = Inr xt"
      "unat xt = spec_vote leak (unat ?b) 26 (pb_PrevEpochTargetAttested bal) ?A" "unat xt < 2 ^ 55"
    using vote_reward_exact [OF c root A att(2) bq base(3), of 26 leak] by auto
  obtain xh where xh: "vote_reward c leak ?b 14 (pb_PrevEpochHeadAttested bal) (?A div 1000000000) = Inr xh"
      "unat xh = spec_vote leak (unat ?b) 14 (pb_PrevEpochHeadAttested bal) ?A" "unat xh < 2 ^ 55"
    using vote_reward_exact [OF c root A att(3) bq base(3), of 14 leak] by auto
  have cfg: "EffectiveBalanceIncrement c = 1000000000" "TimelySourceWeight c = 14" "TimelyTargetWeight c = 26"
    "TimelyHeadWeight c = 14" "WeightDenominator c = 64" using c by (simp_all add: reward_config_def)
  have nz: "?A \<noteq> 0" using A by auto
  define d where "d = \<lparr>dl_HeadReward = (if pv_IsPrevEpochHeadAttester v \<and> \<not> pv_IsSlashed v then xh else 0),
    dl_SourceReward = (if pv_IsPrevEpochSourceAttester v \<and> \<not> pv_IsSlashed v then xs else 0),
    dl_SourcePenalty = (if pv_IsPrevEpochSourceAttester v \<and> \<not> pv_IsSlashed v then 0 else ?b * 14 div 64),
    dl_TargetReward = (if pv_IsPrevEpochTargetAttester v \<and> \<not> pv_IsSlashed v then xt else 0),
    dl_TargetPenalty = (if pv_IsPrevEpochTargetAttester v \<and> \<not> pv_IsSlashed v then 0 else ?b * 26 div 64),
    dl_InactivityPenalty = (if \<not> pv_IsPrevEpochTargetAttester v \<or> pv_IsSlashed v
      then ?eff * pv_InactivityScore v div den else 0)\<rparr>"
  have run: "attestationDelta c bal v (64000000000 div root) den leak = Inr d"
    using True nz xs(1) xt(1) xh(1) eff(2) assms(4)
    by (simp add: attestationDelta_def Let_def cfg d_def zero_AttDelta_def Mul64_cases)
  have "unat (dl_HeadReward d + dl_SourceReward d + dl_TargetReward d) = spec_gain leak bal (unat root) v"
    "spec_gain leak bal (unat root) v < 2 ^ 57"
    using xs(2,3) xt(2,3) xh(2,3) True by (auto simp: d_def spec_gain_def base(1) [symmetric] unat_add_u64)
  moreover have "unat (dl_SourcePenalty d + dl_TargetPenalty d) = spec_loss (unat root) v"
    using True penalty_exact [OF b33, of 14] penalty_exact [OF b33, of 26]
    by (auto simp: d_def spec_loss_def base(1) [symmetric] unat_add_u64)
  ultimately show ?thesis using run by blast
qed

lemma mapR_exists:
  "(\<And>x. x \<in> set xs \<Longrightarrow> \<exists>y. f x = Inr y \<and> P x y) \<Longrightarrow>
     \<exists>ys. mapR f xs = Inr ys \<and> length ys = length xs \<and> (\<forall>i < length xs. P (xs ! i) (ys ! i))"
proof (induction xs)
  case (Cons x xs)
  then obtain y ys where "f x = Inr y" "P x y" "mapR f xs = Inr ys" "length ys = length xs" "\<forall>i < length xs. P (xs ! i) (ys ! i)"
    by force
  then show ?case by (auto simp: nth_Cons split: nat.splits)
qed simp

lemma apply_delta_exact:
  assumes "unat (dl_HeadReward d + dl_SourceReward d + dl_TargetReward d) = g" "unat (dl_SourcePenalty d + dl_TargetPenalty d) = l"
      and "g < 2 ^ 57" "unat b < 2 ^ 63"
  shows "\<exists>b'. apply_delta d b = Inr b' \<and> unat b' = unat b + g - l"
proof -
  let ?s = "b + (dl_HeadReward d + dl_SourceReward d + dl_TargetReward d)"
  have "unat ?s = unat b + g" using assms by (subst unat_add_u64) simp_all
  moreover have "unat (DecreaseBalanceWithVal x p) = unat x - unat p" for x p
    by (auto simp: DecreaseBalanceWithVal_def word_less_nat_alt unat_sub_u64 word_le_nat_alt)
  ultimately show ?thesis
    using assms by (simp add: apply_delta_def IncreaseBalanceWithVal_def Add64_cases)
qed

text \<open>C33: \<^verbatim>\<open>ProcessRewardsAndPenaltiesPrecompute\<close> changes the balances and nothing else, and every balance changes by
  exactly the rewards of the timely votes and the source and target penalties of the consensus
  specification: none of the products of the code wraps around, and no inactivity penalty is charged,
  whatever the inactivity scores are.\<close>

theorem rewards_as_specified:
  assumes c: "reward_config c" and "sqrt_cache_ok cache" "\<not> (squareRoot cache = 1 \<and> pb_ActiveCurrentEpoch bal = max_u64)"
      and bal: "totals_ok bal" and vals: "\<forall>v \<in> set vals. record_ok v"
      and len: "length vals = length (bs_validators s)" "length (bs_balances s) = length (bs_validators s)"
      and "bs_version s \<ge> Altair" "CurrentEpoch c s = Inr cur" "cur \<noteq> GenesisEpoch c" "PrevEpoch c s = Inr prev"
      and small: "\<forall>b \<in> set (bs_balances s). unat b < 2 ^ 63"
  shows "\<exists>s' vals' cache' r. ProcessRewardsAndPenaltiesPrecompute c cache s bal vals = Inr (s', vals', cache') \<and>
    sqrt_cache_ok cache' \<and> is_isqrt r (unat (pb_ActiveCurrentEpoch bal)) \<and>
    s' = s\<lparr>bs_balances := bs_balances s'\<rparr> \<and> length (bs_balances s') = length (bs_balances s) \<and>
    (\<forall>i < length vals. unat (bs_balances s' ! i) =
       unat (bs_balances s ! i) + spec_gain (IsInInactivityLeak c prev (FinalizedCheckpointEpoch s)) bal r (vals ! i)
         - spec_loss r (vals ! i))"
proof -
  let ?leak = "IsInInactivityLeak c prev (FinalizedCheckpointEpoch s)"
  obtain root cache' where root: "CachedSquareRoot (pb_ActiveCurrentEpoch bal) cache = Inr (root, cache')"
      "is_isqrt (unat root) (unat (pb_ActiveCurrentEpoch bal))" "sqrt_cache_ok cache'"
    using CachedSquareRoot_ok [OF assms(2,3)] by blast
  have "31622 \<le> unat root" using root_bounds [OF root(2)] bal by (simp add: totals_ok_def)
  then have nz: "root \<noteq> 0" by auto
  obtain den where den: "state_InactivityPenaltyQuotient c s = Inr den" "InactivityScoreBias c * den \<noteq> 0"
    using c assms(8) by (cases "bs_version s \<ge> Bellatrix") (auto simp: state_InactivityPenaltyQuotient_def reward_config_def)
  let ?g = "\<lambda>v. spec_gain ?leak bal (unat root) v" and ?l = "\<lambda>v. spec_loss (unat root) v"
  have "\<exists>ds. mapR (\<lambda>v. attestationDelta c bal v (64000000000 div root) (InactivityScoreBias c * den) ?leak) vals = Inr ds \<and>
      length ds = length vals \<and> (\<forall>i < length vals. unat (dl_HeadReward (ds ! i) + dl_SourceReward (ds ! i) + dl_TargetReward (ds ! i)) = ?g (vals ! i) \<and>
        unat (dl_SourcePenalty (ds ! i) + dl_TargetPenalty (ds ! i)) = ?l (vals ! i) \<and> ?g (vals ! i) < 2 ^ 57)"
    using vals attestation_delta_exact [OF c bal _ den(2) root(2), of _ ?leak] by (intro mapR_exists) blast
  then obtain ds where ds: "mapR (\<lambda>v. attestationDelta c bal v (64000000000 div root) (InactivityScoreBias c * den) ?leak) vals = Inr ds"
      "length ds = length vals" "\<And>i. i < length vals \<Longrightarrow> unat (dl_HeadReward (ds ! i) + dl_SourceReward (ds ! i) + dl_TargetReward (ds ! i)) = ?g (vals ! i) \<and>
        unat (dl_SourcePenalty (ds ! i) + dl_TargetPenalty (ds ! i)) = ?l (vals ! i) \<and> ?g (vals ! i) < 2 ^ 57" by blast
  have deltas: "AttestationsDelta c cache s bal vals = Inr (ds, cache')"
    using root(1) nz den(1) ds(1) assms(11) c by (simp add: AttestationsDelta_def Let_def reward_config_def)
  have "\<forall>i < length vals. \<exists>b. apply_delta (ds ! i) (bs_balances s ! i) = Inr b \<and>
      unat b = unat (bs_balances s ! i) + ?g (vals ! i) - ?l (vals ! i)"
    using ds(3) small len apply_delta_exact by simp
  then obtain f where f: "\<forall>i < length vals. apply_delta (ds ! i) (bs_balances s ! i) = Inr (f i) \<and>
      unat (f i) = unat (bs_balances s ! i) + ?g (vals ! i) - ?l (vals ! i)" by metis
  let ?bs = "map f [0..<length vals]"
  have "mapR (\<lambda>(d, b). apply_delta d b) (zip ds (bs_balances s)) = Inr ?bs" using f ds(2) len by (simp add: mapR_eq_Inr)
  then show ?thesis
    using root(2,3) deltas len assms(9,10) f
    by (intro exI [of _ "s\<lparr>bs_balances := ?bs\<rparr>"] exI [of _ cache'])
      (auto simp: ProcessRewardsAndPenaltiesPrecompute_def SetBalances_def NumValidators_def BalancesLength_def)
qed

definition votes_ex :: "PValidator list" where
  "votes_ex = [zero_PValidator\<lparr>pv_CurrentEpochEffectiveBalance := 32000000000, pv_IsActivePrevEpoch := True,
       pv_IsPrevEpochSourceAttester := True, pv_IsPrevEpochTargetAttester := True\<rparr>,
     zero_PValidator\<lparr>pv_CurrentEpochEffectiveBalance := 32000000000, pv_IsActivePrevEpoch := True,
       pv_InactivityScore := 40\<rparr>]"

definition totals_ex :: PBalance where
  "totals_ex = zero_PBalance\<lparr>pb_ActiveCurrentEpoch := 64000000000, pb_PrevEpochAttested := 32000000000,
     pb_PrevEpochTargetAttested := 32000000000, pb_PrevEpochHeadAttested := 1000000000\<rparr>"

theorem rewards_as_specified_witness:
  "\<exists>s' vals' cache' r. ProcessRewardsAndPenaltiesPrecompute mainnetBeaconConfig cachedSquareRoot_init state0 totals_ex votes_ex
       = Inr (s', vals', cache') \<and> is_isqrt r 64000000000 \<and>
     unat (bs_balances s' ! 1) = 2048000000000 - spec_loss r (votes_ex ! 1)"
proof -
  let ?c = mainnetBeaconConfig
  have ep: "CurrentEpoch ?c state0 = Inr 10" "PrevEpoch ?c state0 = Inr 9" "(10 :: u64) \<noteq> GenesisEpoch ?c"
    by (simp_all add: CurrentEpoch_def PrevEpoch_def ToEpoch_def state0_def mainnetBeaconConfig_def)
  have bal: "totals_ok totals_ex" "pb_ActiveCurrentEpoch totals_ex \<noteq> max_u64" "unat (pb_ActiveCurrentEpoch totals_ex) = 64000000000"
    by (simp_all add: totals_ok_def totals_ex_def zero_PBalance_def max_u64_def)
  have vals: "\<forall>v \<in> set votes_ex. record_ok v" "length votes_ex = length (bs_validators state0)"
    by (simp_all add: votes_ex_def record_ok_def zero_PValidator_def state0_def)
  have st: "length (bs_balances state0) = length (bs_validators state0)" "bs_version state0 \<ge> Altair"
    "\<forall>b \<in> set (bs_balances state0). unat b < 2 ^ 63" "unat (bs_balances state0 ! 1) = 2048000000000"
    by (simp_all add: state0_def Altair_def Electra_def)
  have "1 < length votes_ex" "spec_gain leak totals_ex r (votes_ex ! 1) = 0" for leak r
    by (simp_all add: votes_ex_def spec_gain_def zero_PValidator_def)
  then show ?thesis
    using rewards_as_specified [OF reward_config_mainnet sqrt_cache_ok_init _ bal(1) vals st(1,2) ep(1,3,2) st(3)] bal(2,3) st(4)
    by fastforce
qed

end
