(* ===== verification/Altair_Transition.thy ===== *)
theory Altair_Transition
  imports Altair_Rewards
begin

text \<open>
  The epoch transition of \<^verbatim>\<open>altair/transition.go\<close> as a whole: what it keeps of the registry, and that a
  well-formed state never makes its accounting steps panic.
\<close>

section \<open>What every step keeps\<close>

definition ident :: "Validator \<Rightarrow> bytes \<times> bytes \<times> bool" where
  "ident v = (PublicKey v, WithdrawalCredentials v, Slashed v)"

text \<open>The slot and the fork, who is in the registry, and the lengths of the lists that follow it.\<close>

definition frame :: "BeaconState \<Rightarrow> Slot \<times> int \<times> (bytes \<times> bytes \<times> bool) list \<times> nat \<times> nat \<times> nat \<times> nat" where
  "frame s = (bs_slot s, bs_version s, map ident (bs_validators s), length (bs_balances s), length (bs_inactivityScores s),
     length (bs_currentEpochParticipation s), length (bs_previousEpochParticipation s))"

named_theorems frame_rules \<open>operations that keep the frame\<close>

lemma frame_foldR:
  assumes "foldR f xs s = Inr t" "\<And>x s s'. x \<in> set xs \<Longrightarrow> f x s = Inr s' \<Longrightarrow> frame s' = frame s"
  shows "frame t = frame s"
  using foldR_invariant [where P = "\<lambda>s'. frame s' = frame s", OF assms(1)] assms(2) by metis

lemma ident_update [simp]:
  "ident (v\<lparr>ActivationEligibilityEpoch := e\<rparr>) = ident v" "ident (v\<lparr>ActivationEpoch := e\<rparr>) = ident v"
  "ident (v\<lparr>ExitEpoch := e, WithdrawableEpoch := w\<rparr>) = ident v" "ident (v\<lparr>EffectiveBalance := g\<rparr>) = ident v"
  by (simp_all add: ident_def)

lemma frame_update [simp]:
  assumes "i < length (bs_validators s)" "ident w = ident (bs_validators s ! i)"
  shows "frame (s\<lparr>bs_validators := (bs_validators s)[i := w]\<rparr>) = frame s"
  using assms by (simp add: frame_def map_update list_update_same_conv)

lemma frame_justification [frame_rules]:
  "ProcessJustificationAndFinalizationPreCompute c B bp s = Inr s' \<Longrightarrow> frame s' = frame s"
  by (auto simp: ProcessJustificationAndFinalizationPreCompute_def weighJustificationAndFinalization_def frame_def
      SetPreviousJustifiedCheckpoint_def SetCurrentJustifiedCheckpoint_def SetJustificationBits_def SetFinalizedCheckpoint_def
      split: if_splits)

lemma inactivity_scores_length:
  assumes "foldR (inactivity_step c leak) xs (scores, vals) = Inr (scores', vals')"
  shows "length scores' = length scores"
proof -
  have "(\<lambda>(a, b). length a = length scores) (scores', vals')"
    by (rule foldR_invariant [OF assms]) (auto simp: inactivity_step_def split: if_splits prod.splits)
  then show ?thesis by simp
qed

lemma frame_inactivity [frame_rules]: "ProcessInactivityScores c s vals = Inr (s', vals') \<Longrightarrow> frame s' = frame s"
  by (auto simp: ProcessInactivityScores_def InactivityScores_def SetInactivityScores_def frame_def
      dest!: inactivity_scores_length split: if_splits)

lemma AttestationsDelta_length: "AttestationsDelta c cache s bal vals = Inr (ds, cache') \<Longrightarrow> length ds = length vals"
  by (auto simp: AttestationsDelta_def Let_def dest: mapR_length)

lemma frame_rewards [frame_rules]:
  "ProcessRewardsAndPenaltiesPrecompute c cache s bal vals = Inr (s', vals', cache') \<Longrightarrow> frame s' = frame s"
  by (auto simp: ProcessRewardsAndPenaltiesPrecompute_def SetBalances_def frame_def NumValidators_def BalancesLength_def
      dest!: AttestationsDelta_length mapR_length split: if_splits)

lemma frame_markEligible: "markEligible e i s = Inr s' \<Longrightarrow> frame s' = frame s"
  by (auto simp: markEligible_def ValidatorAtIndex_def mv_At_def split: if_splits)

lemma frame_markActive: "markActive e i s = Inr s' \<Longrightarrow> frame s' = frame s"
  by (auto simp: markActive_def ValidatorAtIndex_def mv_At_def split: if_splits)

lemma frame_churn: "ExitEpochAndUpdateChurn c b s = Inr (e, s') \<Longrightarrow> frame s' = frame s \<and> bs_validators s' = bs_validators s"
  by (auto simp: ExitEpochAndUpdateChurn_def since_Inr exitEpochAndUpdateChurn_def Let_def frame_def split: if_splits)

lemma frame_finishExit:
  "finishExit c i (bs_validators s ! unat i) x s = Inr (s', x') \<Longrightarrow> frame s' = frame s"
  by (auto simp: finishExit_Inr)

lemma frame_exit: "InitiateValidatorExit c i x s = Inr (s', x') \<Longrightarrow> frame s' = frame s"
  by (auto simp: InitiateValidatorExit_def ValidatorAtIndex_def mv_At_def split: if_splits dest!: frame_churn)
    (metis frame_finishExit)+

lemma frame_registry [frame_rules]: "ProcessRegistryUpdates c s = Inr s' \<Longrightarrow> frame s' = frame s"
proof -
  have eject: "frame t = frame s" if "ejectAll c es s = Inr t" for es s t
  proof -
    have "(\<lambda>(s', x'). frame s' = frame s) (t, y)" if "foldR (\<lambda>i (st, x). wrapR ''could not initiate exit for validator''
        (ignoreAlreadyExited (st, x) (InitiateValidatorExit c i x st))) es (s, x) = Inr (t, y)" for x y
      by (rule foldR_invariant [OF that])
        (auto simp: ignoreAlreadyExited_def split: sum.splits if_splits prod.splits dest!: frame_exit)
    then show ?thesis using that by (auto simp: ejectAll_def split: if_splits)
  qed
  assume "ProcessRegistryUpdates c s = Inr s'"
  then show ?thesis
    by (auto simp: ProcessRegistryUpdates_def activateUpToChurn_def Let_def dest!: eject
        elim!: frame_foldR [THEN trans] intro: frame_markEligible frame_markActive)
qed

lemma frame_slashings [frame_rules]: "ProcessSlashings c s = Inr s' \<Longrightarrow> frame s' = frame s"
proof -
  have len: "length bals' = length bals" if "ReadFromEveryValidator s (slashings_visit c v e t m p) (bals, ch) = Inr (bals', ch')"
    for v e t m p bals ch bals' ch'
  proof -
    have "(\<lambda>(a, b). length a = length bals) (bals', ch')"
      using that unfolding ReadFromEveryValidator_def
      by (rule foldR_invariant) (auto simp: slashings_visit_def Let_def split: if_splits)
    then show ?thesis by simp
  qed
  assume "ProcessSlashings c s = Inr s'"
  then show ?thesis by (auto simp: ProcessSlashings_def Let_def frame_def SetBalances_def split: if_splits dest!: len)
qed

lemma frame_eth1_reset [frame_rules]: "ProcessEth1DataReset c s = Inr s' \<Longrightarrow> frame s' = frame s"
  by (auto simp: ProcessEth1DataReset_def SetEth1DataVotes_def frame_def split: if_splits)

lemma frame_effective_balances [frame_rules]: "ProcessEffectiveBalanceUpdates c s = Inr s' \<Longrightarrow> frame s' = frame s"
proof -
  have visit: "ident (case nv of None \<Rightarrow> v | Some w \<Rightarrow> w) = ident v" if "effectiveBalance_visit c down up bals i v = Inr nv"
    for down up bals i v nv
    using that by (auto simp: effectiveBalance_visit_def Let_def split: if_splits option.splits)
  have "map ident vs = map ident (bs_validators s)"
    if "mapR (\<lambda>(i, v). bindR (effectiveBalance_visit c down up bals i v) (\<lambda>nv. Inr (case nv of None \<Rightarrow> v | Some w \<Rightarrow> w)))
        (enumerate 0 (bs_validators s)) = Inr vs" for down up bals vs
    using that by (intro nth_equalityI) (auto simp: mapR_eq_Inr nth_enumerate_eq bindR_eq_Inr dest!: spec visit)
  moreover assume "ProcessEffectiveBalanceUpdates c s = Inr s'"
  ultimately show ?thesis
    by (auto simp: ProcessEffectiveBalanceUpdates_def ApplyToEveryValidator_def Let_def frame_def split: if_splits)
qed

lemma frame_slashings_reset [frame_rules]: "ProcessSlashingsReset c s = Inr s' \<Longrightarrow> frame s' = frame s"
  by (auto simp: ProcessSlashingsReset_def UpdateSlashingsAtIndex_def frame_def split: if_splits)

lemma frame_randao_reset [frame_rules]: "ProcessRandaoMixesReset c s = Inr s' \<Longrightarrow> frame s' = frame s"
  by (auto simp: ProcessRandaoMixesReset_def UpdateRandaoMixesAtIndex_def frame_def split: if_splits)

lemma frame_historical [frame_rules]: "ProcessHistoricalDataUpdate c A B s = Inr s' \<Longrightarrow> frame s' = frame s"
  by (auto simp: ProcessHistoricalDataUpdate_def AppendHistoricalSummaries_def AppendHistoricalRoots_def since_Inr frame_def
      split: if_splits)

lemma frame_sync_committee [frame_rules]:
  "ProcessSyncCommitteeUpdates c H L A s cs = Some (Inr s', cs') \<Longrightarrow> frame s' = frame s"
  by (auto simp: ProcessSyncCommitteeUpdates_def bindSO_def stateSO_def liftS_def SetCurrentSyncCommittee_def
      SetNextSyncCommittee_def frame_def split: if_splits option.splits sum.splits prod.splits)

text \<open>Every list that follows the registry has its length.\<close>

definition lists_ok :: "BeaconState \<Rightarrow> bool" where
  "lists_ok s \<longleftrightarrow> length (bs_balances s) = length (bs_validators s) \<and>
     length (bs_inactivityScores s) = length (bs_validators s) \<and>
     length (bs_currentEpochParticipation s) = length (bs_validators s) \<and>
     length (bs_previousEpochParticipation s) = length (bs_validators s)"

lemma lists_ok_frame: "frame s' = frame s \<Longrightarrow> lists_ok s' = lists_ok s"
  by (auto simp: frame_def lists_ok_def dest: map_eq_imp_length_eq)

lemma frame_flag_updates [frame_rules]:
  "ProcessParticipationFlagUpdates s = Inr s' \<Longrightarrow> lists_ok s \<Longrightarrow> frame s' = frame s"
  by (auto simp: ProcessParticipationFlagUpdates_def CurrentEpochParticipation_def SetPreviousParticipationBits_def
      SetCurrentParticipationBits_def NumValidators_def frame_def lists_ok_def split: if_splits)

lemma frame_accounting [frame_rules]:
  "altair_ProcessEpoch_accounting c B cache s = Inr (s', cache') \<Longrightarrow> frame s' = frame s"
  by (auto simp: altair_ProcessEpoch_accounting_def dest!: frame_rules)

text \<open>C34: the epoch transition keeps the registry well-formed: if the balances, inactivity scores and participation
  lists have the length of the registry, they have it afterwards; the slot and the fork stay, and no validator is
  added, removed or renamed, none changes its withdrawal credentials and none becomes slashed.\<close>

theorem epoch_transition_keeps_registry:
  assumes "altair_ProcessEpoch c H B L AggregatePublicKeys ArraysRoot HistoricalBatchRoot cache s cs = Some (Inr (s', cache'), cs')"
      and "lists_ok s"
  shows "lists_ok s' \<and> bs_slot s' = bs_slot s \<and> bs_version s' = bs_version s \<and>
    map ident (bs_validators s') = map ident (bs_validators s)"
proof -
  obtain s1 where s1: "altair_ProcessEpoch_state c B ArraysRoot HistoricalBatchRoot cache s = Inr (s1, cache')"
    and last: "frame s' = frame s1"
    using assms(1) unfolding altair_ProcessEpoch_def
    by (auto simp: bindSO_def stateSO_def liftS_def split: option.splits sum.splits prod.splits dest!: frame_sync_committee)
  then obtain s0 where s0: "ProcessParticipationFlagUpdates s0 = Inr s1" "frame s0 = frame s"
    by (auto simp: altair_ProcessEpoch_state_def dest!: frame_accounting frame_registry frame_slashings frame_eth1_reset frame_effective_balances
        frame_slashings_reset frame_randao_reset frame_historical)
  have "lists_ok s0" using lists_ok_frame [OF s0(2)] assms(2) by simp
  then have "frame s1 = frame s" using frame_flag_updates [OF s0(1)] s0(2) by simp
  then have fr: "frame s' = frame s" using last by simp
  then show ?thesis using lists_ok_frame [OF fr] assms(2) by (simp add: frame_def)
qed

definition short_config :: BeaconChainConfig where
  "short_config = mainnetBeaconConfig\<lparr>EpochsPerSlashingsVector := 2, EpochsPerHistoricalVector := 2\<rparr>"

definition state_run :: BeaconState where
  "state_run = state_late\<lparr>bs_randaoMixes := [[1], [2]]\<rparr>"

theorem epoch_transition_keeps_registry_witness:
  "\<exists>s' cache' cs'. altair_ProcessEpoch short_config hash_ex bv4 lru_ex (\<lambda>_. Inr []) (\<lambda>_. Inr []) (\<lambda>_ _. Inr [])
       cachedSquareRoot_init state_run caches_ex = Some (Inr (s', cache'), cs') \<and> lists_ok s'"
proof -
  let ?run = "altair_ProcessEpoch short_config hash_ex bv4 lru_ex (\<lambda>_. Inr []) (\<lambda>_. Inr []) (\<lambda>_ _. Inr [])
    cachedSquareRoot_init state_run caches_ex"
  have "case ?run of None \<Rightarrow> False | Some (r, _) \<Rightarrow> \<not> isl r" by code_simp
  then obtain s' cache' cs' where run: "?run = Some (Inr (s', cache'), cs')"
    by (auto split: option.splits prod.splits) (metis obj_sumE isl_def surj_pair)
  have "lists_ok state_run" by (simp add: lists_ok_def state_run_def state_late_def state0_def)
  then show ?thesis using epoch_transition_keeps_registry [OF run] run by blast
qed

section \<open>No panic\<close>

text \<open>An operation that may return an error but never panics.\<close>

definition no_panic :: "'a result \<Rightarrow> bool" where
  "no_panic m \<longleftrightarrow> (\<forall>e. m = Inl e \<longrightarrow> \<not> is_panic e)"

named_theorems no_panic_rules \<open>composition of operations that never panic\<close>

lemma no_panic_Inr [no_panic_rules]: "no_panic (Inr x)"
  by (simp add: no_panic_def)

lemma no_panic_Inl [no_panic_rules]: "no_panic (Inl (Err msg))"
  by (simp add: no_panic_def)

lemma no_panic_bindR [no_panic_rules]: "no_panic m \<Longrightarrow> (\<And>x. m = Inr x \<Longrightarrow> no_panic (f x)) \<Longrightarrow> no_panic (bindR m f)"
  by (auto simp: no_panic_def bindR_eq_Inl)

lemma no_panic_wrapR [no_panic_rules]: "no_panic m \<Longrightarrow> no_panic (wrapR msg m)"
  by (cases m) (auto simp: no_panic_def wrapR_def)

lemma no_panic_if [no_panic_rules]: "(b \<Longrightarrow> no_panic m) \<Longrightarrow> (\<not> b \<Longrightarrow> no_panic n) \<Longrightarrow> no_panic (if b then m else n)"
  by simp

lemma no_panic_checked [no_panic_rules]: "no_panic (Add64 a b)" "no_panic (Mul64 a b)" "no_panic (mv_At xs i)"
  by (auto simp: no_panic_def Add64_cases Mul64_cases ErrAddOverflow_def ErrMulOverflow_def mv_At_def errIndex_def ErrOutOfBounds_def)

lemma no_panic_udiv: "b \<noteq> 0 \<Longrightarrow> no_panic (udiv a b)"
  by (simp add: no_panic_def)

lemma no_panic_foldR:
  assumes "\<And>x s. x \<in> set xs \<Longrightarrow> P s \<Longrightarrow> no_panic (f x s) \<and> (\<forall>s'. f x s = Inr s' \<longrightarrow> P s')" "P s"
  shows "no_panic (foldR f xs s)"
  using assms
proof (induction xs arbitrary: s)
  case (Cons x xs)
  then have "no_panic (f x s)" "\<And>s'. f x s = Inr s' \<Longrightarrow> no_panic (foldR f xs s')" by auto
  then show ?case by (auto intro: no_panic_bindR)
qed (simp add: no_panic_Inr)

lemma no_panic_mapR: "(\<And>x. x \<in> set xs \<Longrightarrow> no_panic (f x)) \<Longrightarrow> no_panic (mapR f xs)"
  by (induction xs) (auto intro!: no_panic_rules)

lemma no_panic_epochs:
  assumes "valid_config c"
  shows "no_panic (CurrentEpoch c s)" "no_panic (PrevEpoch c s)" "no_panic (EpochStart c e)" "no_panic (BlockRoot c s e)"
proof -
  show "no_panic (CurrentEpoch c s)" "no_panic (PrevEpoch c s)"
    using assms by (simp_all add: CurrentEpoch_ok PrevEpoch_ok no_panic_Inr)
  show start: "no_panic (EpochStart c e)"
    by (auto simp: no_panic_def EpochStart_def errOverflow_def ErrOverflow_def split: sum.splits)
  show "no_panic (BlockRoot c s e)"
    using assms unfolding BlockRoot_def BlockRootAtSlot_def BlockRootAtIndex_def
    by (intro no_panic_rules start) (auto simp: no_panic_def)
qed

lemma no_panic_justification:
  assumes "valid_config c" "bitvector4_laws B" "wf4 (bs_justificationBits s)"
  shows "no_panic (ProcessJustificationAndFinalizationPreCompute c B bp s)"
proof -
  let ?nb = "processJustificationBits B s (pb_ActiveCurrentEpoch bp) (pb_PrevEpochTargetAttested bp) (pb_CurrentEpochTargetAttested bp)"
  have "wf4 ?nb" using bitvector4_lawsD [OF assms(2)] assms(3) by (simp add: processJustificationBits_def Let_def)
  then have bytes: "length ?nb \<noteq> 0 \<longrightarrow> 0 < length (bv_Bytes B ?nb)" using bitvector4_lawsD(9) [OF assms(2)] by simp
  then have "no_panic (computeCheckpoints c B s ?nb)"
    unfolding computeCheckpoints_def Let_def by (intro no_panic_rules no_panic_epochs [OF assms(1)]) (auto simp: no_panic_def)
  then show ?thesis
    unfolding ProcessJustificationAndFinalizationPreCompute_def weighJustificationAndFinalization_def
      SetPreviousJustifiedCheckpoint_def SetCurrentJustifiedCheckpoint_def SetJustificationBits_def SetFinalizedCheckpoint_def
    by (intro no_panic_rules no_panic_epochs [OF assms(1)]) (auto intro!: no_panic_rules)
qed

lemma no_panic_inactivity:
  assumes "valid_config c" "length vals \<le> length (bs_inactivityScores s)"
  shows "no_panic (ProcessInactivityScores c s vals)"
proof -
  have step: "no_panic (foldR (inactivity_step c leak) (enumerate 0 vals) (bs_inactivityScores s, []))" for leak
  proof (rule no_panic_foldR [where P = "\<lambda>(scores, _). length scores = length (bs_inactivityScores s)"])
    fix x :: "nat \<times> PValidator" and st :: "u64 list \<times> PValidator list"
    assume x: "x \<in> set (enumerate 0 vals)" and st: "case st of (scores, _) \<Rightarrow> length scores = length (bs_inactivityScores s)"
    obtain i v scores ws where x': "x = (i, v)" "st = (scores, ws)" by (metis surj_pair)
    then have "i < length scores" using x st assms(2) by (auto simp: in_set_enumerate_eq)
    then have "no_panic (inactivity_step c leak x st)"
      unfolding x' inactivity_step_def inactivity_score_def by (auto intro!: no_panic_rules simp: no_panic_Inr)
    moreover have "case st' of (scores, _) \<Rightarrow> length scores = length (bs_inactivityScores s)"
      if "inactivity_step c leak x st = Inr st'" for st'
      using that st unfolding x' by (auto simp: inactivity_step_def split: if_splits)
    ultimately show "no_panic (inactivity_step c leak x st) \<and> (\<forall>st'. inactivity_step c leak x st = Inr st' \<longrightarrow>
        (case st' of (scores, _) \<Rightarrow> length scores = length (bs_inactivityScores s)))" by blast
  qed simp
  have "no_panic (InactivityScores s)" "no_panic (SetInactivityScores xs s)" for xs
    by (auto simp: InactivityScores_def SetInactivityScores_def errNotSupported_def intro!: no_panic_rules)
  then show ?thesis
    using step unfolding ProcessInactivityScores_def
    by (intro no_panic_rules no_panic_epochs [OF assms(1)]) (auto simp: InactivityScores_def intro!: no_panic_rules split: if_splits)
qed

lemma active_increment_nz: "10 ^ 9 \<le> unat (active :: u64) \<Longrightarrow> active div 1000000000 * 64 \<noteq> 0"
proof -
  assume "10 ^ 9 \<le> unat active"
  then have "1 \<le> unat active div 10 ^ 9" by (simp add: Suc_le_eq div_greater_zero_iff)
  moreover have "unat active div 10 ^ 9 * 64 < 2 ^ 64"
    using div_le_mono [OF less_imp_le [OF unat_u64_lt_num [of active]], of "10 ^ 9"] by simp
  then have "unat (active div 1000000000 * 64) = unat active div 10 ^ 9 * 64" by (subst unat_mult_u64) (simp_all add: unat_div_u64)
  ultimately show ?thesis by (metis mult_is_0 not_one_le_zero unat_0 zero_neq_numeral)
qed

lemma no_panic_rewards:
  assumes "reward_config c" "sqrt_cache_ok cache" "squareRoot cache \<noteq> 1" "10 ^ 9 \<le> unat (pb_ActiveCurrentEpoch bal)"
      and "bs_version s \<ge> Altair"
  shows "no_panic (ProcessRewardsAndPenaltiesPrecompute c cache s bal vals)"
proof -
  have c: "valid_config c" "EffectiveBalanceIncrement c = 1000000000" "WeightDenominator c = 64" using assms(1) by (simp_all add: reward_config_def)
  obtain root cache' where root: "CachedSquareRoot (pb_ActiveCurrentEpoch bal) cache = Inr (root, cache')"
      "is_isqrt (unat root) (unat (pb_ActiveCurrentEpoch bal))"
    using CachedSquareRoot_ok [OF assms(2)] assms(3) by blast
  then have nz: "root \<noteq> 0" using root_bounds(1) [OF root(2) assms(4)] by auto
  obtain den where den: "state_InactivityPenaltyQuotient c s = Inr den" "InactivityScoreBias c * den \<noteq> 0"
    using assms(1,5) by (cases "bs_version s \<ge> Bellatrix") (auto simp: state_InactivityPenaltyQuotient_def reward_config_def)
  have vote: "no_panic (vote_reward c leak b w att (pb_ActiveCurrentEpoch bal div 1000000000))" for leak b w att
    using active_increment_nz [OF assms(4)] unfolding vote_reward_def c by (intro no_panic_rules no_panic_udiv) simp_all
  have "no_panic (attestationDelta c bal v m (InactivityScoreBias c * den) leak)" for v m leak
    using den(2) vote unfolding attestationDelta_def Let_def c
    by (intro no_panic_rules no_panic_udiv) (auto intro!: no_panic_rules no_panic_udiv)
  then have "no_panic (AttestationsDelta c cache s bal vals)"
    unfolding AttestationsDelta_def root(1) den(1) Let_def bindR_Inr prod.case
    by (intro no_panic_rules no_panic_epochs [OF c(1)] no_panic_udiv no_panic_mapR nz) simp_all
  then show ?thesis
    unfolding ProcessRewardsAndPenaltiesPrecompute_def apply_delta_def IncreaseBalanceWithVal_def SetBalances_def
    by (intro no_panic_rules no_panic_epochs [OF c(1)]) (auto intro!: no_panic_rules no_panic_mapR)
qed

text \<open>C35: on a well-formed state the accounting half of the epoch transition never panics: precomputation, participation,
  justification and finalization, inactivity scores and rewards return a result or an error value, whatever the
  participation, the checkpoints, the block roots and the balances are.\<close>

theorem accounting_never_panics:
  assumes "reward_config c" "flags_ok c" "bitvector4_laws B" "registry_ok s" "wf4 (bs_justificationBits s)"
      and "sqrt_cache_ok cache" "squareRoot cache \<noteq> 1"
  shows "altair_ProcessEpoch_accounting c B cache s = Inl e \<Longrightarrow> \<not> is_panic e"
proof -
  have c: "valid_config c" "EffectiveBalanceIncrement c = 1000000000" using assms(1) by (simp_all add: reward_config_def)
  obtain cur prev where ep: "CurrentEpoch c s = Inr cur" "PrevEpoch c s = Inr prev" using CurrentEpoch_ok [OF c(1)] PrevEpoch_ok [OF c(1)] by blast
  let ?t = "epoch_totals c cur prev s" and ?v = "epoch_records c cur prev s"
  obtain vp bp where init: "InitializePrecomputeValidators c s = Inr (vp, bp)" "ProcessEpochParticipation c s bp vp = Inr (?v, ?t)"
    using precomputed [OF assms(4,2) ep] by blast
  have ver: "bs_version s \<ge> Altair" and len: "length ?v = length (bs_inactivityScores s)"
    using assms(4) by (simp_all add: registry_ok_def epoch_records_def)
  have act: "10 ^ 9 \<le> unat (pb_ActiveCurrentEpoch ?t)"
    by (simp add: epoch_totals_def EnsureBalancesLowerBound_def Let_def c(2) word_less_nat_alt)
  have inact: "no_panic (ProcessInactivityScores c s1 ?v)" if "frame s1 = frame s" for s1
    using that len by (intro no_panic_inactivity [OF c(1)]) (simp add: frame_def)
  have rew: "no_panic (ProcessRewardsAndPenaltiesPrecompute c cache s2 ?t vp')"
    if "ProcessInactivityScores c s1 ?v = Inr (s2, vp')" "frame s1 = frame s" for s1 s2 vp'
    using no_panic_rewards [OF assms(1,6,7) act] frame_inactivity [OF that(1)] that(2) ver by (simp add: frame_def)
  have "no_panic (altair_ProcessEpoch_accounting c B cache s)"
    unfolding altair_ProcessEpoch_accounting_def init bindR_Inr prod.case
    using inact rew
    by (intro no_panic_rules no_panic_justification [OF c(1) assms(3,5)])
      (auto intro!: no_panic_rules dest!: frame_justification split: prod.splits)
  then show "altair_ProcessEpoch_accounting c B cache s = Inl e \<Longrightarrow> \<not> is_panic e" by (simp add: no_panic_def)
qed

theorem accounting_never_panics_witness:
  "\<exists>e. altair_ProcessEpoch_accounting mainnetBeaconConfig bv4 cachedSquareRoot_init (state_late\<lparr>bs_blockRoots := []\<rparr>) = Inl e \<and>
     \<not> is_panic e"
proof -
  let ?s = "state_late\<lparr>bs_blockRoots := []\<rparr>"
  have "isl (altair_ProcessEpoch_accounting mainnetBeaconConfig bv4 cachedSquareRoot_init ?s)" by code_simp
  then obtain e where e: "altair_ProcessEpoch_accounting mainnetBeaconConfig bv4 cachedSquareRoot_init ?s = Inl e"
    unfolding isl_def by blast
  have "registry_ok ?s" "wf4 (bs_justificationBits ?s)" "squareRoot cachedSquareRoot_init \<noteq> 1"
    using registry_ok_late by (simp_all add: registry_ok_def wf4_def state_late_def cachedSquareRoot_init_def)
  then show ?thesis
    using accounting_never_panics [OF reward_config_mainnet flags_ok_mainnet bv4_laws _ _ sqrt_cache_ok_init _ e] e by blast
qed

end
