(* ===== verification/Fork_Choice.thy ===== *)
theory Fork_Choice
  imports Justification Bytesutil State_Result "HOL-Library.List_Lexorder"
begin

text \<open>
  \<^verbatim>\<open>src/beacon-chain/forkchoice/doubly-linked-tree\<close>. The nodes of the tree are shared by pointer; a pointer is
  the position of the node in \<open>st_heap\<close>, which only grows, and \<^verbatim>\<open>nil\<close> is \<open>None\<close>. The entries of \<^verbatim>\<open>nodeByRoot\<close>
  and of \<^verbatim>\<open>children\<close> are never \<^verbatim>\<open>nil\<close>, because nothing in the package stores one. Contexts are never cancelled,
  the clock does not advance during an operation, and \<^verbatim>\<open>BalancesByRoot\<close>, a callback into the blockchain
  service, is an argument. A recursion deeper than the number of nodes is a cycle, which Go ends with a
  stack overflow.
\<close>

section \<open>Types\<close>

type_synonym addr = nat

record Node =
  n_slot :: Slot
  n_root :: root
  n_payloadHash :: root
  n_parent :: "addr option"
  n_target :: "addr option"
  n_children :: "addr list"
  n_justifiedEpoch :: Epoch
  n_unrealizedJustifiedEpoch :: Epoch
  n_finalizedEpoch :: Epoch
  n_unrealizedFinalizedEpoch :: Epoch
  n_balance :: u64
  n_weight :: u64
  n_bestDescendant :: "addr option"
  n_optimistic :: bool
  n_timestamp :: Time

record Store =
  st_heap :: "Node list"
  st_justifiedCheckpoint :: Checkpoint
  st_unrealizedJustifiedCheckpoint :: Checkpoint
  st_unrealizedFinalizedCheckpoint :: Checkpoint
  st_prevJustifiedCheckpoint :: Checkpoint
  st_finalizedCheckpoint :: Checkpoint
  st_proposerBoostRoot :: root
  st_previousProposerBoostRoot :: root
  st_previousProposerBoostScore :: u64
  st_finalizedDependentRoot :: root
  st_committeeWeight :: u64
  st_treeRootNode :: "addr option"
  st_headNode :: "addr option"
  st_nodeByRoot :: "root \<Rightarrow> addr option"
  st_slashedIndices :: "ValidatorIndex set"
  st_originRoot :: root
  st_genesisTime :: Time
  st_highestReceivedNode :: "addr option"
  st_receivedBlocksLastEpoch :: "Slot list"
  st_allTipsAreInvalid :: bool

record Vote =
  vt_currentRoot :: root
  vt_nextRoot :: root
  vt_nextEpoch :: Epoch

record ForkChoice =
  fc_store :: Store
  fc_votes :: "Vote list"
  fc_balances :: "u64 list"
  fc_justifiedBalances :: "u64 list"
  fc_numActiveValidators :: u64

text \<open>What fork choice reads of a block.\<close>

record ROBlock =
  bk_root :: root
  bk_slot :: Slot
  bk_parentRoot :: root
  bk_version :: int
  bk_blockHash :: "bytes result"

definition ZeroHash :: root where
  "ZeroHash = replicate 32 0"

definition zero_Checkpoint :: Checkpoint where
  "zero_Checkpoint = \<lparr>cp_Epoch = 0, cp_Root = ZeroHash\<rparr>"

definition ErrNilNode :: error where "ErrNilNode = Err ''invalid nil or unknown node''"
definition errInvalidParentRoot :: error where "errInvalidParentRoot = Err ''invalid parent root''"
definition errUnknownFinalizedRoot :: error where "errUnknownFinalizedRoot = Err ''unknown finalized root''"
definition errUnknownJustifiedRoot :: error where "errUnknownJustifiedRoot = Err ''unknown justified root''"
definition errInvalidOptimisticStatus :: error where "errInvalidOptimisticStatus = Err ''invalid optimistic status''"
definition errInvalidUnrealizedJustifiedEpoch :: error where
  "errInvalidUnrealizedJustifiedEpoch = Err ''invalid unrealized justified epoch''"
definition errInvalidUnrealizedFinalizedEpoch :: error where
  "errInvalidUnrealizedFinalizedEpoch = Err ''invalid unrealized finalized epoch''"

definition nilDeref :: error where
  "nilDeref = Panic ''invalid memory address or nil pointer dereference''"

definition stackOverflow :: error where
  "stackOverflow = Panic ''stack overflow''"

definition deref :: "addr option \<Rightarrow> addr result" where
  "deref p = (case p of None \<Rightarrow> Inl nilDeref | Some a \<Rightarrow> Inr a)"

definition forkchoice_New :: ForkChoice where
  "forkchoice_New = \<lparr>fc_store = \<lparr>st_heap = [], st_justifiedCheckpoint = zero_Checkpoint,
       st_unrealizedJustifiedCheckpoint = zero_Checkpoint, st_unrealizedFinalizedCheckpoint = zero_Checkpoint,
       st_prevJustifiedCheckpoint = zero_Checkpoint, st_finalizedCheckpoint = zero_Checkpoint,
       st_proposerBoostRoot = ZeroHash, st_previousProposerBoostRoot = ZeroHash, st_previousProposerBoostScore = 0,
       st_finalizedDependentRoot = ZeroHash, st_committeeWeight = 0, st_treeRootNode = None, st_headNode = None,
       st_nodeByRoot = Map.empty, st_slashedIndices = {}, st_originRoot = ZeroHash, st_genesisTime = 0,
       st_highestReceivedNode = None, st_receivedBlocksLastEpoch = replicate 32 0, st_allTipsAreInvalid = False\<rparr>,
     fc_votes = [], fc_balances = [], fc_justifiedBalances = [], fc_numActiveValidators = 0\<rparr>"

section \<open>Nodes\<close>

fun applyWeightChanges :: "nat \<Rightarrow> addr \<Rightarrow> Node list \<Rightarrow> Node list result" where
  "applyWeightChanges 0 n h = Inl stackOverflow"
| "applyWeightChanges (Suc depth) n h =
     bindR (foldR (\<lambda>child (h, childrenWeight).
              bindR (applyWeightChanges depth child h) (\<lambda>h. Inr (h, childrenWeight + n_weight (h ! child))))
            (n_children (h ! n)) (h, 0)) (\<lambda>(h, childrenWeight).
     if n_root (h ! n) = ZeroHash then Inr h
     else Inr (h[n := (h ! n)\<lparr>n_weight := n_balance (h ! n) + childrenWeight\<rparr>]))"

definition viableForHead :: "Epoch \<Rightarrow> Epoch \<Rightarrow> Node \<Rightarrow> bool" where
  "viableForHead justifiedEpoch currentEpoch n \<longleftrightarrow>
     (if justifiedEpoch = 0 then True
      else n_justifiedEpoch n = justifiedEpoch \<or> n_justifiedEpoch n + 2 \<ge> currentEpoch)"

definition leadsToViableHead :: "Epoch \<Rightarrow> Epoch \<Rightarrow> Node list \<Rightarrow> addr \<Rightarrow> bool" where
  "leadsToViableHead justifiedEpoch currentEpoch h n =
     (case n_bestDescendant (h ! n) of None \<Rightarrow> viableForHead justifiedEpoch currentEpoch (h ! n)
      | Some d \<Rightarrow> viableForHead justifiedEpoch currentEpoch (h ! d))"

text \<open>The best child so far with its weight; \<^verbatim>\<open>hasViableDescendant\<close> is set when there is one. \<^verbatim>\<open>bytes.Compare\<close>
  is the lexicographic order.\<close>

definition better_child :: "Node list \<Rightarrow> addr \<Rightarrow> (addr \<times> u64) option \<Rightarrow> (addr \<times> u64) option" where
  "better_child h child best =
     (case best of None \<Rightarrow> Some (child, n_weight (h ! child))
      | Some (bestChild, bestWeight) \<Rightarrow>
          if n_weight (h ! child) = bestWeight
          then if n_root (h ! child) > n_root (h ! bestChild) then Some (child, bestWeight) else best
          else if n_weight (h ! child) > bestWeight then Some (child, n_weight (h ! child)) else best)"

fun updateBestDescendant :: "nat \<Rightarrow> Epoch \<Rightarrow> Epoch \<Rightarrow> addr \<Rightarrow> Node list \<Rightarrow> Node list result" where
  "updateBestDescendant 0 justifiedEpoch currentEpoch n h = Inl stackOverflow"
| "updateBestDescendant (Suc depth) justifiedEpoch currentEpoch n h =
     (if n_children (h ! n) = [] then Inr (h[n := (h ! n)\<lparr>n_bestDescendant := None\<rparr>])
      else bindR (foldR (\<lambda>child (h, best).
             bindR (updateBestDescendant depth justifiedEpoch currentEpoch child h) (\<lambda>h.
             Inr (h, if leadsToViableHead justifiedEpoch currentEpoch h child then better_child h child best else best)))
           (n_children (h ! n)) (h, None)) (\<lambda>(h, best).
      Inr (h[n := (h ! n)\<lparr>n_bestDescendant :=
             (case best of None \<Rightarrow> None
              | Some (bestChild, _) \<Rightarrow>
                  (case n_bestDescendant (h ! bestChild) of None \<Rightarrow> Some bestChild | Some d \<Rightarrow> Some d))\<rparr>])))"

definition optimistic_count :: "Node list \<Rightarrow> nat" where
  "optimistic_count h = length (filter n_optimistic h)"

lemma optimistic_count_clear:
  "n < length h \<Longrightarrow> n_optimistic (h ! n) \<Longrightarrow> optimistic_count (h[n := (h ! n)\<lparr>n_optimistic := False\<rparr>]) < optimistic_count h"
proof -
  assume n: "n < length h" "n_optimistic (h ! n)"
  have "filter n_optimistic h = filter n_optimistic (take n h @ h ! n # drop (Suc n) h)"
    using arg_cong [OF id_take_nth_drop [OF n(1)]] .
  then show ?thesis using n by (simp add: optimistic_count_def upd_conv_take_nth_drop)
qed

function setNodeAndParentValidated :: "addr \<Rightarrow> Node list \<Rightarrow> Node list" where
  "setNodeAndParentValidated n h =
     (if n < length h \<and> n_optimistic (h ! n)
      then let h' = h[n := (h ! n)\<lparr>n_optimistic := False\<rparr>] in
           (case n_parent (h ! n) of None \<Rightarrow> h' | Some p \<Rightarrow> setNodeAndParentValidated p h')
      else h)"
  by pat_completeness auto
termination
  by (relation "measure (\<lambda>(n, h). optimistic_count h)") (auto intro: optimistic_count_clear)

definition ProcessAttestationsThreshold :: int where
  "ProcessAttestationsThreshold = 10 * 1000000000"

text \<open>\<^verbatim>\<open>Truncate(time.Second)\<close>.\<close>

definition truncateSecond :: "Time \<Rightarrow> Time" where
  "truncateSecond t = t - t mod 1000000000"

definition arrivedEarly :: "BeaconChainConfig \<Rightarrow> Time \<Rightarrow> Node \<Rightarrow> bool result" where
  "arrivedEarly c genesis n =
     bindR (SinceSlotStart c (n_slot n) genesis (truncateSecond (n_timestamp n))) (\<lambda>sss.
     bindR (AttestationDueAt c (n_slot n)) (\<lambda>votingWindow. Inr (sss < votingWindow)))"

definition arrivedAfterOrphanCheck :: "BeaconChainConfig \<Rightarrow> Time \<Rightarrow> Node \<Rightarrow> bool result" where
  "arrivedAfterOrphanCheck c genesis n =
     bindR (SinceSlotStart c (n_slot n) genesis (truncateSecond (n_timestamp n))) (\<lambda>secs.
     Inr (secs \<ge> ProcessAttestationsThreshold))"

section \<open>The store\<close>

text \<open>A write to the node at an address.\<close>

definition node_update :: "addr \<Rightarrow> (Node \<Rightarrow> Node) \<Rightarrow> Store \<Rightarrow> Store" where
  "node_update a f s = s\<lparr>st_heap := (st_heap s)[a := f (st_heap s ! a)]\<rparr>"

definition known_node :: "root \<Rightarrow> error \<Rightarrow> (Store, addr) state_result" where
  "known_node r e = bindS (readS (\<lambda>s. st_nodeByRoot s r)) (\<lambda>n. case n of None \<Rightarrow> liftS (Inl e) | Some a \<Rightarrow> returnS a)"

definition store_head :: "BeaconChainConfig \<Rightarrow> Time \<Rightarrow> (Store, root) state_result" where
  "store_head c now =
     bindS (readS id) (\<lambda>s.
     bindS (case st_nodeByRoot s (cp_Root (st_justifiedCheckpoint s)) of Some a \<Rightarrow> returnS a
            | None \<Rightarrow> if cp_Epoch (st_justifiedCheckpoint s) = GenesisEpoch c
                     then liftS (deref (st_treeRootNode s))
                     else liftS (Inl errUnknownJustifiedRoot)) (\<lambda>justifiedNode.
     let best = (case n_bestDescendant (st_heap s ! justifiedNode) of None \<Rightarrow> justifiedNode | Some d \<Rightarrow> d) in
     bindS (liftS (EpochsSinceGenesis c now (st_genesisTime s))) (\<lambda>currentEpoch.
     if \<not> viableForHead (cp_Epoch (st_justifiedCheckpoint s)) currentEpoch (st_heap s ! best)
     then bindS (modifyS (\<lambda>s. s\<lparr>st_allTipsAreInvalid := True\<rparr>)) (\<lambda>_. liftS (Inl (Err ''head is not eligible'')))
     else bindS (modifyS (\<lambda>s. s\<lparr>st_allTipsAreInvalid := False, st_headNode := Some best\<rparr>)) (\<lambda>_.
          returnS (n_root (st_heap s ! best))))))"

text \<open>\<^verbatim>\<open>updateBestDescendant\<close> from the root of the tree. Its error, a nil child, cannot occur here, and with it
  the removal of the new node.\<close>

definition updateBest_from_root :: "Epoch \<Rightarrow> Epoch \<Rightarrow> (Store, unit) state_result" where
  "updateBest_from_root justifiedEpoch currentEpoch =
     bindS (readS id) (\<lambda>s.
     bindS (liftS (deref (st_treeRootNode s))) (\<lambda>r.
     bindS (liftS (updateBestDescendant (length (st_heap s)) justifiedEpoch currentEpoch r (st_heap s))) (\<lambda>h.
     modifyS (\<lambda>s. s\<lparr>st_heap := h\<rparr>))))"

definition target_of :: "BeaconChainConfig \<Rightarrow> Node list \<Rightarrow> Slot \<Rightarrow> addr option \<Rightarrow> addr option result" where
  "target_of c h slot parent =
     bindR (umod slot (SlotsPerEpoch c)) (\<lambda>r.
     if r = 0 then Inr (Some (length h))
     else case parent of None \<Rightarrow> Inr None
       | Some p \<Rightarrow> bindR (ToEpoch c slot) (\<lambda>e.
                   bindR (ToEpoch c (n_slot (h ! p))) (\<lambda>pe.
                   Inr (if e = pe then n_target (h ! p) else Some p))))"

text \<open>The end of \<^verbatim>\<open>insert\<close>: the slots received in the last epoch and the highest slot.\<close>

definition track_received :: "BeaconChainConfig \<Rightarrow> Time \<Rightarrow> Slot \<Rightarrow> addr \<Rightarrow> (Store, addr) state_result" where
  "track_received c now slot n =
     bindS (readS id) (\<lambda>s.
     bindS (liftS (CurrentSlot c now (st_genesisTime s))) (\<lambda>currentSlot.
     bindS (if slot + SlotsPerEpoch c > currentSlot
            then bindS (liftS (umod slot (SlotsPerEpoch c))) (\<lambda>i.
                 bindS (liftS (idx (st_receivedBlocksLastEpoch s) (unat i))) (\<lambda>_.
                 modifyS (\<lambda>s. s\<lparr>st_receivedBlocksLastEpoch := (st_receivedBlocksLastEpoch s)[unat i := slot]\<rparr>)))
            else returnS ()) (\<lambda>_.
     bindS (liftS (deref (st_highestReceivedNode s))) (\<lambda>highest.
     bindS (if slot > n_slot (st_heap s ! highest)
            then modifyS (\<lambda>s. s\<lparr>st_highestReceivedNode := Some n\<rparr>) else returnS ()) (\<lambda>_.
     returnS n)))))"

definition store_insert ::
    "BeaconChainConfig \<Rightarrow> Time \<Rightarrow> ROBlock \<Rightarrow> Epoch \<Rightarrow> Epoch \<Rightarrow> (Store, addr) state_result" where
  "store_insert c now blk justifiedEpoch finalizedEpoch =
     (let slot = bk_slot blk; root = bk_root blk in
      bindS (if bk_version blk \<ge> Bellatrix
             then bindS (liftS (bk_blockHash blk)) (\<lambda>hash. returnS (ToBytes32 hash))
             else returnS ZeroHash) (\<lambda>payloadHash.
      bindS (readS id) (\<lambda>s.
      case st_nodeByRoot s root of Some n \<Rightarrow> returnS n
      | None \<Rightarrow>
        let parent = st_nodeByRoot s (bk_parentRoot blk); n = length (st_heap s) in
        bindS (liftS (target_of c (st_heap s) slot parent)) (\<lambda>target.
        bindS (modifyS (\<lambda>s. s\<lparr>st_heap := st_heap s @ [\<lparr>n_slot = slot, n_root = root, n_payloadHash = payloadHash,
                  n_parent = parent, n_target = target, n_children = [], n_justifiedEpoch = justifiedEpoch,
                  n_unrealizedJustifiedEpoch = justifiedEpoch, n_finalizedEpoch = finalizedEpoch,
                  n_unrealizedFinalizedEpoch = finalizedEpoch, n_balance = 0, n_weight = 0, n_bestDescendant = None,
                  n_optimistic = True, n_timestamp = now\<rparr>],
                st_nodeByRoot := (st_nodeByRoot s)(root \<mapsto> n)\<rparr>)) (\<lambda>_.
        case parent of
          None \<Rightarrow>
            if st_treeRootNode s = None
            then bindS (modifyS (\<lambda>s. s\<lparr>st_treeRootNode := Some n, st_headNode := Some n, st_highestReceivedNode := Some n\<rparr>))
                   (\<lambda>_. track_received c now slot n)
            else bindS (modifyS (\<lambda>s. s\<lparr>st_nodeByRoot := (st_nodeByRoot s)(root := None)\<rparr>))
                   (\<lambda>_. liftS (Inl errInvalidParentRoot))
        | Some p \<Rightarrow>
            bindS (modifyS (node_update p (\<lambda>x. x\<lparr>n_children := n_children x @ [n]\<rparr>))) (\<lambda>_.
            if now < st_genesisTime s then returnS n
            else bindS (liftS (CurrentSlot c now (st_genesisTime s))) (\<lambda>currentSlot.
                 bindS (wrapS ''could not determine time since current slot started''
                          (liftS (SinceSlotStart c currentSlot (st_genesisTime s) now))) (\<lambda>sss.
                 bindS (liftS (AttestationDueAt c currentSlot)) (\<lambda>boostThreshold.
                 bindS (if currentSlot = slot \<and> sss < boostThreshold \<and> st_proposerBoostRoot s = ZeroHash
                        then modifyS (\<lambda>s. s\<lparr>st_proposerBoostRoot := root\<rparr>) else returnS ()) (\<lambda>_.
                 bindS (liftS (ToEpoch c currentSlot)) (\<lambda>currentEpoch.
                 bindS (updateBest_from_root (cp_Epoch (st_justifiedCheckpoint s)) currentEpoch) (\<lambda>_.
                 track_received c now slot n))))))))))))"

fun pruneFinalizedNodeByRootMap :: "nat \<Rightarrow> addr \<Rightarrow> addr \<Rightarrow> Store \<Rightarrow> Store result" where
  "pruneFinalizedNodeByRootMap 0 node finalizedNode s = Inl stackOverflow"
| "pruneFinalizedNodeByRootMap (Suc depth) node finalizedNode s =
     (if node = finalizedNode
      then Inr (if n_target (st_heap s ! node) \<noteq> Some node then node_update node (\<lambda>x. x\<lparr>n_target := None\<rparr>) s else s)
      else bindR (foldR (\<lambda>child. pruneFinalizedNodeByRootMap depth child finalizedNode) (n_children (st_heap s ! node)) s) (\<lambda>s.
           let s' = node_update node (\<lambda>x. x\<lparr>n_children := []\<rparr>) s in
           Inr (s'\<lparr>st_nodeByRoot := (st_nodeByRoot s')(n_root (st_heap s' ! node) := None)\<rparr>)))"

definition prune_from :: "addr \<Rightarrow> addr \<Rightarrow> (Store, unit) state_result" where
  "prune_from node finalizedNode =
     bindS (readS id) (\<lambda>s.
     bindS (liftS (pruneFinalizedNodeByRootMap (length (st_heap s)) node finalizedNode s)) (\<lambda>s'.
     modifyS (\<lambda>_. s')))"

definition store_prune :: "BeaconChainConfig \<Rightarrow> (Store, unit) state_result" where
  "store_prune c =
     bindS (readS st_finalizedCheckpoint) (\<lambda>fin.
     bindS (known_node (cp_Root fin) errUnknownFinalizedRoot) (\<lambda>finalizedNode.
     bindS (readS id) (\<lambda>s.
     case n_parent (st_heap s ! finalizedNode) of None \<Rightarrow> returnS ()
     | Some p \<Rightarrow>
         bindS (modifyS (\<lambda>s. s\<lparr>st_finalizedDependentRoot := n_root (st_heap s ! p)\<rparr>)) (\<lambda>_.
         bindS (liftS (deref (st_treeRootNode s))) (\<lambda>treeRoot.
         bindS (prune_from treeRoot finalizedNode) (\<lambda>_.
         bindS (modifyS (\<lambda>s. (node_update finalizedNode (\<lambda>x. x\<lparr>n_parent := None\<rparr>) s)\<lparr>st_treeRootNode := Some finalizedNode\<rparr>)) (\<lambda>_.
         bindS (wrapS ''could not compute epoch start'' (liftS (EpochStart c (cp_Epoch fin)))) (\<lambda>checkpointMaxSlot.
         bindS (readS id) (\<lambda>s.
         if n_slot (st_heap s ! finalizedNode) = checkpointMaxSlot then returnS ()
         else forS (\<lambda>child. bindS (readS id) (\<lambda>s.
                if n_slot (st_heap s ! child) \<le> checkpointMaxSlot
                then wrapS ''could not prune incompatible finalized child'' (prune_from child finalizedNode)
                else returnS ())) (n_children (st_heap s ! finalizedNode)))))))))))"

text \<open>The nodes of \<^verbatim>\<open>nodeByRoot\<close>. Go ranges over a map in an unspecified order, so what depends on it takes
  the order as an argument.\<close>

definition live_nodes :: "Store \<Rightarrow> addr list" where
  "live_nodes s = filter (\<lambda>a. st_nodeByRoot s (n_root (st_heap s ! a)) = Some a) [0..<length (st_heap s)]"

definition store_tips :: "addr list \<Rightarrow> Store \<Rightarrow> root list \<times> Slot list" where
  "store_tips order s =
     (let leaves = filter (\<lambda>a. n_children (st_heap s ! a) = []) order
      in (map (\<lambda>a. n_root (st_heap s ! a)) leaves, map (\<lambda>a. n_slot (st_heap s ! a)) leaves))"

fun removeNodeAndChildren :: "nat \<Rightarrow> addr \<Rightarrow> root list \<times> Store \<Rightarrow> (root list \<times> Store) result" where
  "removeNodeAndChildren 0 node r = Inl stackOverflow"
| "removeNodeAndChildren (Suc depth) node r =
     bindR (foldR (removeNodeAndChildren depth) (n_children (st_heap (snd r) ! node)) r) (\<lambda>(invalidRoots, s).
     let root = n_root (st_heap s ! node);
         s1 = (if root = st_proposerBoostRoot s then s\<lparr>st_proposerBoostRoot := ZeroHash\<rparr> else s);
         s2 = (if root = st_previousProposerBoostRoot s1
               then s1\<lparr>st_previousProposerBoostRoot := ZeroHash, st_previousProposerBoostScore := 0\<rparr> else s1)
     in Inr (invalidRoots @ [root], s2\<lparr>st_nodeByRoot := (st_nodeByRoot s2)(root := None)\<rparr>))"

text \<open>The removal of a child: the last child takes its place.\<close>

definition remove_child :: "addr \<Rightarrow> addr list \<Rightarrow> addr list" where
  "remove_child node children =
     (if length children = 1 then []
      else case filter (\<lambda>i. children ! i = node) [0..<length children] of [] \<Rightarrow> children
           | i # _ \<Rightarrow> butlast (children[i := last children]))"

definition removeNode :: "addr \<Rightarrow> (Store, root list) state_result" where
  "removeNode node =
     bindS (readS id) (\<lambda>s.
     case n_parent (st_heap s ! node) of None \<Rightarrow> liftS (Inl errInvalidOptimisticStatus)
     | Some p \<Rightarrow>
         if \<not> n_optimistic (st_heap s ! node) then liftS (Inl errInvalidOptimisticStatus)
         else bindS (modifyS (node_update p (\<lambda>x. x\<lparr>n_children := remove_child node (n_children x)\<rparr>))) (\<lambda>_.
              bindS (readS id) (\<lambda>s.
              bindS (liftS (removeNodeAndChildren (length (st_heap s)) node ([], s))) (\<lambda>(invalidRoots, s').
              bindS (modifyS (\<lambda>_. s')) (\<lambda>_. returnS invalidRoots)))))"

text \<open>The search for the first invalid ancestor.\<close>

partial_function (option) first_invalid :: "Node list \<Rightarrow> root \<Rightarrow> addr \<Rightarrow> addr option" where
  "first_invalid h lastValidHash n =
     (case n_parent (h ! n) of None \<Rightarrow> Some n
      | Some p \<Rightarrow> if n_payloadHash (h ! p) \<noteq> lastValidHash then first_invalid h lastValidHash p else Some n)"

definition setOptimisticToInvalid :: "root \<Rightarrow> root \<Rightarrow> root \<Rightarrow> Store \<Rightarrow> (root list result \<times> Store) option" where
  "setOptimisticToInvalid root parentRoot lastValidHash s =
     (let from_node = (\<lambda>node.
            case first_invalid (st_heap s) lastValidHash node of None \<Rightarrow> None
            | Some firstInvalid \<Rightarrow>
                if n_parent (st_heap s ! firstInvalid) = None
                then if n_root (st_heap s ! node) = parentRoot then Some (Inr [], s) else Some (removeNode node s)
                else Some (removeNode firstInvalid s)) in
      case st_nodeByRoot s root of
        None \<Rightarrow> (case st_nodeByRoot s parentRoot of None \<Rightarrow> Some (Inl (Wrap ''could not set node to invalid'' ErrNilNode), s)
                | Some node \<Rightarrow> if n_payloadHash (st_heap s ! node) = lastValidHash then Some (Inr [], s) else from_node node)
      | Some node \<Rightarrow> (case n_parent (st_heap s ! node) of None \<Rightarrow> Some (Inl nilDeref, s)
                     | Some p \<Rightarrow> if n_root (st_heap s ! p) \<noteq> parentRoot then Some (Inl errInvalidParentRoot, s)
                                else from_node node))"

definition setUnrealizedJustifiedEpoch :: "root \<Rightarrow> Epoch \<Rightarrow> (Store, unit) state_result" where
  "setUnrealizedJustifiedEpoch root epoch =
     bindS (known_node root (Wrap ''could not set unrealized justified epoch'' ErrNilNode)) (\<lambda>a.
     bindS (readS id) (\<lambda>s.
     if epoch < n_unrealizedJustifiedEpoch (st_heap s ! a) then liftS (Inl errInvalidUnrealizedJustifiedEpoch)
     else modifyS (node_update a (\<lambda>x. x\<lparr>n_unrealizedJustifiedEpoch := epoch\<rparr>))))"

definition setUnrealizedFinalizedEpoch :: "root \<Rightarrow> Epoch \<Rightarrow> (Store, unit) state_result" where
  "setUnrealizedFinalizedEpoch root epoch =
     bindS (known_node root (Wrap ''could not set unrealized finalized epoch'' ErrNilNode)) (\<lambda>a.
     bindS (readS id) (\<lambda>s.
     if epoch < n_unrealizedFinalizedEpoch (st_heap s ! a) then liftS (Inl errInvalidUnrealizedFinalizedEpoch)
     else modifyS (node_update a (\<lambda>x. x\<lparr>n_unrealizedFinalizedEpoch := epoch\<rparr>))))"

text \<open>\<^verbatim>\<open>pullTips\<close>: an error of \<^verbatim>\<open>UnrealizedCheckpoints\<close> is logged and the state's checkpoints are used.\<close>

definition unrealized_or :: "BeaconChainConfig \<Rightarrow> bitvector4_ops \<Rightarrow> BeaconState \<Rightarrow> Checkpoint \<times> Checkpoint
    \<Rightarrow> (Checkpoint \<times> Checkpoint) result" where
  "unrealized_or c B state d =
     (case UnrealizedCheckpoints c B state of Inr u \<Rightarrow> Inr u | Inl e \<Rightarrow> if is_panic e then Inl e else Inr d)"

definition pullTips ::
    "BeaconChainConfig \<Rightarrow> bitvector4_ops \<Rightarrow> Time \<Rightarrow> BeaconState \<Rightarrow> addr \<Rightarrow> Checkpoint \<Rightarrow> Checkpoint
       \<Rightarrow> (Store, Checkpoint \<times> Checkpoint) state_result" where
  "pullTips c B now state node jc fc =
     bindS (readS id) (\<lambda>s.
     case n_parent (st_heap s ! node) of None \<Rightarrow> returnS (jc, fc)
     | Some p \<Rightarrow>
       bindS (liftS (CurrentSlot c now (st_genesisTime s))) (\<lambda>currentSlot.
       bindS (liftS (ToEpoch c currentSlot)) (\<lambda>currentEpoch.
       bindS (liftS (ToEpoch c (bs_slot state))) (\<lambda>stateEpoch.
       bindS (liftS (SinceEpochStarts c (bs_slot state))) (\<lambda>since.
       let parent = st_heap s ! p;
           currJustified = (n_unrealizedJustifiedEpoch parent = currentEpoch);
           prevJustified = (n_unrealizedJustifiedEpoch parent + 1 = currentEpoch);
           tooEarlyForCurr = (since * 3 < SlotsPerEpoch c * 2) in
       if currJustified \<or> (stateEpoch = currentEpoch \<and> prevJustified \<and> tooEarlyForCurr)
       then bindS (modifyS (node_update node (\<lambda>x. x\<lparr>n_unrealizedJustifiedEpoch := n_unrealizedJustifiedEpoch parent,
                n_unrealizedFinalizedEpoch := n_unrealizedFinalizedEpoch parent\<rparr>))) (\<lambda>_. returnS (jc, fc))
       else bindS (liftS (unrealized_or c B state (jc, fc))) (\<lambda>(uj, uf).
            let ujc = \<lparr>cp_Epoch = cp_Epoch uj, cp_Root = ToBytes32 (cp_Root uj)\<rparr>;
                ufc = \<lparr>cp_Epoch = cp_Epoch uf, cp_Root = ToBytes32 (cp_Root uf)\<rparr> in
            bindS (modifyS (\<lambda>s. if cp_Epoch uj > cp_Epoch (st_unrealizedJustifiedCheckpoint s)
                     then s\<lparr>st_unrealizedJustifiedCheckpoint := ujc\<rparr> else s)) (\<lambda>_.
            bindS (modifyS (\<lambda>s. if cp_Epoch uf > cp_Epoch (st_unrealizedFinalizedCheckpoint s)
                     then s\<lparr>st_unrealizedJustifiedCheckpoint := ujc, st_unrealizedFinalizedCheckpoint := ufc\<rparr> else s)) (\<lambda>_.
            bindS (modifyS (node_update node (\<lambda>x. x\<lparr>n_unrealizedJustifiedEpoch := cp_Epoch uj,
                     n_unrealizedFinalizedEpoch := cp_Epoch uf\<rparr>))) (\<lambda>_.
            if stateEpoch < currentEpoch
            then bindS (modifyS (node_update node (\<lambda>x. x\<lparr>n_justifiedEpoch := cp_Epoch uj, n_finalizedEpoch := cp_Epoch uf\<rparr>)))
                   (\<lambda>_. returnS (uj, uf))
            else returnS (jc, fc))))))))))"

section \<open>ForkChoice\<close>

definition onStore :: "(Store, 'a) state_result \<Rightarrow> (ForkChoice, 'a) state_result" where
  "onStore m f = (case m (fc_store f) of (r, s) \<Rightarrow> (r, f\<lparr>fc_store := s\<rparr>))"

definition updateJustifiedBalances ::
    "BeaconChainConfig \<Rightarrow> (root \<Rightarrow> u64 list result) \<Rightarrow> root \<Rightarrow> (ForkChoice, unit) state_result" where
  "updateJustifiedBalances c balancesByRoot root =
     bindS (wrapS ''could not get justified balances'' (liftS (balancesByRoot root))) (\<lambda>balances.
     let positive = filter (\<lambda>val. val > 0) balances in
     bindS (liftS (udiv (fold (\<lambda>val acc. acc + val) positive 0) (SlotsPerEpoch c))) (\<lambda>weight.
     modifyS (\<lambda>f. f\<lparr>fc_justifiedBalances := balances, fc_numActiveValidators := of_nat (length positive),
       fc_store := (fc_store f)\<lparr>st_committeeWeight := weight\<rparr>\<rparr>)))"

definition realize_node ::
    "BeaconChainConfig \<Rightarrow> (root \<Rightarrow> u64 list result) \<Rightarrow> addr \<Rightarrow> (ForkChoice, unit) state_result" where
  "realize_node c balancesByRoot a =
     bindS (onStore (modifyS (node_update a (\<lambda>x. x\<lparr>n_justifiedEpoch := n_unrealizedJustifiedEpoch x,
              n_finalizedEpoch := n_unrealizedFinalizedEpoch x\<rparr>)))) (\<lambda>_.
     bindS (readS fc_store) (\<lambda>s.
     bindS (if n_justifiedEpoch (st_heap s ! a) > cp_Epoch (st_justifiedCheckpoint s)
            then bindS (onStore (modifyS (\<lambda>s. s\<lparr>st_prevJustifiedCheckpoint := st_justifiedCheckpoint s,
                          st_justifiedCheckpoint := st_unrealizedJustifiedCheckpoint s\<rparr>))) (\<lambda>_.
                 wrapS ''could not update justified balances''
                   (updateJustifiedBalances c balancesByRoot (cp_Root (st_unrealizedJustifiedCheckpoint s))))
            else returnS ()) (\<lambda>_.
     if n_finalizedEpoch (st_heap s ! a) > cp_Epoch (st_finalizedCheckpoint s)
     then onStore (modifyS (\<lambda>s. s\<lparr>st_finalizedCheckpoint := st_unrealizedFinalizedCheckpoint s\<rparr>))
     else returnS ())))"

definition updateUnrealizedCheckpoints ::
    "BeaconChainConfig \<Rightarrow> (root \<Rightarrow> u64 list result) \<Rightarrow> addr list \<Rightarrow> (ForkChoice, unit) state_result" where
  "updateUnrealizedCheckpoints c balancesByRoot order = forS (realize_node c balancesByRoot) order"

definition NewSlot ::
    "BeaconChainConfig \<Rightarrow> (root \<Rightarrow> u64 list result) \<Rightarrow> addr list \<Rightarrow> Slot \<Rightarrow> (ForkChoice, unit) state_result" where
  "NewSlot c balancesByRoot order slot =
     bindS (onStore (modifyS (\<lambda>s. s\<lparr>st_proposerBoostRoot := ZeroHash\<rparr>))) (\<lambda>_.
     bindS (liftS (IsEpochStart c slot)) (\<lambda>start.
     if \<not> start then returnS ()
     else bindS (wrapS ''could not update unrealized checkpoints'' (updateUnrealizedCheckpoints c balancesByRoot order)) (\<lambda>_.
          onStore (store_prune c))))"

definition updateCheckpoints ::
    "BeaconChainConfig \<Rightarrow> (root \<Rightarrow> u64 list result) \<Rightarrow> Checkpoint \<Rightarrow> Checkpoint \<Rightarrow> (ForkChoice, unit) state_result" where
  "updateCheckpoints c balancesByRoot jc fc =
     bindS (readS fc_store) (\<lambda>s.
     bindS (if cp_Epoch jc > cp_Epoch (st_justifiedCheckpoint s)
            then let jcRoot = ToBytes32 (cp_Root jc) in
                 bindS (onStore (modifyS (\<lambda>s. s\<lparr>st_prevJustifiedCheckpoint := st_justifiedCheckpoint s,
                          st_justifiedCheckpoint := \<lparr>cp_Epoch = cp_Epoch jc, cp_Root = jcRoot\<rparr>\<rparr>))) (\<lambda>_.
                 wrapS ''could not update justified balances'' (updateJustifiedBalances c balancesByRoot jcRoot))
            else returnS ()) (\<lambda>_.
     if cp_Epoch fc \<le> cp_Epoch (st_finalizedCheckpoint s) then returnS ()
     else bindS (onStore (modifyS (\<lambda>s. s\<lparr>st_finalizedCheckpoint :=
                   \<lparr>cp_Epoch = cp_Epoch fc, cp_Root = ToBytes32 (cp_Root fc)\<rparr>\<rparr>))) (\<lambda>_.
          onStore (store_prune c))))"

text \<open>A failed update of the checkpoints removes the node again; an error of the removal is logged.\<close>

definition InsertNode ::
    "BeaconChainConfig \<Rightarrow> bitvector4_ops \<Rightarrow> (root \<Rightarrow> u64 list result) \<Rightarrow> Time \<Rightarrow> BeaconState \<Rightarrow> ROBlock
       \<Rightarrow> (ForkChoice, unit) state_result" where
  "InsertNode c B balancesByRoot now state roblock =
     (let jc = bs_currentJustifiedCheckpoint state; fc = bs_finalizedCheckpoint state in
      bindS (onStore (store_insert c now roblock (cp_Epoch jc) (cp_Epoch fc))) (\<lambda>node.
      bindS (onStore (pullTips c B now state node jc fc)) (\<lambda>(jc, fc) f.
      case updateCheckpoints c balancesByRoot jc fc f of
        (Inr u, f') \<Rightarrow> (Inr u, f')
      | (Inl e, f') \<Rightarrow> if is_panic e then (Inl e, f')
          else bindS (ignoreS (onStore (removeNode node))) (\<lambda>_. liftS (Inl (Wrap ''could not update checkpoints'' e))) f')))"

definition InsertChain ::
    "BeaconChainConfig \<Rightarrow> (root \<Rightarrow> u64 list result) \<Rightarrow> Time \<Rightarrow> (ROBlock \<times> Checkpoint \<times> Checkpoint) list
       \<Rightarrow> (ForkChoice, unit) state_result" where
  "InsertChain c balancesByRoot now chain =
     forS (\<lambda>(block, jc, fc).
       bindS (onStore (store_insert c now block (cp_Epoch jc) (cp_Epoch fc))) (\<lambda>_.
       updateCheckpoints c balancesByRoot jc fc)) chain"

definition zero_Vote :: Vote where
  "zero_Vote = \<lparr>vt_currentRoot = ZeroHash, vt_nextRoot = ZeroHash, vt_nextEpoch = 0\<rparr>"

definition attest_vote :: "root \<Rightarrow> Epoch \<Rightarrow> u64 \<Rightarrow> Vote list \<Rightarrow> Vote list" where
  "attest_vote blockRoot targetEpoch index votes =
     (let i = unat index;
          vs = votes @ replicate (Suc i - length votes) zero_Vote;
          v = vs ! i;
          newVote = (vt_nextRoot v = ZeroHash \<and> vt_currentRoot v = ZeroHash)
      in if newVote \<or> targetEpoch > vt_nextEpoch v
         then vs[i := v\<lparr>vt_nextEpoch := targetEpoch, vt_nextRoot := blockRoot\<rparr>] else vs)"

definition forkchoice_ProcessAttestation :: "u64 list \<Rightarrow> root \<Rightarrow> Epoch \<Rightarrow> ForkChoice \<Rightarrow> ForkChoice" where
  "forkchoice_ProcessAttestation validatorIndices blockRoot targetEpoch f =
     f\<lparr>fc_votes := fold (attest_vote blockRoot targetEpoch) validatorIndices (fc_votes f)\<rparr>"

definition balance_at :: "u64 list \<Rightarrow> nat \<Rightarrow> u64" where
  "balance_at bs i = (if i < length bs then bs ! i else 0)"

definition add_balance :: "root \<Rightarrow> u64 \<Rightarrow> Store \<Rightarrow> Store" where
  "add_balance r b s =
     (case st_nodeByRoot s r of None \<Rightarrow> s
      | Some a \<Rightarrow> if r = ZeroHash then s else node_update a (\<lambda>x. x\<lparr>n_balance := n_balance x + b\<rparr>) s)"

definition sub_balance :: "u64 \<Rightarrow> Node \<Rightarrow> Node" where
  "sub_balance b x = x\<lparr>n_balance := (if n_balance x < b then 0 else n_balance x - b)\<rparr>"

definition remove_balance :: "root \<Rightarrow> u64 \<Rightarrow> Store \<Rightarrow> Store" where
  "remove_balance r b s =
     (case st_nodeByRoot s r of None \<Rightarrow> s
      | Some a \<Rightarrow> if r = ZeroHash then s else node_update a (sub_balance b) s)"

text \<open>One round of the loop of \<^verbatim>\<open>updateBalances\<close>.\<close>

definition updateBalances_step :: "u64 list \<Rightarrow> u64 list \<Rightarrow> nat \<Rightarrow> Store \<times> Vote list \<Rightarrow> Store \<times> Vote list" where
  "updateBalances_step oldBalances newBalances index = (\<lambda>(s, votes).
     let vote = votes ! index in
     if of_nat index \<in> st_slashedIndices s then (s, votes)
     else if vt_currentRoot vote = ZeroHash \<and> vt_nextRoot vote = ZeroHash then (s, votes)
     else let oldBalance = balance_at oldBalances index; newBalance = balance_at newBalances index;
              s' = (if vt_currentRoot vote \<noteq> vt_nextRoot vote \<or> oldBalance \<noteq> newBalance
                    then remove_balance (vt_currentRoot vote) oldBalance (add_balance (vt_nextRoot vote) newBalance s)
                    else s)
          in (s', votes[index := vote\<lparr>vt_currentRoot := vt_nextRoot vote\<rparr>]))"

definition updateBalances :: "ForkChoice \<Rightarrow> ForkChoice" where
  "updateBalances f =
     (case fold (updateBalances_step (fc_balances f) (fc_justifiedBalances f)) [0..<length (fc_votes f)] (fc_store f, fc_votes f)
      of (s, votes) \<Rightarrow> f\<lparr>fc_store := s, fc_votes := votes, fc_balances := fc_justifiedBalances f\<rparr>)"

definition applyProposerBoostScore :: "BeaconChainConfig \<Rightarrow> Store \<Rightarrow> Store" where
  "applyProposerBoostScore c s =
     (let s1 = (if st_previousProposerBoostRoot s \<noteq> ZeroHash
                then case st_nodeByRoot s (st_previousProposerBoostRoot s) of None \<Rightarrow> s
                     | Some a \<Rightarrow> node_update a (\<lambda>x. x\<lparr>n_balance := n_balance x - st_previousProposerBoostScore s\<rparr>) s
                else s);
          (proposerScore, s2) = (if st_proposerBoostRoot s \<noteq> ZeroHash
                then case st_nodeByRoot s1 (st_proposerBoostRoot s) of None \<Rightarrow> (0, s1)
                     | Some a \<Rightarrow> let score = st_committeeWeight s * ProposerScoreBoost c div 100
                                in (score, node_update a (\<lambda>x. x\<lparr>n_balance := n_balance x + score\<rparr>) s1)
                else (0, s1))
      in s2\<lparr>st_previousProposerBoostRoot := st_proposerBoostRoot s, st_previousProposerBoostScore := proposerScore\<rparr>)"

definition forkchoice_Head :: "BeaconChainConfig \<Rightarrow> Time \<Rightarrow> (ForkChoice, root) state_result" where
  "forkchoice_Head c now =
     bindS (modifyS updateBalances) (\<lambda>_.
     bindS (onStore (modifyS (applyProposerBoostScore c))) (\<lambda>_.
     bindS (readS fc_store) (\<lambda>s.
     bindS (liftS (deref (st_treeRootNode s))) (\<lambda>r.
     bindS (wrapS ''could not apply weight changes'' (liftS (applyWeightChanges (length (st_heap s)) r (st_heap s)))) (\<lambda>h.
     bindS (onStore (modifyS (\<lambda>s. s\<lparr>st_heap := h\<rparr>))) (\<lambda>_.
     bindS (liftS (EpochsSinceGenesis c now (st_genesisTime s))) (\<lambda>currentEpoch.
     bindS (wrapS ''could not update best descendant''
              (onStore (updateBest_from_root (cp_Epoch (st_justifiedCheckpoint s)) currentEpoch))) (\<lambda>_.
     onStore (store_head c now)))))))))"

section \<open>Queries and updates\<close>

definition fc_node :: "ForkChoice \<Rightarrow> root \<Rightarrow> error \<Rightarrow> addr result" where
  "fc_node f root e = (case st_nodeByRoot (fc_store f) root of None \<Rightarrow> Inl e | Some a \<Rightarrow> Inr a)"

definition NodeCount :: "ForkChoice \<Rightarrow> nat" where
  "NodeCount f = length (live_nodes (fc_store f))"

definition HasNode :: "ForkChoice \<Rightarrow> root \<Rightarrow> bool" where
  "HasNode f root \<longleftrightarrow> st_nodeByRoot (fc_store f) root \<noteq> None"

definition IsCanonical :: "ForkChoice \<Rightarrow> root \<Rightarrow> bool result" where
  "IsCanonical f root =
     (let s = fc_store f; h = st_heap s in
      case st_nodeByRoot s root of None \<Rightarrow> Inr False
      | Some node \<Rightarrow>
          bindR (deref (st_headNode s)) (\<lambda>head.
          let best = (\<lambda>a. case n_bestDescendant (h ! a) of None \<Rightarrow> a | Some d \<Rightarrow> d)
          in Inr (best node = best head)))"

definition IsOptimistic :: "ForkChoice \<Rightarrow> root \<Rightarrow> bool result" where
  "IsOptimistic f root =
     (if st_allTipsAreInvalid (fc_store f) then Inr True
      else bindR (fc_node f root ErrNilNode) (\<lambda>a. Inr (n_optimistic (st_heap (fc_store f) ! a))))"

text \<open>The walk to the first ancestor at or below a slot.\<close>

partial_function (option) ancestor_walk :: "Node list \<Rightarrow> Slot \<Rightarrow> addr option \<Rightarrow> addr option option" where
  "ancestor_walk h slot n =
     (case n of None \<Rightarrow> Some None
      | Some a \<Rightarrow> if n_slot (h ! a) > slot then ancestor_walk h slot (n_parent (h ! a)) else Some (Some a))"

definition AncestorRoot :: "ForkChoice \<Rightarrow> root \<Rightarrow> Slot \<Rightarrow> root result option" where
  "AncestorRoot f root slot =
     (case fc_node f root (Wrap ''could not determine ancestor root'' ErrNilNode) of Inl e \<Rightarrow> Some (Inl e)
      | Inr node \<Rightarrow>
          map_option (\<lambda>n. case n of None \<Rightarrow> Inl (Wrap ''could not determine ancestor root'' ErrNilNode)
                               | Some a \<Rightarrow> Inr (n_root (st_heap (fc_store f) ! a)))
            (ancestor_walk (st_heap (fc_store f)) slot (Some node)))"

definition LastRoot :: "BeaconChainConfig \<Rightarrow> ForkChoice \<Rightarrow> Epoch \<Rightarrow> root result option" where
  "LastRoot c f epoch =
     (let s = fc_store f; h = st_heap s in
      case bindR (deref (st_headNode s)) (\<lambda>head. bindR (ToEpoch c (n_slot (h ! head))) (\<lambda>headEpoch. Inr (head, headEpoch))) of
        Inl e \<Rightarrow> Some (Inl e)
      | Inr (head, headEpoch) \<Rightarrow>
          (case EpochEnd c epoch of Inl e \<Rightarrow> Some (if is_panic e then Inl e else Inr ZeroHash)
           | Inr epochEnd \<Rightarrow>
               if headEpoch \<le> epoch then Some (Inr (n_root (h ! head)))
               else map_option (\<lambda>n. case n of None \<Rightarrow> Inr ZeroHash | Some a \<Rightarrow> Inr (n_root (h ! a)))
                      (ancestor_walk h epochEnd (Some head))))"

text \<open>\<open>ignoreUnviable\<close> is the feature flag \<^verbatim>\<open>IgnoreUnviableAttestations\<close>.\<close>

definition IsViableForCheckpoint :: "BeaconChainConfig \<Rightarrow> bool \<Rightarrow> ForkChoice \<Rightarrow> Checkpoint \<Rightarrow> bool result" where
  "IsViableForCheckpoint c ignoreUnviable f cp =
     (let h = st_heap (fc_store f) in
      case st_nodeByRoot (fc_store f) (cp_Root cp) of None \<Rightarrow> Inr False
      | Some a \<Rightarrow>
          bindR (EpochStart c (cp_Epoch cp)) (\<lambda>epochStart.
          if n_slot (h ! a) > epochStart then Inr False
          else if n_children (h ! a) = [] then Inr True
          else if n_slot (h ! a) = epochStart then Inr True
          else bindR (if \<not> ignoreUnviable then bindR (ToEpoch c (n_slot (h ! a))) (\<lambda>nodeEpoch. Inr (nodeEpoch + 1 = cp_Epoch cp))
                      else Inr False) (\<lambda>previous.
               Inr (previous \<or> list_ex (\<lambda>child. n_slot (h ! child) > epochStart) (n_children (h ! a))))))"

definition SetOptimisticToValid :: "root \<Rightarrow> (ForkChoice, unit) state_result" where
  "SetOptimisticToValid root =
     onStore (bindS (known_node root (Wrap ''could not set node to valid'' ErrNilNode)) (\<lambda>a.
       modifyS (\<lambda>s. s\<lparr>st_heap := setNodeAndParentValidated a (st_heap s)\<rparr>)))"

definition InsertSlashedIndex :: "ValidatorIndex \<Rightarrow> ForkChoice \<Rightarrow> ForkChoice" where
  "InsertSlashedIndex index f =
     (let s = fc_store f in
      if index \<in> st_slashedIndices s then f
      else let f1 = f\<lparr>fc_store := s\<lparr>st_slashedIndices := insert index (st_slashedIndices s)\<rparr>\<rparr> in
        if unat index \<ge> length (fc_balances f) then f1
        else if unat index \<ge> length (fc_votes f) then f1
        else case st_nodeByRoot s (vt_currentRoot (fc_votes f ! unat index)) of None \<Rightarrow> f1
          | Some a \<Rightarrow> f1\<lparr>fc_store := node_update a (sub_balance (fc_balances f ! unat index)) (fc_store f1)\<rparr>)"

definition UpdateJustifiedCheckpoint ::
    "BeaconChainConfig \<Rightarrow> (root \<Rightarrow> u64 list result) \<Rightarrow> Checkpoint \<Rightarrow> (ForkChoice, unit) state_result" where
  "UpdateJustifiedCheckpoint c balancesByRoot jc =
     bindS (onStore (modifyS (\<lambda>s. s\<lparr>st_prevJustifiedCheckpoint := st_justifiedCheckpoint s, st_justifiedCheckpoint := jc\<rparr>))) (\<lambda>_.
     wrapS ''could not update justified balances'' (updateJustifiedBalances c balancesByRoot (cp_Root jc)))"

definition UpdateFinalizedCheckpoint :: "Checkpoint \<Rightarrow> ForkChoice \<Rightarrow> ForkChoice" where
  "UpdateFinalizedCheckpoint fc f = f\<lparr>fc_store := (fc_store f)\<lparr>st_finalizedCheckpoint := fc\<rparr>\<rparr>"

definition Tips :: "addr list \<Rightarrow> ForkChoice \<Rightarrow> root list \<times> Slot list" where
  "Tips order f = store_tips order (fc_store f)"

definition ProposerBoost :: "ForkChoice \<Rightarrow> root" where
  "ProposerBoost f = st_proposerBoostRoot (fc_store f)"

definition SetOptimisticToInvalid :: "root \<Rightarrow> root \<Rightarrow> root \<Rightarrow> ForkChoice \<Rightarrow> (root list result \<times> ForkChoice) option" where
  "SetOptimisticToInvalid root parentRoot payloadHash f =
     map_option (\<lambda>(r, s). (r, f\<lparr>fc_store := s\<rparr>)) (setOptimisticToInvalid root parentRoot payloadHash (fc_store f))"

definition SetGenesisTime :: "Time \<Rightarrow> ForkChoice \<Rightarrow> ForkChoice" where
  "SetGenesisTime genesis f = f\<lparr>fc_store := (fc_store f)\<lparr>st_genesisTime := truncateSecond genesis\<rparr>\<rparr>"

definition SetOriginRoot :: "root \<Rightarrow> ForkChoice \<Rightarrow> ForkChoice" where
  "SetOriginRoot root f = f\<lparr>fc_store := (fc_store f)\<lparr>st_originRoot := root\<rparr>\<rparr>"

text \<open>A dump names the nodes it points to by their roots.\<close>

record DumpNode =
  dn_node :: Node
  dn_ParentRoot :: root
  dn_Target :: root

fun nodeTreeDump :: "nat \<Rightarrow> Node list \<Rightarrow> addr \<Rightarrow> DumpNode list \<Rightarrow> DumpNode list result" where
  "nodeTreeDump 0 h n nodes = Inl stackOverflow"
| "nodeTreeDump (Suc depth) h n nodes =
     (let root_of = (\<lambda>p. case p of None \<Rightarrow> ZeroHash | Some a \<Rightarrow> n_root (h ! a));
          thisNode = \<lparr>dn_node = h ! n, dn_ParentRoot = root_of (n_parent (h ! n)), dn_Target = root_of (n_target (h ! n))\<rparr>
      in foldR (nodeTreeDump depth h) (n_children (h ! n)) (nodes @ [thisNode]))"

definition ErrUnknownCommonAncestor :: error where
  "ErrUnknownCommonAncestor = Err ''unknown common ancestor''"

partial_function (option) common_walk :: "Node list \<Rightarrow> addr \<Rightarrow> addr \<Rightarrow> addr result option" where
  "common_walk h n1 n2 =
     (if n_slot (h ! n1) > n_slot (h ! n2)
      then case n_parent (h ! n1) of None \<Rightarrow> Some (Inl ErrUnknownCommonAncestor)
           | Some p \<Rightarrow> if p = n2 then Some (Inr p) else common_walk h p n2
      else case n_parent (h ! n2) of None \<Rightarrow> Some (Inl ErrUnknownCommonAncestor)
           | Some p \<Rightarrow> if n1 = p then Some (Inr n1) else common_walk h n1 p)"

definition CommonAncestor :: "ForkChoice \<Rightarrow> root \<Rightarrow> root \<Rightarrow> (root \<times> Slot) result option" where
  "CommonAncestor f r1 r2 =
     (let h = st_heap (fc_store f); out = (\<lambda>a. (n_root (h ! a), n_slot (h ! a))) in
      case fc_node f r1 ErrUnknownCommonAncestor of Inl e \<Rightarrow> Some (Inl e)
      | Inr n1 \<Rightarrow> if r1 = r2 then Some (Inr (r1, n_slot (h ! n1)))
          else (case fc_node f r2 ErrUnknownCommonAncestor of Inl e \<Rightarrow> Some (Inl e)
                | Inr n2 \<Rightarrow> map_option (\<lambda>r. bindR r (\<lambda>a. Inr (out a))) (common_walk h n1 n2)))"

definition CachedHeadRoot :: "ForkChoice \<Rightarrow> root" where
  "CachedHeadRoot f = (case st_headNode (fc_store f) of None \<Rightarrow> ZeroHash | Some a \<Rightarrow> n_root (st_heap (fc_store f) ! a))"

definition payload_hash_of :: "ForkChoice \<Rightarrow> root \<Rightarrow> root" where
  "payload_hash_of f root = (case st_nodeByRoot (fc_store f) root of None \<Rightarrow> ZeroHash
     | Some a \<Rightarrow> n_payloadHash (st_heap (fc_store f) ! a))"

definition FinalizedPayloadBlockHash :: "ForkChoice \<Rightarrow> root" where
  "FinalizedPayloadBlockHash f = payload_hash_of f (cp_Root (st_finalizedCheckpoint (fc_store f)))"

definition JustifiedPayloadBlockHash :: "ForkChoice \<Rightarrow> root" where
  "JustifiedPayloadBlockHash f = payload_hash_of f (cp_Root (st_justifiedCheckpoint (fc_store f)))"

definition UnrealizedJustifiedPayloadBlockHash :: "ForkChoice \<Rightarrow> root" where
  "UnrealizedJustifiedPayloadBlockHash f = payload_hash_of f (cp_Root (st_unrealizedJustifiedCheckpoint (fc_store f)))"

definition forkchoice_Weight :: "ForkChoice \<Rightarrow> root \<Rightarrow> u64 result" where
  "forkchoice_Weight f root = bindR (fc_node f root ErrNilNode) (\<lambda>a. Inr (n_weight (st_heap (fc_store f) ! a)))"

definition forkchoice_Slot :: "ForkChoice \<Rightarrow> root \<Rightarrow> Slot result" where
  "forkchoice_Slot f root = bindR (fc_node f root ErrNilNode) (\<lambda>a. Inr (n_slot (st_heap (fc_store f) ! a)))"

definition ParentRoot :: "ForkChoice \<Rightarrow> root \<Rightarrow> root result" where
  "ParentRoot f root = bindR (fc_node f root ErrNilNode) (\<lambda>a.
     Inr (case n_parent (st_heap (fc_store f) ! a) of None \<Rightarrow> ZeroHash | Some p \<Rightarrow> n_root (st_heap (fc_store f) ! p)))"

partial_function (option) TargetRootForEpoch ::
    "BeaconChainConfig \<Rightarrow> ForkChoice \<Rightarrow> root \<Rightarrow> Epoch \<Rightarrow> root result option" where
  "TargetRootForEpoch c f root epoch =
     (let s = fc_store f; h = st_heap s in
      case st_nodeByRoot s root of None \<Rightarrow> Some (Inl ErrNilNode)
      | Some n \<Rightarrow>
        (case ToEpoch c (n_slot (h ! n)) of Inl e \<Rightarrow> Some (Inl e)
         | Inr nodeEpoch \<Rightarrow>
           if epoch > nodeEpoch then Some (Inr (n_root (h ! n)))
           else (case n_target (h ! n) of None \<Rightarrow> Some (Inr ZeroHash)
           | Some t \<Rightarrow>
             let targetRoot = n_root (h ! t) in
             if epoch = nodeEpoch then Some (Inr targetRoot)
             else (case st_nodeByRoot s targetRoot of None \<Rightarrow> Some (Inl ErrNilNode)
             | Some targetNode \<Rightarrow>
               (case ToEpoch c (n_slot (h ! targetNode)) of Inl e \<Rightarrow> Some (Inl e)
                | Inr te \<Rightarrow>
                  if nodeEpoch = te
                  then (case n_parent (h ! targetNode) of None \<Rightarrow> Some (Inl ErrNilNode)
                        | Some p \<Rightarrow> TargetRootForEpoch c f (n_root (h ! p)) epoch)
                  else TargetRootForEpoch c f (n_root (h ! targetNode)) epoch)))))"

definition DependentRootForEpoch :: "BeaconChainConfig \<Rightarrow> ForkChoice \<Rightarrow> root \<Rightarrow> Epoch \<Rightarrow> root result option" where
  "DependentRootForEpoch c f root epoch =
     (let h = st_heap (fc_store f) in
      map_option (\<lambda>r. bindR r (\<lambda>tr.
        if tr = ZeroHash then Inr ZeroHash
        else bindR (fc_node f tr ErrNilNode) (\<lambda>node.
             bindR (ToEpoch c (n_slot (h ! node))) (\<lambda>e.
             if e \<ge> epoch
             then (case n_parent (h ! node) of None \<Rightarrow> Inr (st_finalizedDependentRoot (fc_store f))
                   | Some p \<Rightarrow> Inr (n_root (h ! p)))
             else Inr (n_root (h ! node))))))
        (TargetRootForEpoch c f root epoch))"

definition DependentRoot :: "BeaconChainConfig \<Rightarrow> ForkChoice \<Rightarrow> Epoch \<Rightarrow> root result option" where
  "DependentRoot c f epoch = DependentRootForEpoch c f (CachedHeadRoot f) epoch"

definition HighestReceivedBlockRoot :: "ForkChoice \<Rightarrow> root" where
  "HighestReceivedBlockRoot f = (case st_highestReceivedNode (fc_store f) of None \<Rightarrow> ZeroHash
     | Some a \<Rightarrow> n_root (st_heap (fc_store f) ! a))"

definition HighestReceivedBlockSlot :: "ForkChoice \<Rightarrow> Slot" where
  "HighestReceivedBlockSlot f = (case st_highestReceivedNode (fc_store f) of None \<Rightarrow> 0
     | Some a \<Rightarrow> n_slot (st_heap (fc_store f) ! a))"

definition HighestReceivedBlockDelay :: "BeaconChainConfig \<Rightarrow> ForkChoice \<Rightarrow> Slot result" where
  "HighestReceivedBlockDelay c f =
     (case st_highestReceivedNode (fc_store f) of None \<Rightarrow> Inr 0
      | Some a \<Rightarrow> let n = st_heap (fc_store f) ! a in
          (case SinceSlotStart c (n_slot n) (st_genesisTime (fc_store f)) (n_timestamp n) of
             Inl e \<Rightarrow> if is_panic e then Inl e else Inr 0
           | Inr sss \<Rightarrow> udiv (u64_of_i64 (quot_i64 sss 1000000000)) (SecondsPerSlot c)))"

definition ReceivedBlocksLastEpoch :: "BeaconChainConfig \<Rightarrow> Time \<Rightarrow> ForkChoice \<Rightarrow> u64 result" where
  "ReceivedBlocksLastEpoch c now f =
     bindR (CurrentSlot c now (st_genesisTime (fc_store f))) (\<lambda>current.
     bindR (if current > 32 then Slot_SafeSub current 32 else Inr current) (\<lambda>lowerBound.
     Inr (of_nat (length (filter (\<lambda>s. s \<noteq> 0 \<and> lowerBound \<le> s) (st_receivedBlocksLastEpoch (fc_store f)))))))"

section \<open>Late blocks\<close>

definition orphanLateBlockProposingEarly :: int where
  "orphanLateBlockProposingEarly = 2"

text \<open>An error is logged and a default returned; a panic passes.\<close>

definition orElse :: "'a result \<Rightarrow> 'b \<Rightarrow> ('a \<Rightarrow> 'b result) \<Rightarrow> 'b result" where
  "orElse m d f = (case m of Inr x \<Rightarrow> f x | Inl e \<Rightarrow> if is_panic e then Inl e else Inr d)"

definition ShouldOverrideFCU :: "BeaconChainConfig \<Rightarrow> Time \<Rightarrow> ForkChoice \<Rightarrow> bool result" where
  "ShouldOverrideFCU c now f =
     (let s = fc_store f; h = st_heap s in
      case st_headNode s of None \<Rightarrow> Inr False
      | Some a \<Rightarrow> let head = h ! a in
        bindR (CurrentSlot c now (st_genesisTime s)) (\<lambda>current.
        if n_slot head \<noteq> current then Inr False
        else bindR (umod (n_slot head + 1) (SlotsPerEpoch c)) (\<lambda>r.
        if r = 0 then Inr False
        else orElse (arrivedEarly c (st_genesisTime s) head) False (\<lambda>early.
        if early then Inr False
        else bindR (ToEpoch c (n_slot head + 1)) (\<lambda>e.
        if e > cp_Epoch (st_finalizedCheckpoint s) + ReorgMaxEpochsSinceFinalization c then Inr False
        else case n_parent head of None \<Rightarrow> Inr False
        | Some p \<Rightarrow>
          if n_slot head > n_slot (h ! p) + 1 then Inr False
          else if n_weight head * 100 > st_committeeWeight s * ReorgHeadWeightThreshold c then Inr False
          else orElse (SinceSlotStart c (n_slot head) (st_genesisTime s) now) True (\<lambda>sss.
          if sss < ProcessAttestationsThreshold then Inr True
          else Inr (\<not> n_weight (h ! p) * 100 < st_committeeWeight s * ReorgParentWeightThreshold c)))))))"

definition GetProposerHead :: "BeaconChainConfig \<Rightarrow> Time \<Rightarrow> ForkChoice \<Rightarrow> root result" where
  "GetProposerHead c now f =
     (let s = fc_store f; h = st_heap s in
      case st_headNode s of None \<Rightarrow> Inr ZeroHash
      | Some a \<Rightarrow> let head = h ! a in
        bindR (CurrentSlot c now (st_genesisTime s)) (\<lambda>currentSlot.
        if n_slot head + 1 \<noteq> currentSlot then Inr (n_root head)
        else bindR (umod (n_slot head + 1) (SlotsPerEpoch c)) (\<lambda>r.
        if r = 0 then Inr (n_root head)
        else orElse (arrivedEarly c (st_genesisTime s) head) (n_root head) (\<lambda>early.
        if early then Inr (n_root head)
        else bindR (ToEpoch c (n_slot head + 1)) (\<lambda>e.
        if e > cp_Epoch (st_finalizedCheckpoint s) + ReorgMaxEpochsSinceFinalization c then Inr (n_root head)
        else case n_parent head of None \<Rightarrow> Inr (n_root head)
        | Some p \<Rightarrow>
          if n_slot head > n_slot (h ! p) + 1 then Inr (n_root head)
          else if n_weight head * 100 > st_committeeWeight s * ReorgHeadWeightThreshold c then Inr (n_root head)
          else if n_weight (h ! p) * 100 < st_committeeWeight s * ReorgParentWeightThreshold c then Inr (n_root head)
          else orElse (SinceSlotStart c currentSlot (st_genesisTime s) now) (n_root head) (\<lambda>sss.
          Inr (if sss \<ge> orphanLateBlockProposingEarly * 1000000000 then n_root head else n_root (h ! p))))))))"

end
