(* ===== verification/Fork_Choice_Tree.thy ===== *)
theory Fork_Choice_Tree
  imports Fork_Choice
begin

text \<open>
  The recursions over the tree of fork choice: \<^verbatim>\<open>applyWeightChanges\<close> gives every node the sum of the balances
  below it, and \<^verbatim>\<open>updateBestDescendant\<close> gives it the end of the walk that always takes the heaviest child
  with a viable descendant. Both return for every well-formed tree.
\<close>

section \<open>Well-formed trees\<close>

text \<open>A child is allocated after its parent and knows it.\<close>

definition tree_ok :: "Node list \<Rightarrow> bool" where
  "tree_ok h \<longleftrightarrow>
     (\<forall>a < length h. distinct (n_children (h ! a)) \<and>
        (\<forall>b \<in> set (n_children (h ! a)). a < b \<and> b < length h \<and> n_parent (h ! b) = Some a) \<and>
        (\<forall>p. n_parent (h ! a) = Some p \<longrightarrow> p < a))"

lemma tree_okD:
  assumes "tree_ok h" "a < length h"
  shows "distinct (n_children (h ! a))"
    "b \<in> set (n_children (h ! a)) \<Longrightarrow> a < b \<and> b < length h \<and> n_parent (h ! b) = Some a"
    "n_parent (h ! a) = Some p \<Longrightarrow> p < a"
  using assms unfolding tree_ok_def by blast+

definition edges :: "Node list \<Rightarrow> (addr \<times> addr) set" where
  "edges h = {(a, b). a < length h \<and> b \<in> set (n_children (h ! a))}"

definition desc :: "Node list \<Rightarrow> addr \<Rightarrow> addr set" where
  "desc h a = {b. (a, b) \<in> (edges h)\<^sup>*}"

lemma desc_refl [simp]: "a \<in> desc h a"
  by (simp add: desc_def)

lemma desc_child: "(a, b) \<in> edges h \<Longrightarrow> d \<in> desc h b \<Longrightarrow> d \<in> desc h a"
  unfolding desc_def by (simp add: converse_rtrancl_into_rtrancl)

lemma desc_step: "a < length h \<Longrightarrow> desc h a = insert a (\<Union>b \<in> set (n_children (h ! a)). desc h b)"
proof -
  assume a: "a < length h"
  have "d = a \<or> (\<exists>b \<in> set (n_children (h ! a)). d \<in> desc h b)" if "d \<in> desc h a" for d
  proof -
    from that have "(a, d) \<in> (edges h)\<^sup>*" by (simp add: desc_def)
    then show ?thesis by (cases rule: converse_rtranclE) (auto simp: desc_def edges_def)
  qed
  moreover have "d \<in> desc h a" if "b \<in> set (n_children (h ! a))" "d \<in> desc h b" for b d
    using that a by (intro desc_child [of a b]) (simp_all add: edges_def)
  ultimately show ?thesis by auto
qed

lemma edges_up: "tree_ok h \<Longrightarrow> (a, b) \<in> edges h \<Longrightarrow> a < b \<and> b < length h \<and> n_parent (h ! b) = Some a"
  using tree_okD(2) [of h a b] by (simp add: edges_def)

lemma desc_up: "tree_ok h \<Longrightarrow> b \<in> desc h a \<Longrightarrow> a \<le> b \<and> (a < length h \<longrightarrow> b < length h)"
proof -
  assume "tree_ok h" "b \<in> desc h a"
  from this(2) have "(a, b) \<in> (edges h)\<^sup>*" by (simp add: desc_def)
  then show ?thesis by (induction) (use edges_up [OF \<open>tree_ok h\<close>] in force)+
qed

text \<open>A node has one parent, so the subtrees of two children are disjoint.\<close>

lemma desc_parent:
  assumes "tree_ok h" "b \<in> desc h a" "b \<noteq> a"
  obtains p where "n_parent (h ! b) = Some p" "p \<in> desc h a"
proof -
  have "(a, b) \<in> (edges h)\<^sup>*" using assms(2) by (simp add: desc_def)
  then obtain p where "(a, p) \<in> (edges h)\<^sup>*" "(p, b) \<in> edges h" using assms(3) by (cases rule: rtranclE) auto
  then show ?thesis using that edges_up [OF assms(1)] by (simp add: desc_def)
qed

lemma desc_chain:
  assumes "tree_ok h" "d \<in> desc h a" "d \<in> desc h b"
  shows "a \<in> desc h b \<or> b \<in> desc h a"
proof -
  have "(a, d) \<in> (edges h)\<^sup>*" using assms(2) by (simp add: desc_def)
  then show ?thesis using assms(3)
  proof (induction)
    case (step y z)
    show ?case
    proof (cases "z = b")
      case True
      then show ?thesis using rtrancl_into_rtrancl [OF step.hyps] by (simp add: desc_def)
    next
      case False
      then obtain p where "n_parent (h ! z) = Some p" "p \<in> desc h b" using desc_parent [OF assms(1) step.prems] by blast
      then show ?thesis using step.IH edges_up [OF assms(1) step.hyps(2)] by simp
    qed
  qed simp
qed

lemma children_disjoint:
  assumes "tree_ok h" "a < length h" "b \<in> set (n_children (h ! a))" "b' \<in> set (n_children (h ! a))" "b \<noteq> b'"
  shows "desc h b \<inter> desc h b' = {}"
proof -
  have no: False if "x \<in> desc h y" "x \<in> set (n_children (h ! a))" "y \<in> set (n_children (h ! a))" "x \<noteq> y" for x y
  proof -
    note x = that
    obtain p where "n_parent (h ! x) = Some p" "p \<in> desc h y" using desc_parent [OF assms(1) x(1,4)] .
    moreover have "n_parent (h ! x) = Some a" "a < y" using tree_okD(2) [OF assms(1,2)] x(2,3) by auto
    ultimately show False using desc_up [OF assms(1), of p y] by simp
  qed
  show ?thesis using desc_chain [OF assms(1), of _ b b'] no [of b b'] no [of b' b] assms(3-5) by blast
qed

lemma root_not_below_child: "tree_ok h \<Longrightarrow> a < length h \<Longrightarrow> b \<in> set (n_children (h ! a)) \<Longrightarrow> a \<notin> desc h b"
  using desc_up [of h a b] tree_okD(2) [of h a b] by auto

text \<open>What the recursions leave alone.\<close>

definition same_tree :: "Node list \<Rightarrow> Node list \<Rightarrow> bool" where
  "same_tree h h' \<longleftrightarrow> length h' = length h \<and> (\<forall>a < length h. n_children (h' ! a) = n_children (h ! a) \<and>
     n_parent (h' ! a) = n_parent (h ! a))"

lemma same_tree_desc: "same_tree h h' \<Longrightarrow> desc h' a = desc h a"
proof -
  assume "same_tree h h'"
  then have "edges h' = edges h" by (auto simp: same_tree_def edges_def)
  then show ?thesis by (simp add: desc_def)
qed

lemma same_tree_ok:
  assumes "same_tree h h'" "tree_ok h"
  shows "tree_ok h'"
proof -
  have eq: "length h' = length h" "\<And>a. a < length h \<Longrightarrow> n_children (h' ! a) = n_children (h ! a) \<and> n_parent (h' ! a) = n_parent (h ! a)"
    using assms(1) by (simp_all add: same_tree_def)
  show ?thesis
    unfolding tree_ok_def eq(1)
  proof (intro allI impI conjI ballI)
    fix a assume a: "a < length h"
    show "distinct (n_children (h' ! a))" using tree_okD(1) [OF assms(2) a] eq(2) [OF a] by simp
    show "p < a" if "n_parent (h' ! a) = Some p" for p using tree_okD(3) [OF assms(2) a] that eq(2) [OF a] by simp
    fix b assume "b \<in> set (n_children (h' ! a))"
    then have "a < b \<and> b < length h \<and> n_parent (h ! b) = Some a" using tree_okD(2) [OF assms(2) a] eq(2) [OF a] by simp
    then show "a < b" "b < length h" "n_parent (h' ! b) = Some a" using eq(2) [of b] by simp_all
  qed
qed

section \<open>Weights\<close>

function spec_weight :: "Node list \<Rightarrow> addr \<Rightarrow> u64" where
  "spec_weight h a = (if n_root (h ! a) = ZeroHash then n_weight (h ! a)
     else n_balance (h ! a) + (\<Sum>b\<leftarrow>filter (\<lambda>b. a < b \<and> b < length h) (n_children (h ! a)). spec_weight h b))"
  by pat_completeness auto
termination
  by (relation "measure (\<lambda>(h, a). length h - a)") auto

declare spec_weight.simps [simp del]

lemma spec_weight_tree:
  assumes "tree_ok h" "a < length h"
  shows "spec_weight h a = (if n_root (h ! a) = ZeroHash then n_weight (h ! a)
     else n_balance (h ! a) + (\<Sum>b\<leftarrow>n_children (h ! a). spec_weight h b))"
proof -
  have "filter (\<lambda>b. a < b \<and> b < length h) (n_children (h ! a)) = n_children (h ! a)"
    using tree_okD(2) [OF assms] by (simp add: filter_id_conv)
  then show ?thesis by (simp add: spec_weight.simps [of h a])
qed

definition reweigh :: "Node list \<Rightarrow> addr set \<Rightarrow> Node list" where
  "reweigh h A = map (\<lambda>b. if b \<in> A then (h ! b)\<lparr>n_weight := spec_weight h b\<rparr> else h ! b) [0..<length h]"

lemma reweigh_nth [simp]:
  "length (reweigh h A) = length h"
  "b < length h \<Longrightarrow> reweigh h A ! b = (if b \<in> A then (h ! b)\<lparr>n_weight := spec_weight h b\<rparr> else h ! b)"
  by (simp_all add: reweigh_def)

lemma reweigh_same [simp]: "same_tree h (reweigh h A)"
  by (simp add: same_tree_def)

lemma spec_weight_reweigh:
  assumes "tree_ok h" "a < length h"
  shows "spec_weight (reweigh h A) a = spec_weight h a"
  using assms(2)
proof (induction "length h - a" arbitrary: a rule: less_induct)
  case less
  have ok: "tree_ok (reweigh h A)" using same_tree_ok [OF reweigh_same assms(1)] .
  have "spec_weight (reweigh h A) b = spec_weight h b" if "b \<in> set (n_children (h ! a))" for b
    using tree_okD(2) [OF assms(1) less.prems that] less.hyps [of b] by (simp add: diff_less_mono2)
  then have sums: "(\<Sum>b\<leftarrow>n_children (h ! a). spec_weight (reweigh h A) b) = (\<Sum>b\<leftarrow>n_children (h ! a). spec_weight h b)"
    by (intro arg_cong [where f = sum_list] map_cong) auto
  have n: "n_root (reweigh h A ! a) = n_root (h ! a)" "n_balance (reweigh h A ! a) = n_balance (h ! a)"
    "n_children (reweigh h A ! a) = n_children (h ! a)" using less.prems by simp_all
  have w: "n_weight (reweigh h A ! a) = n_weight (h ! a)" if "n_root (h ! a) = ZeroHash"
    using less.prems that spec_weight_tree [OF assms(1) less.prems] by simp
  have a: "a < length (reweigh h A)" using less.prems by simp
  show ?case
    unfolding spec_weight_tree [OF ok a] spec_weight_tree [OF assms(1) less.prems] n sums using w by simp
qed

lemma reweigh_reweigh: "tree_ok h \<Longrightarrow> reweigh (reweigh h A) B = reweigh h (A \<union> B)"
  by (rule nth_equalityI) (auto simp: spec_weight_reweigh)

lemma reweigh_empty: "reweigh h {} = h"
  by (rule nth_equalityI) auto

lemma foldR_children:
  assumes "\<And>x xs ys s. cs = xs @ x # ys \<Longrightarrow> P xs s \<Longrightarrow> \<exists>s'. f x s = Inr s' \<and> P (xs @ [x]) s'" "P [] s"
  shows "\<exists>s'. foldR f cs s = Inr s' \<and> P cs s'"
proof -
  have "\<exists>s'. foldR f ys s = Inr s' \<and> P cs s'" if "cs = xs @ ys" "P xs s" for xs ys s
    using that
  proof (induction ys arbitrary: xs s)
    case (Cons y ys)
    then obtain s1 where "f y s = Inr s1" "P (xs @ [y]) s1" using assms(1) by blast
    then show ?case using Cons.IH [of "xs @ [y]" s1] Cons.prems(1) by simp
  qed simp
  from this [of "[]" cs s] assms(2) show ?thesis by simp
qed

lemma reweigh_step:
  assumes "tree_ok h" "a < length h"
  defines "h1 \<equiv> reweigh h (\<Union>b \<in> set (n_children (h ! a)). desc h b)"
  defines "w \<equiv> \<Sum>b\<leftarrow>n_children (h ! a). spec_weight h b"
  shows "h1 ! a = h ! a"
    "(if n_root (h ! a) = ZeroHash then h1 else h1[a := (h ! a)\<lparr>n_weight := n_balance (h ! a) + w\<rparr>]) = reweigh h (desc h a)"
proof -
  have "a \<notin> (\<Union>b \<in> set (n_children (h ! a)). desc h b)" using root_not_below_child [OF assms(1,2)] by blast
  then show a: "h1 ! a = h ! a" using assms(2) by (simp add: h1_def)
  have w: "(h ! a)\<lparr>n_weight := spec_weight h a\<rparr> = (if n_root (h ! a) = ZeroHash then h ! a else (h ! a)\<lparr>n_weight := n_balance (h ! a) + w\<rparr>)"
    unfolding spec_weight_tree [OF assms(1,2)] w_def by simp
  have len: "length h1 = length h" by (simp add: h1_def)
  show "(if n_root (h ! a) = ZeroHash then h1 else h1[a := (h ! a)\<lparr>n_weight := n_balance (h ! a) + w\<rparr>]) = reweigh h (desc h a)"
    (is "?l = _")
  proof (rule nth_equalityI)
    fix i assume "i < length ?l"
    then have i: "i < length h" using len by (simp split: if_splits)
    have below: "i \<in> desc h a \<longleftrightarrow> i = a \<or> i \<in> (\<Union>b \<in> set (n_children (h ! a)). desc h b)" using desc_step [OF assms(2)] by blast
    show "?l ! i = reweigh h (desc h a) ! i"
    proof (cases "i = a")
      case True
      have "reweigh h (desc h a) ! a = (h ! a)\<lparr>n_weight := spec_weight h a\<rparr>" using assms(2) by simp
      moreover have "a < length h1" using assms(2) len by simp
      ultimately show ?thesis unfolding True w using a by (cases "n_root (h ! a) = ZeroHash") (simp_all only: nth_list_update_eq if_True if_False simp_thms)
    next
      case False
      then show ?thesis using below by (simp add: i h1_def)
    qed
  qed (simp add: len)
qed

lemma applyWeightChanges_ok:
  assumes "tree_ok h" "a < length h" "length h - a \<le> depth"
  shows "applyWeightChanges depth a h = Inr (reweigh h (desc h a))"
  using assms
proof (induction depth arbitrary: a h)
  case (Suc depth)
  let ?below = "\<lambda>xs. (\<Union>b \<in> set xs. desc h b)"
  let ?f = "\<lambda>child (h, childrenWeight). bindR (applyWeightChanges depth child h) (\<lambda>h. Inr (h, childrenWeight + n_weight (h ! child)))"
  have "\<exists>s'. foldR ?f (n_children (h ! a)) (h, 0) = Inr s' \<and>
      s' = (reweigh h (?below (n_children (h ! a))), \<Sum>b\<leftarrow>n_children (h ! a). spec_weight h b)"
  proof (rule foldR_children [where P = "\<lambda>xs s. s = (reweigh h (?below xs), \<Sum>b\<leftarrow>xs. spec_weight h b)"])
    fix x xs ys s
    assume split: "n_children (h ! a) = xs @ x # ys" and s: "s = (reweigh h (?below xs), \<Sum>b\<leftarrow>xs. spec_weight h b)"
    let ?h = "reweigh h (?below xs)"
    have x: "x \<in> set (n_children (h ! a))" using split by simp
    then have ax: "a < x" "x < length h" using tree_okD(2) [OF Suc.prems(1,2)] by auto
    have ok: "tree_ok ?h" using same_tree_ok [OF reweigh_same Suc.prems(1)] .
    have "applyWeightChanges depth x ?h = Inr (reweigh ?h (desc ?h x))" using Suc.IH [OF ok] ax Suc.prems(3) by simp
    also have "reweigh ?h (desc ?h x) = reweigh h (?below (xs @ [x]))"
      by (simp add: reweigh_reweigh [OF Suc.prems(1)] same_tree_desc [OF reweigh_same] Un_commute)
    finally have run: "applyWeightChanges depth x ?h = Inr (reweigh h (?below (xs @ [x])))" .
    show "\<exists>s'. ?f x s = Inr s' \<and> s' = (reweigh h (?below (xs @ [x])), \<Sum>b\<leftarrow>xs @ [x]. spec_weight h b)"
      unfolding s prod.case run bindR_Inr using ax(2) by simp
  qed (simp add: reweigh_empty)
  then have run: "foldR ?f (n_children (h ! a)) (h, 0) =
      Inr (reweigh h (?below (n_children (h ! a))), \<Sum>b\<leftarrow>n_children (h ! a). spec_weight h b)" by blast
  show ?case unfolding applyWeightChanges.simps run bindR_Inr prod.case reweigh_step [OF Suc.prems(1,2)]
    using reweigh_step(2) [OF Suc.prems(1,2)] by (cases "n_root (h ! a) = ZeroHash") (simp_all only: if_True if_False simp_thms)
qed simp

section \<open>Best descendants\<close>

text \<open>The rule of the walk: from a node go to the heaviest child that has a viable node below it, the larger root
  deciding between equal weights.\<close>

definition viable_below :: "(Node \<Rightarrow> bool) \<Rightarrow> Node list \<Rightarrow> addr \<Rightarrow> bool" where
  "viable_below V h a \<longleftrightarrow> (\<exists>d \<in> desc h a. V (h ! d))"

definition outweighs :: "Node list \<Rightarrow> addr \<Rightarrow> addr \<Rightarrow> bool" where
  "outweighs h b b' \<longleftrightarrow> n_weight (h ! b') < n_weight (h ! b) \<or>
     n_weight (h ! b') = n_weight (h ! b) \<and> n_root (h ! b') \<le> n_root (h ! b)"

definition heaviest :: "(Node \<Rightarrow> bool) \<Rightarrow> Node list \<Rightarrow> addr list \<Rightarrow> addr \<Rightarrow> bool" where
  "heaviest V h bs b \<longleftrightarrow> b \<in> set bs \<and> viable_below V h b \<and> (\<forall>b' \<in> set bs. viable_below V h b' \<longrightarrow> outweighs h b b')"

definition ghost_step :: "(Node \<Rightarrow> bool) \<Rightarrow> Node list \<Rightarrow> addr \<Rightarrow> addr \<Rightarrow> bool" where
  "ghost_step V h a b \<longleftrightarrow> a < length h \<and> heaviest V h (n_children (h ! a)) b"

definition walk_end :: "Node list \<Rightarrow> addr \<Rightarrow> addr" where
  "walk_end h a = (case n_bestDescendant (h ! a) of None \<Rightarrow> a | Some d \<Rightarrow> d)"

definition best_at :: "(Node \<Rightarrow> bool) \<Rightarrow> Node list \<Rightarrow> addr \<Rightarrow> bool" where
  "best_at V h a \<longleftrightarrow>
     (case n_bestDescendant (h ! a) of None \<Rightarrow> \<forall>b \<in> set (n_children (h ! a)). \<not> viable_below V h b
      | Some e \<Rightarrow> \<exists>b. ghost_step V h a b \<and> e = walk_end h b)"

definition best_blind :: "(Node \<Rightarrow> bool) \<Rightarrow> bool" where
  "best_blind V \<longleftrightarrow> (\<forall>x d. V (x\<lparr>n_bestDescendant := d\<rparr>) = V x)"

text \<open>A heap in which the best descendants of the nodes of a set were rewritten.\<close>

definition only_best :: "addr set \<Rightarrow> Node list \<Rightarrow> Node list \<Rightarrow> bool" where
  "only_best A h h' \<longleftrightarrow> length h' = length h \<and>
     (\<forall>i < length h. \<exists>d. h' ! i = (h ! i)\<lparr>n_bestDescendant := d\<rparr> \<and> (i \<in> A \<or> d = n_bestDescendant (h ! i)))"

lemma only_bestD:
  assumes "only_best A h h'"
  shows "length h' = length h"
    "i < length h \<Longrightarrow> n_children (h' ! i) = n_children (h ! i)"
    "i < length h \<Longrightarrow> n_parent (h' ! i) = n_parent (h ! i)"
    "i < length h \<Longrightarrow> n_weight (h' ! i) = n_weight (h ! i)"
    "i < length h \<Longrightarrow> n_root (h' ! i) = n_root (h ! i)"
    "i < length h \<Longrightarrow> i \<notin> A \<Longrightarrow> h' ! i = h ! i"
    "best_blind V \<Longrightarrow> i < length h \<Longrightarrow> V (h' ! i) = V (h ! i)"
proof -
  have nth: "\<exists>d. h' ! i = (h ! i)\<lparr>n_bestDescendant := d\<rparr> \<and> (i \<in> A \<or> d = n_bestDescendant (h ! i))" if "i < length h" for i
    using assms that by (simp add: only_best_def)
  show "length h' = length h" using assms by (simp add: only_best_def)
  assume i: "i < length h"
  obtain d where d: "h' ! i = (h ! i)\<lparr>n_bestDescendant := d\<rparr>" "i \<in> A \<or> d = n_bestDescendant (h ! i)" using nth [OF i] by blast
  then show "n_children (h' ! i) = n_children (h ! i)" "n_parent (h' ! i) = n_parent (h ! i)"
    "n_weight (h' ! i) = n_weight (h ! i)" "n_root (h' ! i) = n_root (h ! i)" "i \<notin> A \<Longrightarrow> h' ! i = h ! i"
    by simp_all
  show "V (h' ! i) = V (h ! i)" if "best_blind V" using that by (simp add: d(1) best_blind_def)
qed

lemma only_best_same: "only_best A h h' \<Longrightarrow> same_tree h h'"
  using only_bestD(1-3) [of A h h'] by (simp add: same_tree_def)

lemma only_best_refl: "only_best A h h"
  by (auto simp: only_best_def intro!: exI [of _ "n_bestDescendant (h ! i)" for i])

lemma only_best_trans: "only_best A h h1 \<Longrightarrow> only_best B h1 h2 \<Longrightarrow> only_best (A \<union> B) h h2"
  unfolding only_best_def by (metis (no_types, lifting) Node.surjective Node.update_convs(13) Node.select_convs(13) UnCI)

lemma only_best_set: "a \<in> A \<Longrightarrow> only_best A h h' \<Longrightarrow> only_best A h (h'[a := (h' ! a)\<lparr>n_bestDescendant := d\<rparr>])"
proof -
  assume a: "a \<in> A" and ob: "only_best A h h'"
  have "\<exists>d'. h'[a := (h' ! a)\<lparr>n_bestDescendant := d\<rparr>] ! i = (h ! i)\<lparr>n_bestDescendant := d'\<rparr> \<and> (i \<in> A \<or> d' = n_bestDescendant (h ! i))"
    if i: "i < length h" for i
  proof -
    obtain d' where "h' ! i = (h ! i)\<lparr>n_bestDescendant := d'\<rparr>" "i \<in> A \<or> d' = n_bestDescendant (h ! i)"
      using ob i by (auto simp: only_best_def)
    then show ?thesis using a i only_bestD(1) [OF ob] by (cases "i = a") auto
  qed
  then show ?thesis using only_bestD(1) [OF ob] by (simp add: only_best_def)
qed

text \<open>The rule of the walk does not read the best descendants.\<close>

lemma viable_below_best:
  assumes "best_blind V" "tree_ok h" "only_best A h h'" "a < length h"
  shows "viable_below V h' a = viable_below V h a"
proof -
  have "V (h' ! d) = V (h ! d)" if "d \<in> desc h a" for d
    using only_bestD(7) [OF assms(3,1)] desc_up [OF assms(2) that] assms(4) by simp
  then show ?thesis unfolding viable_below_def same_tree_desc [OF only_best_same [OF assms(3)]] by simp
qed

lemma heaviest_best:
  assumes "best_blind V" "tree_ok h" "only_best A h h'" "\<And>b. b \<in> set bs \<Longrightarrow> b < length h"
  shows "heaviest V h' bs b = heaviest V h bs b"
proof -
  have o: "outweighs h' b b' = outweighs h b b'" if "b \<in> set bs" "b' \<in> set bs" for b b'
    using that by (simp add: outweighs_def only_bestD(4,5) [OF assms(3)] assms(4))
  have v: "viable_below V h' b = viable_below V h b" if "b \<in> set bs" for b
    using viable_below_best [OF assms(1-3)] assms(4) that by simp
  show ?thesis unfolding heaviest_def using o v by blast
qed

lemma ghost_step_best:
  assumes "best_blind V" "tree_ok h" "only_best A h h'"
  shows "ghost_step V h' a b = ghost_step V h a b"
proof (cases "a < length h")
  case True
  have "heaviest V h' (n_children (h ! a)) b = heaviest V h (n_children (h ! a)) b"
    using heaviest_best [OF assms] tree_okD(2) [OF assms(2) True] by blast
  then show ?thesis using True by (simp add: ghost_step_def only_bestD [OF assms(3)])
qed (simp add: ghost_step_def only_bestD [OF assms(3)])

lemma ghost_step_desc: "ghost_step V h a b \<Longrightarrow> b \<in> desc h a"
  using desc_child [of a b h b] by (simp add: ghost_step_def heaviest_def edges_def)

text \<open>A node whose subtree is not rewritten keeps its best descendant correct.\<close>

lemma best_at_best:
  assumes "best_blind V" "tree_ok h" "only_best A h h'" "a < length h" "desc h a \<inter> A = {}"
  shows "best_at V h' a = best_at V h a"
proof -
  have same: "h' ! d = h ! d" if "d \<in> desc h a" for d
    using only_bestD(6) [OF assms(3)] assms(4,5) desc_up [OF assms(2) that] that by blast
  have a: "h' ! a = h ! a" using same by simp
  have "walk_end h' b = walk_end h b" if "ghost_step V h a b" for b
    using same [OF ghost_step_desc [OF that]] by (simp add: walk_end_def)
  then have "(\<exists>b. ghost_step V h' a b \<and> e = walk_end h' b) \<longleftrightarrow> (\<exists>b. ghost_step V h a b \<and> e = walk_end h b)" for e
    using ghost_step_best [OF assms(1-3)] by metis
  moreover have "(\<forall>b \<in> set (n_children (h ! a)). \<not> viable_below V h' b) \<longleftrightarrow> (\<forall>b \<in> set (n_children (h ! a)). \<not> viable_below V h b)"
    using viable_below_best [OF assms(1-3)] tree_okD(2) [OF assms(2,4)] by blast
  ultimately show ?thesis unfolding best_at_def a by (simp split: option.split)
qed

text \<open>Where the best descendants are right, the end of the walk is viable iff some node below is.\<close>

lemma walk_end_viable:
  assumes "tree_ok h" "a < length h" "\<forall>d \<in> desc h a. best_at V h d"
  shows "walk_end h a \<in> desc h a \<and> (V (h ! walk_end h a) \<longleftrightarrow> viable_below V h a)"
  using assms(2,3)
proof (induction "length h - a" arbitrary: a rule: less_induct)
  case less
  have best: "best_at V h a" using less.prems(2) by simp
  show ?case
  proof (cases "n_bestDescendant (h ! a)")
    case None
    then have "\<not> viable_below V h b" if "b \<in> set (n_children (h ! a))" for b using best that by (simp add: best_at_def)
    then have "viable_below V h a \<longleftrightarrow> V (h ! a)"
      unfolding viable_below_def desc_step [OF less.prems(1)] by blast
    then show ?thesis using None by (simp add: walk_end_def)
  next
    case (Some e)
    then obtain b where b: "ghost_step V h a b" "e = walk_end h b" using best by (auto simp: best_at_def)
    then have child: "b \<in> set (n_children (h ! a))" "viable_below V h b" by (simp_all add: ghost_step_def heaviest_def)
    then have ab: "a < b" "b < length h" using tree_okD(2) [OF assms(1) less.prems(1)] by auto
    have sub: "desc h b \<subseteq> desc h a" using child(1) desc_step [OF less.prems(1)] by blast
    then have "walk_end h b \<in> desc h b \<and> V (h ! walk_end h b)"
      using less.hyps [of b] ab less.prems child(2) by (auto simp: diff_less_mono2)
    then show ?thesis using sub Some b(2) unfolding viable_below_def by (auto simp: walk_end_def)
  qed
qed

text \<open>What the loop over the children has found so far.\<close>

definition best_of :: "(Node \<Rightarrow> bool) \<Rightarrow> Node list \<Rightarrow> addr list \<Rightarrow> (addr \<times> u64) option \<Rightarrow> bool" where
  "best_of V h bs best \<longleftrightarrow>
     (case best of None \<Rightarrow> \<forall>b \<in> set bs. \<not> viable_below V h b
      | Some (b, w) \<Rightarrow> heaviest V h bs b \<and> w = n_weight (h ! b))"

lemma best_of_best:
  assumes "best_blind V" "tree_ok h" "only_best A h h'" "\<And>b. b \<in> set bs \<Longrightarrow> b < length h"
  shows "best_of V h' bs best = best_of V h bs best"
proof (cases best)
  case None
  then show ?thesis using viable_below_best [OF assms(1-3)] assms(4) by (simp add: best_of_def)
next
  case (Some bw)
  have "n_weight (h' ! fst bw) = n_weight (h ! fst bw)" if "heaviest V h bs (fst bw)"
    using that assms(4) only_bestD(4) [OF assms(3)] by (simp add: heaviest_def)
  then show ?thesis using heaviest_best [OF assms] Some by (cases bw) (auto simp: best_of_def)
qed

lemma heaviest_snoc:
  "heaviest V h bs b \<Longrightarrow> viable_below V h x \<longrightarrow> outweighs h b x \<Longrightarrow> heaviest V h (bs @ [x]) b"
  by (auto simp: heaviest_def)

lemma heaviest_last:
  assumes "heaviest V h bs b" "viable_below V h x" "outweighs h x b"
  shows "heaviest V h (bs @ [x]) x"
proof -
  have "outweighs h x b'" if "b' \<in> set bs" "viable_below V h b'" for b'
  proof -
    have "outweighs h b b'" using assms(1) that by (simp add: heaviest_def)
    then show ?thesis using assms(3) unfolding outweighs_def by auto
  qed
  then show ?thesis using assms(2) by (auto simp: heaviest_def outweighs_def)
qed

lemma best_of_snoc:
  assumes "best_of V h bs best"
  shows "best_of V h (bs @ [x]) (if viable_below V h x then better_child h x best else best)"
proof (cases "viable_below V h x")
  case False
  then show ?thesis using assms heaviest_snoc [of V h bs _ x] by (auto simp: best_of_def split: option.splits)
next
  case viable: True
  show ?thesis
  proof (cases best)
    case None
    then show ?thesis using assms viable by (auto simp: best_of_def better_child_def heaviest_def outweighs_def)
  next
    case (Some bw)
    then obtain b where b: "bw = (b, n_weight (h ! b))" "heaviest V h bs b" using assms by (auto simp: best_of_def split: prod.splits)
    show ?thesis
    proof (cases "outweighs h b x")
      case True
      then have "better_child h x best = best" by (auto simp: outweighs_def better_child_def Some b(1))
      then show ?thesis using heaviest_snoc [OF b(2)] True viable by (simp add: best_of_def Some b(1))
    next
      case False
      then have "better_child h x best = Some (x, n_weight (h ! x))" "outweighs h x b"
        by (auto simp: outweighs_def better_child_def Some b(1))
      then show ?thesis using heaviest_last [OF b(2) viable] viable by (simp add: best_of_def)
    qed
  qed
qed

lemma best_blind_viable: "best_blind (viableForHead j e)"
  by (simp add: best_blind_def viableForHead_def)

lemma leads_walk_end: "leadsToViableHead j e h a = viableForHead j e (h ! walk_end h a)"
  by (simp add: leadsToViableHead_def walk_end_def split: option.split)

lemma desc_children_disjoint:
  assumes "tree_ok h" "a < length h" "n_children (h ! a) = xs @ x # ys"
  shows "(\<Union>b \<in> set xs. desc h b) \<inter> desc h x = {}"
proof -
  have "distinct (xs @ x # ys)" using tree_okD(1) [OF assms(1,2)] assms(3) by simp
  then show ?thesis using children_disjoint [OF assms(1,2), of _ x] assms(3) by auto
qed

text \<open>The state of the loop over the children: their subtrees are done and the best of them is known.\<close>

definition children_done :: "(Node \<Rightarrow> bool) \<Rightarrow> Node list \<Rightarrow> addr list \<Rightarrow> Node list \<times> (addr \<times> u64) option \<Rightarrow> bool" where
  "children_done V h bs = (\<lambda>(h', best). only_best (\<Union>b \<in> set bs. desc h b) h h' \<and>
     (\<forall>d \<in> (\<Union>b \<in> set bs. desc h b). best_at V h' d) \<and> best_of V h bs best)"

lemma children_done_snoc:
  assumes "best_blind V" "tree_ok h" "a < length h" "n_children (h ! a) = xs @ x # ys"
    and prev: "children_done V h xs (h1, best)"
    and x: "only_best (desc h x) h1 h2" "\<forall>d \<in> desc h x. best_at V h2 d"
  shows "children_done V h (xs @ [x]) (h2, if V (h2 ! walk_end h2 x) then better_child h2 x best else best)"
proof -
  let ?A = "\<Union>b \<in> set xs. desc h b"
  have h1: "only_best ?A h h1" "\<forall>d \<in> ?A. best_at V h1 d" "best_of V h xs best"
    using prev by (simp_all add: children_done_def)
  have ok1: "tree_ok h1" using same_tree_ok [OF only_best_same [OF h1(1)] assms(2)] .
  have h2: "only_best (\<Union>b \<in> set (xs @ [x]). desc h b) h h2" using only_best_trans [OF h1(1) x(1)] by (simp add: Un_commute)
  have lt: "b < length h" if "b \<in> set (xs @ [x])" for b using tree_okD(2) [OF assms(2,3)] assms(4) that by auto
  have "best_at V h2 d" if "b \<in> set xs" "d \<in> desc h b" for b d
  proof -
    have "d < length h" using desc_up [OF assms(2) that(2)] lt that(1) by simp
    have "desc h d \<subseteq> desc h b" using that(2) by (auto simp: desc_def)
    then have "desc h d \<inter> desc h x = {}" using desc_children_disjoint [OF assms(2-4)] that(1) by blast
    then show ?thesis
      using best_at_best [OF assms(1) ok1 x(1), of d] \<open>d < length h\<close> h1(2) that only_bestD(1) [OF h1(1)]
      by (auto simp: same_tree_desc [OF only_best_same [OF h1(1)]])
  qed
  then have best: "\<forall>d \<in> (\<Union>b \<in> set (xs @ [x]). desc h b). best_at V h2 d" using x(2) by auto
  have "tree_ok h2" "desc h2 x = desc h x" "x < length h2"
    using same_tree_ok [OF only_best_same [OF h2] assms(2)] same_tree_desc [OF only_best_same [OF h2]] lt only_bestD(1) [OF h2] by simp_all
  then have "V (h2 ! walk_end h2 x) \<longleftrightarrow> viable_below V h2 x" using walk_end_viable [of h2 x V] x(2) by simp
  moreover have "best_of V h2 (xs @ [x]) (if viable_below V h2 x then better_child h2 x best else best)"
    using best_of_snoc best_of_best [OF assms(1,2) h2] h1(3) lt by simp
  ultimately have "best_of V h (xs @ [x]) (if V (h2 ! walk_end h2 x) then better_child h2 x best else best)"
    using best_of_best [OF assms(1,2) h2, of "xs @ [x]"] lt by simp
  then show ?thesis using h2 best by (simp add: children_done_def)
qed

text \<open>The write at the root of the subtree.\<close>

lemma children_done_root:
  assumes "best_blind V" "tree_ok h" "a < length h" "children_done V h (n_children (h ! a)) (h1, best)"
  defines "h2 \<equiv> h1[a := (h1 ! a)\<lparr>n_bestDescendant := map_option (\<lambda>(b, _). walk_end h1 b) best\<rparr>]"
  shows "only_best (desc h a) h h2 \<and> (\<forall>d \<in> desc h a. best_at V h2 d)"
proof -
  let ?A = "\<Union>b \<in> set (n_children (h ! a)). desc h b"
  have h1: "only_best ?A h h1" "\<forall>d \<in> ?A. best_at V h1 d" "best_of V h (n_children (h ! a)) best"
    using assms(4) by (simp_all add: children_done_def)
  have A: "desc h a = insert a ?A" using desc_step [OF assms(3)] .
  have "only_best (desc h a) h h1" using only_best_trans [OF h1(1) only_best_refl [of "{a}"]] A by simp
  then have h2: "only_best (desc h a) h h2" unfolding h2_def by (intro only_best_set) simp_all
  have top: "only_best {a} h1 h2" unfolding h2_def by (intro only_best_set only_best_refl) simp
  have ok1: "tree_ok h1" using same_tree_ok [OF only_best_same [OF h1(1)] assms(2)] .
  have len: "length h1 = length h" using only_bestD(1) [OF h1(1)] .
  have below: "best_at V h2 d" if d: "d \<in> ?A" for d
  proof -
    have "a \<notin> desc h d"
    proof
      assume "a \<in> desc h d"
      then have "d \<le> a" using desc_up [OF assms(2)] by blast
      moreover obtain b where "b \<in> set (n_children (h ! a))" "d \<in> desc h b" using d by blast
      then have "a < b" "b \<le> d" using desc_up [OF assms(2)] tree_okD(2) [OF assms(2,3)] by blast+
      ultimately show False by simp
    qed
    moreover have "d < length h" using desc_up [OF assms(2), of d a] A d assms(3) by blast
    ultimately show ?thesis
      using best_at_best [OF assms(1) ok1 top, of d] h1(2) d len by (auto simp add: same_tree_desc [OF only_best_same [OF h1(1)]])
  qed
  have n: "n_children (h2 ! a) = n_children (h ! a)" "n_bestDescendant (h2 ! a) = map_option (\<lambda>(b, _). walk_end h1 b) best"
    using only_bestD(2) [OF h2 assms(3)] assms(3) len by (simp_all add: h2_def)
  have "best_at V h2 a"
  proof (cases best)
    case None
    then have "\<not> viable_below V h2 b" if "b \<in> set (n_children (h ! a))" for b
      using h1(3) that viable_below_best [OF assms(1,2) h2] tree_okD(2) [OF assms(2,3) that] by (simp add: best_of_def)
    then show ?thesis using None by (simp add: best_at_def n)
  next
    case (Some bw)
    obtain b w where bw: "bw = (b, w)" by (cases bw)
    then have b: "heaviest V h (n_children (h ! a)) b" using h1(3) Some by (simp add: best_of_def)
    then have "ghost_step V h2 a b" using ghost_step_best [OF assms(1,2) h2] assms(3) by (simp add: ghost_step_def)
    moreover have "b \<noteq> a" using b tree_okD(2) [OF assms(2,3), of b] by (auto simp: heaviest_def)
    then have "walk_end h2 b = walk_end h1 b" by (simp add: h2_def walk_end_def)
    ultimately show ?thesis unfolding best_at_def n Some bw by auto
  qed
  then have "\<forall>d \<in> desc h a. best_at V h2 d" unfolding A using below by blast
  then show ?thesis using h2 by simp
qed

lemma updateBestDescendant_ok:
  assumes "tree_ok h" "a < length h" "length h - a \<le> depth"
  shows "\<exists>h'. updateBestDescendant depth j e a h = Inr h' \<and> only_best (desc h a) h h' \<and>
    (\<forall>d \<in> desc h a. best_at (viableForHead j e) h' d)"
  using assms
proof (induction depth arbitrary: a h)
  case (Suc depth)
  let ?V = "viableForHead j e"
  let ?f = "\<lambda>child (h, best). bindR (updateBestDescendant depth j e child h)
    (\<lambda>h. Inr (h, if leadsToViableHead j e h child then better_child h child best else best))"
  have "\<exists>s'. foldR ?f (n_children (h ! a)) (h, None) = Inr s' \<and> children_done ?V h (n_children (h ! a)) s'"
  proof (rule foldR_children)
    fix x xs ys s
    assume split: "n_children (h ! a) = xs @ x # ys" and s: "children_done ?V h xs s"
    obtain h1 best where s': "s = (h1, best)" by (cases s)
    have h1: "only_best (\<Union>b \<in> set xs. desc h b) h h1" using s by (simp add: children_done_def s')
    have x: "a < x" "x < length h" using split tree_okD(2) [OF Suc.prems(1,2), of x] by auto
    have "x < length h1" "length h1 - x \<le> depth" using x Suc.prems(3) only_bestD(1) [OF h1] by auto
    then obtain h2 where h2: "updateBestDescendant depth j e x h1 = Inr h2" "only_best (desc h1 x) h1 h2" "\<forall>d \<in> desc h1 x. best_at ?V h2 d"
      using Suc.IH [OF same_tree_ok [OF only_best_same [OF h1] Suc.prems(1)], of x] by blast
    have "desc h1 x = desc h x" using same_tree_desc [OF only_best_same [OF h1]] .
    then show "\<exists>s'. ?f x s = Inr s' \<and> children_done ?V h (xs @ [x]) s'"
      using children_done_snoc [OF best_blind_viable Suc.prems(1,2) split s [unfolded s']] h2
      by (simp add: s' leads_walk_end)
  qed (simp add: children_done_def best_of_def only_best_refl)
  then obtain h1 best where run: "foldR ?f (n_children (h ! a)) (h, None) = Inr (h1, best)" "children_done ?V h (n_children (h ! a)) (h1, best)"
    by (metis surj_pair)
  have "updateBestDescendant (Suc depth) j e a h = Inr (h1[a := (h1 ! a)\<lparr>n_bestDescendant := map_option (\<lambda>(b, _). walk_end h1 b) best\<rparr>])"
  proof (cases "n_children (h ! a) = []")
    case True
    then show ?thesis using run(1) by simp
  next
    case False
    then show ?thesis by (simp add: run(1) walk_end_def split: option.split)
  qed
  then show ?case using children_done_root [OF best_blind_viable Suc.prems(1,2) run(2)] by blast
qed simp

end
