(* ===== verification/Fork_Choice_Votes.thy ===== *)
theory Fork_Choice_Votes
  imports Fork_Choice_Tree
begin

text \<open>
  The votes of fork choice: \<^verbatim>\<open>updateBalances\<close> and \<^verbatim>\<open>applyProposerBoostScore\<close> keep the balance of every known node
  equal to the stake of the validators whose current vote it is, plus the proposer boost.
\<close>

section \<open>Well-formed stores\<close>

definition maps_ok :: "Store \<Rightarrow> bool" where
  "maps_ok s \<longleftrightarrow> (\<forall>r a. st_nodeByRoot s r = Some a \<longrightarrow> a < length (st_heap s) \<and> n_root (st_heap s ! a) = r)"

text \<open>The nodes of the tree are those of the map, and no block has the zero root.\<close>

definition store_ok :: "Store \<Rightarrow> bool" where
  "store_ok s \<longleftrightarrow> tree_ok (st_heap s) \<and> maps_ok s \<and>
     (\<forall>r a. st_nodeByRoot s r = Some a \<longrightarrow> (\<exists>t. st_treeRootNode s = Some t \<and> a \<in> desc (st_heap s) t)) \<and>
     (\<forall>t. st_treeRootNode s = Some t \<longrightarrow> t < length (st_heap s) \<and>
        (\<forall>d \<in> desc (st_heap s) t. n_root (st_heap s ! d) \<noteq> ZeroHash \<and> st_nodeByRoot s (n_root (st_heap s ! d)) = Some d))"

lemma maps_okD: "maps_ok s \<Longrightarrow> st_nodeByRoot s r = Some a \<Longrightarrow> a < length (st_heap s) \<and> n_root (st_heap s ! a) = r"
  by (simp add: maps_ok_def)

section \<open>Balances\<close>

definition balance_of :: "Store \<Rightarrow> root \<Rightarrow> u64 option" where
  "balance_of s r = map_option (\<lambda>a. n_balance (st_heap s ! a)) (st_nodeByRoot s r)"

text \<open>A store in which only balances of nodes differ.\<close>

definition rebalanced :: "Store \<Rightarrow> Store \<Rightarrow> bool" where
  "rebalanced s s' \<longleftrightarrow> (\<exists>h. s' = s\<lparr>st_heap := h\<rparr> \<and> length h = length (st_heap s) \<and>
     (\<forall>i < length h. \<exists>b. h ! i = (st_heap s ! i)\<lparr>n_balance := b\<rparr>))"

lemma balance_self: "\<exists>b. x = x\<lparr>n_balance := b\<rparr>" for x :: Node
  by (rule exI [of _ "n_balance x"]) simp

lemma rebalanced_refl: "rebalanced s s"
  unfolding rebalanced_def by (rule exI [of _ "st_heap s"]) (simp add: balance_self)

lemma rebalanced_trans:
  assumes "rebalanced s s1" "rebalanced s1 s2"
  shows "rebalanced s s2"
proof -
  obtain h1 where h1: "s1 = s\<lparr>st_heap := h1\<rparr>" "length h1 = length (st_heap s)"
    "\<forall>i < length h1. \<exists>b. h1 ! i = (st_heap s ! i)\<lparr>n_balance := b\<rparr>" using assms(1) by (auto simp: rebalanced_def)
  obtain h2 where h2: "s2 = s1\<lparr>st_heap := h2\<rparr>" "length h2 = length h1"
    "\<forall>i < length h2. \<exists>b. h2 ! i = (h1 ! i)\<lparr>n_balance := b\<rparr>" using assms(2) by (auto simp: rebalanced_def h1(1))
  have "\<exists>b. h2 ! i = (st_heap s ! i)\<lparr>n_balance := b\<rparr>" if i: "i < length h2" for i
  proof -
    obtain b where b: "h2 ! i = (h1 ! i)\<lparr>n_balance := b\<rparr>" using h2(3) i by blast
    obtain b' where "h1 ! i = (st_heap s ! i)\<lparr>n_balance := b'\<rparr>" using h1(3) h2(2) i by auto
    then show ?thesis using b by auto
  qed
  then show ?thesis using h1(1,2) h2(1,2) unfolding rebalanced_def by (intro exI [of _ h2]) simp
qed

lemma rebalancedD:
  assumes "rebalanced s s'"
  shows "st_nodeByRoot s' = st_nodeByRoot s" "st_slashedIndices s' = st_slashedIndices s" "st_treeRootNode s' = st_treeRootNode s"
    "st_previousProposerBoostRoot s' = st_previousProposerBoostRoot s"
    "st_previousProposerBoostScore s' = st_previousProposerBoostScore s" "st_proposerBoostRoot s' = st_proposerBoostRoot s"
    "st_committeeWeight s' = st_committeeWeight s" "st_justifiedCheckpoint s' = st_justifiedCheckpoint s"
    "st_genesisTime s' = st_genesisTime s" "length (st_heap s') = length (st_heap s)"
    "i < length (st_heap s) \<Longrightarrow> \<exists>b. st_heap s' ! i = (st_heap s ! i)\<lparr>n_balance := b\<rparr>"
  using assms by (auto simp: rebalanced_def)

lemma rebalanced_nth:
  assumes "rebalanced s s'" "i < length (st_heap s)"
  shows "n_children (st_heap s' ! i) = n_children (st_heap s ! i)" "n_parent (st_heap s' ! i) = n_parent (st_heap s ! i)"
    "n_root (st_heap s' ! i) = n_root (st_heap s ! i)" "n_justifiedEpoch (st_heap s' ! i) = n_justifiedEpoch (st_heap s ! i)"
  using rebalancedD(11) [OF assms] by auto

lemma rebalanced_same: "rebalanced s s' \<Longrightarrow> same_tree (st_heap s) (st_heap s')"
  by (simp add: same_tree_def rebalanced_nth rebalancedD(10))

lemma rebalanced_maps: "rebalanced s s' \<Longrightarrow> maps_ok s \<Longrightarrow> maps_ok s'"
  using rebalanced_nth(3) [of s s'] by (simp add: maps_ok_def rebalancedD)

lemma rebalanced_update: "rebalanced s (node_update a (\<lambda>x. x\<lparr>n_balance := f x\<rparr>) s)"
proof -
  let ?h = "(st_heap s)[a := (st_heap s ! a)\<lparr>n_balance := f (st_heap s ! a)\<rparr>]"
  have "\<exists>b. ?h ! i = (st_heap s ! i)\<lparr>n_balance := b\<rparr>" if "i < length (st_heap s)" for i
    using that by (cases "i = a") (auto simp: balance_self)
  then show ?thesis unfolding rebalanced_def node_update_def by (intro exI [of _ ?h]) simp
qed

lemma balance_of_update:
  assumes "maps_ok s" "st_nodeByRoot s r = Some a"
  shows "balance_of (node_update a (\<lambda>x. x\<lparr>n_balance := f x\<rparr>) s) r' =
    (if r' = r then Some (f (st_heap s ! a)) else balance_of s r')"
proof (cases "st_nodeByRoot s r'")
  case (Some a')
  have "a' \<noteq> a" if "r' \<noteq> r" using maps_okD [OF assms(1) Some] maps_okD [OF assms] that by auto
  then show ?thesis using Some assms(2) maps_okD [OF assms] by (cases "r' = r") (auto simp: balance_of_def node_update_def)
qed (use assms(2) in \<open>auto simp: balance_of_def node_update_def\<close>)

section \<open>Tallies\<close>

text \<open>The stake \<open>b\<close> of the validators that are not slashed and whose vote is \<open>r\<close>.\<close>

definition tally :: "ValidatorIndex set \<Rightarrow> root list \<Rightarrow> (nat \<Rightarrow> nat) \<Rightarrow> root \<Rightarrow> nat" where
  "tally S rs b r = (\<Sum>i < length rs. if of_nat i \<notin> S \<and> rs ! i = r then b i else 0)"

lemma sum_change:
  fixes f g :: "nat \<Rightarrow> nat"
  assumes "k < n" "\<And>i. i \<noteq> k \<Longrightarrow> g i = f i"
  shows "(\<Sum>i<n. g i) + f k = (\<Sum>i<n. f i) + g k"
proof -
  have "(\<Sum>i\<in>{..<n} - {k}. g i) = (\<Sum>i\<in>{..<n} - {k}. f i)" using assms(2) by (intro sum.cong) auto
  then show ?thesis using sum.remove [of "{..<n}" k f] sum.remove [of "{..<n}" k g] assms(1) by simp
qed

lemma tally_update:
  assumes "k < length rs"
  shows "tally S (rs[k := x]) (b(k := y)) r + (if of_nat k \<notin> S \<and> rs ! k = r then b k else 0) =
    tally S rs b r + (if of_nat k \<notin> S \<and> x = r then y else 0)"
proof -
  let ?g = "\<lambda>i. if of_nat i \<notin> S \<and> rs[k := x] ! i = r then (b(k := y)) i else 0"
  let ?f = "\<lambda>i. if of_nat i \<notin> S \<and> rs ! i = r then b i else 0"
  have "(\<Sum>i<length rs. ?g i) + ?f k = (\<Sum>i<length rs. ?f i) + ?g k"
    using assms by (intro sum_change) auto
  then show ?thesis using assms by (simp add: tally_def)
qed

lemma tally_le: "tally S rs b r \<le> (\<Sum>i<length rs. b i)"
  unfolding tally_def by (intro sum_mono) simp

text \<open>The balances count the votes.\<close>

definition counted :: "ValidatorIndex set \<Rightarrow> (root \<Rightarrow> nat) \<Rightarrow> root list \<Rightarrow> (nat \<Rightarrow> nat) \<Rightarrow> Store \<Rightarrow> bool" where
  "counted S boost rs b s \<longleftrightarrow>
     (\<forall>r w. r \<noteq> ZeroHash \<longrightarrow> balance_of s r = Some w \<longrightarrow> unat w = tally S rs b r + boost r)"

lemma balance_of_add:
  assumes "maps_ok s"
  shows "balance_of (add_balance r b s) r' = (if r' = r \<and> r \<noteq> ZeroHash then map_option (\<lambda>w. w + b) (balance_of s r) else balance_of s r')"
proof (cases "st_nodeByRoot s r")
  case (Some a)
  then show ?thesis using balance_of_update [OF assms Some, of "\<lambda>x. n_balance x + b"] by (simp add: add_balance_def balance_of_def)
qed (simp add: add_balance_def balance_of_def)

lemma balance_of_remove:
  assumes "maps_ok s"
  shows "balance_of (remove_balance r b s) r' =
    (if r' = r \<and> r \<noteq> ZeroHash then map_option (\<lambda>w. if w < b then 0 else w - b) (balance_of s r) else balance_of s r')"
proof (cases "st_nodeByRoot s r")
  case (Some a)
  then show ?thesis using balance_of_update [OF assms Some, of "\<lambda>x. if n_balance x < b then 0 else n_balance x - b"]
    by (simp add: remove_balance_def sub_balance_def [abs_def] balance_of_def)
qed (simp add: remove_balance_def balance_of_def)

lemma rebalanced_add: "rebalanced s (add_balance r b s)"
  by (simp add: add_balance_def rebalanced_refl rebalanced_update split: option.split)

lemma rebalanced_remove: "rebalanced s (remove_balance r b s)"
  by (simp add: remove_balance_def sub_balance_def [abs_def] rebalanced_refl rebalanced_update split: option.split)

lemma tally_member: "k < length rs \<Longrightarrow> of_nat k \<notin> S \<Longrightarrow> rs ! k = r \<Longrightarrow> b k \<le> tally S rs b r"
  unfolding tally_def by (rule order_trans [OF _ member_le_sum [of k]]) auto

text \<open>A vote moves its stake from the old root to the new one.\<close>

lemma counted_move:
  fixes nb ob :: u64
  assumes "maps_ok s" "counted S boost rs b s" "k < length rs" "of_nat k \<notin> S" "b k = unat ob"
    and fits: "\<And>r. (\<Sum>i<length rs. b i) + unat nb + boost r < 2 ^ 64"
  shows "counted S boost (rs[k := x]) (b(k := unat nb)) (remove_balance (rs ! k) ob (add_balance x nb s))"
  unfolding counted_def
proof (intro allI impI)
  fix r w' assume r: "r \<noteq> ZeroHash" and w': "balance_of (remove_balance (rs ! k) ob (add_balance x nb s)) r = Some w'"
  have maps: "maps_ok (add_balance x nb s)" using rebalanced_maps [OF rebalanced_add assms(1)] .
  obtain w where w: "balance_of s r = Some w"
    "w' = (let w1 = if r = x then w + nb else w in if r = rs ! k then (if w1 < ob then 0 else w1 - ob) else w1)"
    using w' r by (auto simp: balance_of_remove [OF maps] balance_of_add [OF assms(1)] Let_def split: if_splits)
  have uw: "unat w = tally S rs b r + boost r" using assms(2) r w(1) by (simp add: counted_def)
  then have "unat w + unat nb < 2 ^ 64" using tally_le [of S rs b r] fits [of r] by simp
  then have add: "unat (if r = x then w + nb else w) = unat w + (if x = r then unat nb else 0)"
    by (simp add: unat_word_ariths)
  have upd: "tally S (rs[k := x]) (b(k := unat nb)) r + (if rs ! k = r then unat ob else 0) = tally S rs b r + (if x = r then unat nb else 0)"
    unfolding assms(5) [symmetric] using tally_update [OF assms(3), of S x b "unat nb" r] assms(4) by simp
  show "unat w' = tally S (rs[k := x]) (b(k := unat nb)) r + boost r"
  proof (cases "r = rs ! k")
    case True
    have "unat ob \<le> unat w" using tally_member [OF assms(3,4), of r b] True uw assms(5) by simp
    then have "\<not> (if r = x then w + nb else w) < ob" using add by (simp add: word_less_nat_alt)
    then have "unat w' = unat (if r = x then w + nb else w) - unat ob" "rs ! k = r"
      using True by (simp_all add: w(2) Let_def unat_sub_if' word_less_nat_alt)
    then show ?thesis using upd uw add \<open>unat ob \<le> unat w\<close> by (simp only: if_True refl)
  next
    case False
    then have "w' = (if r = x then w + nb else w)" "rs ! k \<noteq> r" by (auto simp: w(2) Let_def)
    then show ?thesis using upd uw add by (simp only: if_False simp_thms)
  qed
qed

text \<open>One round of the loop.\<close>

definition rotated :: "ValidatorIndex set \<Rightarrow> nat \<Rightarrow> Vote list \<Rightarrow> Vote list" where
  "rotated S k votes = (if of_nat k \<in> S then votes else votes[k := (votes ! k)\<lparr>vt_currentRoot := vt_nextRoot (votes ! k)\<rparr>])"

lemma updateBalances_step_ok:
  fixes votes :: "Vote list" and old new :: "u64 list"
  assumes "maps_ok s" "counted S boost (map vt_currentRoot votes) b s" "S = st_slashedIndices s" "k < length votes"
    "b k = unat (balance_at old k)"
    and fits: "\<And>r. (\<Sum>i<length votes. b i) + unat (balance_at new k) + boost r < 2 ^ 64"
  shows "\<exists>s'. updateBalances_step old new k (s, votes) = (s', rotated S k votes) \<and> rebalanced s s' \<and>
    counted S boost (map vt_currentRoot (rotated S k votes)) (b(k := unat (balance_at new k))) s'"
proof -
  let ?v = "votes ! k" and ?nb = "balance_at new k" and ?ob = "balance_at old k" and ?rs = "map vt_currentRoot votes"
  have same: "counted S boost (?rs[k := vt_nextRoot ?v]) (b(k := unat ?nb)) s"
    if "\<And>r. r \<noteq> ZeroHash \<Longrightarrow> (if of_nat k \<notin> S \<and> vt_currentRoot ?v = r then b k else 0) = (if of_nat k \<notin> S \<and> vt_nextRoot ?v = r then unat ?nb else 0)"
    unfolding counted_def
  proof (intro allI impI)
    fix r w assume r: "r \<noteq> ZeroHash" "balance_of s r = Some w"
    have "tally S (?rs[k := vt_nextRoot ?v]) (b(k := unat ?nb)) r = tally S ?rs b r"
      using tally_update [of k ?rs S "vt_nextRoot ?v" b "unat ?nb" r] that [OF r(1)] assms(4)
      by (simp only: length_map nth_map add_right_cancel)
    then show "unat w = tally S (?rs[k := vt_nextRoot ?v]) (b(k := unat ?nb)) r + boost r"
      using assms(2) r by (simp add: counted_def)
  qed
  have upd: "map vt_currentRoot (votes[k := ?v\<lparr>vt_currentRoot := vt_nextRoot ?v\<rparr>]) = ?rs[k := vt_nextRoot ?v]"
    by (simp add: map_update)
  consider (slashed) "of_nat k \<in> S" | (unvoted) "of_nat k \<notin> S" "vt_currentRoot ?v = ZeroHash" "vt_nextRoot ?v = ZeroHash"
    | (moved) "of_nat k \<notin> S" "\<not> (vt_currentRoot ?v = ZeroHash \<and> vt_nextRoot ?v = ZeroHash)" by blast
  then show ?thesis
  proof cases
    case slashed
    have "tally S ?rs (b(k := unat ?nb)) r = tally S ?rs b r" for r
      using tally_update [of k ?rs S "?rs ! k" b "unat ?nb" r] slashed assms(4) unfolding list_update_id by simp
    then show ?thesis using assms(2,3) slashed by (simp add: updateBalances_step_def rotated_def rebalanced_refl counted_def)
  next
    case unvoted
    have "?v\<lparr>vt_currentRoot := vt_nextRoot ?v\<rparr> = ?v" using unvoted by (cases ?v) simp
    then have "votes[k := ?v\<lparr>vt_currentRoot := vt_nextRoot ?v\<rparr>] = votes" by (simp only: list_update_id)
    then show ?thesis using same unvoted assms(3) upd by (simp add: updateBalances_step_def rotated_def rebalanced_refl)
  next
    case moved
    let ?s' = "if vt_currentRoot ?v \<noteq> vt_nextRoot ?v \<or> ?ob \<noteq> ?nb
      then remove_balance (vt_currentRoot ?v) ?ob (add_balance (vt_nextRoot ?v) ?nb s) else s"
    have "updateBalances_step old new k (s, votes) = (?s', rotated S k votes)"
      using moved assms(3) by (auto simp: updateBalances_step_def rotated_def Let_def)
    moreover have "rebalanced s ?s'" by (auto intro: rebalanced_trans [OF rebalanced_add rebalanced_remove] simp: rebalanced_refl)
    moreover have "counted S boost (?rs[k := vt_nextRoot ?v]) (b(k := unat ?nb)) ?s'"
    proof (cases "vt_currentRoot ?v \<noteq> vt_nextRoot ?v \<or> ?ob \<noteq> ?nb")
      case True
      then show ?thesis using counted_move [OF assms(1,2), of k ?ob ?nb "vt_nextRoot ?v"] moved(1) assms(4,5) fits by simp
    next
      case False
      then show ?thesis using same assms(5) by simp
    qed
    ultimately show ?thesis using moved(1) upd by (simp add: rotated_def)
  qed
qed

section \<open>All votes\<close>

lemma rotated_nth:
  "length (fold (rotated S) [0..<k] votes) = length votes"
  "i < length votes \<Longrightarrow> fold (rotated S) [0..<k] votes ! i =
    (if i < k \<and> of_nat i \<notin> S then (votes ! i)\<lparr>vt_currentRoot := vt_nextRoot (votes ! i)\<rparr> else votes ! i)"
proof -
  show len: "length (fold (rotated S) [0..<k] votes) = length votes" for k
    by (induction k) (simp_all add: rotated_def)
  show "fold (rotated S) [0..<k] votes ! i =
    (if i < k \<and> of_nat i \<notin> S then (votes ! i)\<lparr>vt_currentRoot := vt_nextRoot (votes ! i)\<rparr> else votes ! i)" if "i < length votes"
    using that by (induction k) (auto simp: rotated_def nth_list_update len less_Suc_eq)
qed

lemma tally_cong:
  "length rs = length rs' \<Longrightarrow> (\<And>i. i < length rs \<Longrightarrow> of_nat i \<notin> S \<Longrightarrow> rs ! i = rs' ! i) \<Longrightarrow> tally S rs b r = tally S rs' b r"
  unfolding tally_def by (intro sum.cong) auto

lemma updateBalances_fold:
  fixes votes :: "Vote list" and ob nb :: "u64 list"
  assumes "maps_ok s" "S = st_slashedIndices s" "counted S boost (map vt_currentRoot votes) (\<lambda>i. unat (balance_at ob i)) s"
    and fits: "\<And>r. (\<Sum>i<length votes. unat (balance_at ob i) + unat (balance_at nb i)) + boost r < 2 ^ 64"
    and "k \<le> length votes"
  shows "\<exists>s'. fold (updateBalances_step ob nb) [0..<k] (s, votes) = (s', fold (rotated S) [0..<k] votes) \<and> rebalanced s s' \<and>
    counted S boost (map vt_currentRoot (fold (rotated S) [0..<k] votes))
      (\<lambda>i. if i < k then unat (balance_at nb i) else unat (balance_at ob i)) s'"
  using assms(5)
proof (induction k)
  case 0
  then show ?case using assms(3) by (simp add: rebalanced_refl)
next
  case (Suc k)
  let ?vs = "fold (rotated S) [0..<k] votes" and ?b = "\<lambda>i. if i < k then unat (balance_at nb i) else unat (balance_at ob i)"
  obtain s' where s': "fold (updateBalances_step ob nb) [0..<k] (s, votes) = (s', ?vs)" "rebalanced s s'"
    "counted S boost (map vt_currentRoot ?vs) ?b s'" using Suc by auto
  have "(\<Sum>i<length votes. ?b i) + unat (balance_at nb k) = (\<Sum>i<length votes. ?b i + (if i = k then unat (balance_at nb k) else 0))"
    using Suc.prems by (simp add: sum.distrib)
  also have "\<dots> \<le> (\<Sum>i<length votes. unat (balance_at ob i) + unat (balance_at nb i))" by (intro sum_mono) simp
  finally have "(\<Sum>i<length ?vs. ?b i) + unat (balance_at nb k) + boost r < 2 ^ 64" for r
    using fits [of r] by (simp add: rotated_nth(1))
  then obtain s2 where s2: "updateBalances_step ob nb k (s', ?vs) = (s2, rotated S k ?vs)" "rebalanced s' s2"
      "counted S boost (map vt_currentRoot (rotated S k ?vs)) (?b(k := unat (balance_at nb k))) s2"
    using updateBalances_step_ok [OF rebalanced_maps [OF s'(2) assms(1)] s'(3), of k ob nb] Suc.prems assms(2)
      rebalancedD(2) [OF s'(2)] by (auto simp: rotated_nth(1))
  have "?b(k := unat (balance_at nb k)) = (\<lambda>i. if i < Suc k then unat (balance_at nb i) else unat (balance_at ob i))"
    by (auto simp: less_Suc_eq)
  then show ?case using s'(1,2) s2 rebalanced_trans [OF s'(2) s2(2)] by simp
qed

text \<open>The boost already contained in the balances.\<close>

definition boost_of :: "Store \<Rightarrow> root \<Rightarrow> nat" where
  "boost_of s r = (if r = st_previousProposerBoostRoot s then unat (st_previousProposerBoostScore s) else 0)"

definition votes_counted :: "ForkChoice \<Rightarrow> bool" where
  "votes_counted f \<longleftrightarrow> counted (st_slashedIndices (fc_store f)) (boost_of (fc_store f)) (map vt_currentRoot (fc_votes f))
     (\<lambda>i. unat (balance_at (fc_balances f) i)) (fc_store f)"

definition total_stake :: "ForkChoice \<Rightarrow> nat" where
  "total_stake f = (\<Sum>i<length (fc_votes f). unat (balance_at (fc_balances f) i) + unat (balance_at (fc_justifiedBalances f) i))"

lemma updateBalances_ok:
  assumes "maps_ok (fc_store f)" "votes_counted f" "total_stake f + unat (st_previousProposerBoostScore (fc_store f)) < 2 ^ 64"
  defines "S \<equiv> st_slashedIndices (fc_store f)"
  shows "rebalanced (fc_store f) (fc_store (updateBalances f))" "votes_counted (updateBalances f)"
    "fc_votes (updateBalances f) = fold (rotated S) [0..<length (fc_votes f)] (fc_votes f)"
    "fc_balances (updateBalances f) = fc_justifiedBalances f" "fc_justifiedBalances (updateBalances f) = fc_justifiedBalances f"
proof -
  have "(\<Sum>i<length (fc_votes f). unat (balance_at (fc_balances f) i) + unat (balance_at (fc_justifiedBalances f) i)) + boost_of (fc_store f) r < 2 ^ 64" for r
    using assms(3) by (simp add: total_stake_def boost_of_def)
  then obtain s' where s': "fold (updateBalances_step (fc_balances f) (fc_justifiedBalances f)) [0..<length (fc_votes f)] (fc_store f, fc_votes f)
      = (s', fold (rotated S) [0..<length (fc_votes f)] (fc_votes f))" "rebalanced (fc_store f) s'"
    "counted S (boost_of (fc_store f)) (map vt_currentRoot (fold (rotated S) [0..<length (fc_votes f)] (fc_votes f)))
       (\<lambda>i. if i < length (fc_votes f) then unat (balance_at (fc_justifiedBalances f) i) else unat (balance_at (fc_balances f) i)) s'"
    using updateBalances_fold [OF assms(1) S_def [THEN meta_eq_to_obj_eq] assms(2) [unfolded votes_counted_def, folded S_def], of "fc_justifiedBalances f"]
    by blast
  have "tally S rs (\<lambda>i. if i < n then b i else b' i) r = tally S rs b r" if "length rs = n" for rs b b' r n
    using that by (auto simp: tally_def intro: sum.cong)
  then have "counted S (boost_of s') (map vt_currentRoot (fold (rotated S) [0..<length (fc_votes f)] (fc_votes f)))
       (\<lambda>i. unat (balance_at (fc_justifiedBalances f) i)) s'"
    using s'(3) rotated_nth(1) [of S "length (fc_votes f)" "fc_votes f"]
    by (simp add: counted_def boost_of_def rebalancedD [OF s'(2)])
  then show "votes_counted (updateBalances f)" using s'(1) by (simp add: votes_counted_def updateBalances_def rebalancedD [OF s'(2)] S_def)
  show "rebalanced (fc_store f) (fc_store (updateBalances f))"
    "fc_votes (updateBalances f) = fold (rotated S) [0..<length (fc_votes f)] (fc_votes f)"
    "fc_balances (updateBalances f) = fc_justifiedBalances f" "fc_justifiedBalances (updateBalances f) = fc_justifiedBalances f"
    using s'(1,2) by (simp_all add: updateBalances_def)
qed

section \<open>The proposer boost\<close>

definition boost_score :: "BeaconChainConfig \<Rightarrow> Store \<Rightarrow> u64" where
  "boost_score c s = (if st_nodeByRoot s (st_proposerBoostRoot s) = None then 0 else st_committeeWeight s * ProposerScoreBoost c div 100)"

text \<open>The two halves: take the previous boost back, add the new one.\<close>

definition take_boost :: "Store \<Rightarrow> Store" where
  "take_boost s = (if st_previousProposerBoostRoot s \<noteq> ZeroHash
     then case st_nodeByRoot s (st_previousProposerBoostRoot s) of None \<Rightarrow> s
          | Some a \<Rightarrow> node_update a (\<lambda>x. x\<lparr>n_balance := n_balance x - st_previousProposerBoostScore s\<rparr>) s
     else s)"

lemma applyProposerBoostScore_alt:
  assumes "st_proposerBoostRoot s \<noteq> ZeroHash"
  shows "applyProposerBoostScore c s = (add_balance (st_proposerBoostRoot s) (boost_score c s) (take_boost s))
    \<lparr>st_previousProposerBoostRoot := st_proposerBoostRoot s, st_previousProposerBoostScore := boost_score c s\<rparr>"
proof -
  have known: "st_nodeByRoot (take_boost s) = st_nodeByRoot s"
    by (simp add: take_boost_def node_update_def split: option.split)
  show ?thesis
    unfolding applyProposerBoostScore_def take_boost_def [symmetric] Let_def known
    using assms by (cases "st_nodeByRoot s (st_proposerBoostRoot s)") (simp_all add: add_balance_def boost_score_def known)
qed

lemma applyProposerBoostScore_none:
  assumes "st_proposerBoostRoot s = ZeroHash"
  shows "applyProposerBoostScore c s = (take_boost s)\<lparr>st_previousProposerBoostRoot := ZeroHash, st_previousProposerBoostScore := 0\<rparr>"
  unfolding applyProposerBoostScore_def take_boost_def [symmetric] Let_def using assms by simp

lemma rebalanced_take: "rebalanced s (take_boost s)"
  by (simp add: take_boost_def rebalanced_refl rebalanced_update split: option.split)

lemma counted_take:
  assumes "maps_ok s" "counted S (boost_of s) rs b s"
  shows "counted S (\<lambda>_. 0) rs b (take_boost s)"
  unfolding counted_def
proof (intro allI impI)
  fix r w assume r: "r \<noteq> ZeroHash" and w: "balance_of (take_boost s) r = Some w"
  show "unat w = tally S rs b r + 0"
  proof (cases "r = st_previousProposerBoostRoot s \<and> st_nodeByRoot s r \<noteq> None")
    case True
    then obtain a where a: "st_nodeByRoot s r = Some a" "r = st_previousProposerBoostRoot s" by auto
    then have "w = n_balance (st_heap s ! a) - st_previousProposerBoostScore s"
      using w r balance_of_update [OF assms(1) a(1)] by (simp add: take_boost_def)
    moreover have "unat (n_balance (st_heap s ! a)) = tally S rs b r + unat (st_previousProposerBoostScore s)"
      using assms(2) r a by (simp add: counted_def boost_of_def balance_of_def)
    ultimately show ?thesis by (simp add: unat_sub_if')
  next
    case False
    have "balance_of (take_boost s) r = balance_of s r"
    proof (cases "st_nodeByRoot s (st_previousProposerBoostRoot s)")
      case (Some a)
      then show ?thesis using False balance_of_update [OF assms(1) Some] by (auto simp: take_boost_def)
    qed (simp add: take_boost_def)
    then have w': "balance_of s r = Some w" using w by simp
    then have "r \<noteq> st_previousProposerBoostRoot s" using False by (auto simp: balance_of_def)
    then show ?thesis using assms(2) r w' by (simp add: counted_def boost_of_def)
  qed
qed

lemma applyProposerBoostScore_ok:
  assumes "maps_ok s" "counted S (boost_of s) rs b s"
    and fits: "(\<Sum>i<length rs. b i) + unat (boost_score c s) < 2 ^ 64"
  shows "counted S (boost_of (applyProposerBoostScore c s)) rs b (applyProposerBoostScore c s)"
    "\<exists>s1. rebalanced s s1 \<and> applyProposerBoostScore c s = s1\<lparr>st_previousProposerBoostRoot := st_proposerBoostRoot s,
       st_previousProposerBoostScore := (if st_proposerBoostRoot s = ZeroHash then 0 else boost_score c s)\<rparr>"
proof -
  have take: "counted S (\<lambda>_. 0) rs b (take_boost s)" "maps_ok (take_boost s)"
    using counted_take [OF assms(1,2)] rebalanced_maps [OF rebalanced_take assms(1)] by simp_all
  show "counted S (boost_of (applyProposerBoostScore c s)) rs b (applyProposerBoostScore c s)"
  proof (cases "st_proposerBoostRoot s = ZeroHash")
    case True
    then show ?thesis using take(1) by (simp add: applyProposerBoostScore_none counted_def boost_of_def balance_of_def)
  next
    case False
    have "unat (w + boost_score c s) = tally S rs b r + unat (boost_score c s)"
      if "r \<noteq> ZeroHash" "balance_of (take_boost s) r = Some w" for r w
    proof -
      have "unat w = tally S rs b r" using take(1) that by (simp add: counted_def)
      then show ?thesis using tally_le [of S rs b r] fits by (simp add: unat_word_ariths)
    qed
    then show ?thesis
      using take(1) balance_of_add [OF take(2), of "st_proposerBoostRoot s" "boost_score c s"] False
      by (auto simp: applyProposerBoostScore_alt counted_def boost_of_def balance_of_def split: if_splits)
  qed
  show "\<exists>s1. rebalanced s s1 \<and> applyProposerBoostScore c s = s1\<lparr>st_previousProposerBoostRoot := st_proposerBoostRoot s,
       st_previousProposerBoostScore := (if st_proposerBoostRoot s = ZeroHash then 0 else boost_score c s)\<rparr>"
  proof (cases "st_proposerBoostRoot s = ZeroHash")
    case True
    then show ?thesis using rebalanced_take by (intro exI [of _ "take_boost s"]) (simp add: applyProposerBoostScore_none)
  next
    case False
    then show ?thesis using rebalanced_trans [OF rebalanced_take rebalanced_add]
      by (intro exI [of _ "add_balance (st_proposerBoostRoot s) (boost_score c s) (take_boost s)"]) (simp add: applyProposerBoostScore_alt)
  qed
qed

end
