(* ===== verification/Fork_Choice_Head.thy ===== *)
theory Fork_Choice_Head
  imports Fork_Choice_Votes
begin

text \<open>
  The head of the chain: \<^verbatim>\<open>Head\<close> walks from the justified block to the heaviest child with a viable block below it,
  where the weight of a block is the stake of the validators whose latest vote is the block or one of its
  descendants, plus the proposer boost.
\<close>

section \<open>Weights as sums\<close>

lemma desc_finite: "tree_ok h \<Longrightarrow> a < length h \<Longrightarrow> finite (desc h a)"
  using desc_up [of h _ a] by (intro finite_subset [of "desc h a" "{..<length h}"]) auto

lemma sum_children:
  fixes f :: "addr \<Rightarrow> nat"
  assumes "tree_ok h" "a < length h"
  shows "(\<Sum>d \<in> desc h a. f d) = f a + (\<Sum>b\<leftarrow>n_children (h ! a). \<Sum>d \<in> desc h b. f d)"
proof -
  let ?cs = "n_children (h ! a)"
  have lt: "b < length h" if "b \<in> set ?cs" for b using tree_okD(2) [OF assms that] by simp
  have "(\<Sum>d \<in> (\<Union>b \<in> set ?cs. desc h b). f d) = (\<Sum>b \<in> set ?cs. \<Sum>d \<in> desc h b. f d)"
    using desc_finite [OF assms(1)] lt children_disjoint [OF assms] by (intro sum.UNION_disjoint) auto
  also have "\<dots> = (\<Sum>b\<leftarrow>?cs. \<Sum>d \<in> desc h b. f d)" using tree_okD(1) [OF assms] by (simp add: sum_list_distinct_conv_sum_set)
  finally have "(\<Sum>d \<in> (\<Union>b \<in> set ?cs. desc h b). f d) = (\<Sum>b\<leftarrow>?cs. \<Sum>d \<in> desc h b. f d)" .
  moreover have "a \<notin> (\<Union>b \<in> set ?cs. desc h b)" using root_not_below_child [OF assms] by blast
  moreover have "finite (\<Union>b \<in> set ?cs. desc h b)" using desc_finite [OF assms(1)] lt by blast
  ultimately show ?thesis using desc_step [OF assms(2)] by simp
qed

lemma sum_list_of_nat: "(\<Sum>b\<leftarrow>xs. of_nat (f b)) = of_nat (\<Sum>b\<leftarrow>xs. f b)"
  by (induction xs) simp_all

lemma spec_weight_sum:
  assumes "tree_ok h" "a < length h" "\<forall>d \<in> desc h a. n_root (h ! d) \<noteq> ZeroHash"
  shows "spec_weight h a = of_nat (\<Sum>d \<in> desc h a. unat (n_balance (h ! d)))"
  using assms(2,3)
proof (induction "length h - a" arbitrary: a rule: less_induct)
  case less
  let ?f = "\<lambda>d. unat (n_balance (h ! d))"
  have child: "spec_weight h b = of_nat (\<Sum>d \<in> desc h b. ?f d)" if b: "b \<in> set (n_children (h ! a))" for b
  proof -
    have "a < b" "b < length h" using tree_okD(2) [OF assms(1) less.prems(1) b] by auto
    moreover have "desc h b \<subseteq> desc h a" using desc_step [OF less.prems(1)] b by blast
    ultimately show ?thesis using less.hyps [of b] less.prems by (auto simp: diff_less_mono2)
  qed
  have "(\<Sum>b\<leftarrow>n_children (h ! a). spec_weight h b) = (\<Sum>b\<leftarrow>n_children (h ! a). of_nat (\<Sum>d \<in> desc h b. ?f d))"
    using child by (intro arg_cong [where f = sum_list] map_cong) auto
  also have "\<dots> = of_nat (\<Sum>b\<leftarrow>n_children (h ! a). \<Sum>d \<in> desc h b. ?f d)"
    by (rule sum_list_of_nat)
  finally have "spec_weight h a = of_nat (?f a) + of_nat (\<Sum>b\<leftarrow>n_children (h ! a). \<Sum>d \<in> desc h b. ?f d)"
    using less.prems(2) by (simp add: spec_weight_tree [OF assms(1) less.prems(1)])
  then show ?case unfolding sum_children [OF assms(1) less.prems(1)] by simp
qed

section \<open>The walk\<close>

lemma walk_end_ghost:
  assumes "tree_ok h" "a < length h" "\<forall>d \<in> desc h a. best_at V h d"
  shows "(ghost_step V h)\<^sup>*\<^sup>* a (walk_end h a) \<and> (\<forall>b. \<not> ghost_step V h (walk_end h a) b)"
  using assms(2,3)
proof (induction "length h - a" arbitrary: a rule: less_induct)
  case less
  have best: "best_at V h a" using less.prems(2) by simp
  show ?case
  proof (cases "n_bestDescendant (h ! a)")
    case None
    then show ?thesis using best by (simp add: best_at_def walk_end_def ghost_step_def heaviest_def)
  next
    case (Some e)
    then obtain b where b: "ghost_step V h a b" "e = walk_end h b" using best by (auto simp: best_at_def)
    then have child: "b \<in> set (n_children (h ! a))" by (simp add: ghost_step_def heaviest_def)
    then have ab: "a < b" "b < length h" using tree_okD(2) [OF assms(1) less.prems(1)] by auto
    have "desc h b \<subseteq> desc h a" using child desc_step [OF less.prems(1)] by blast
    then have "(ghost_step V h)\<^sup>*\<^sup>* b (walk_end h b) \<and> (\<forall>b'. \<not> ghost_step V h (walk_end h b) b')"
      using less.hyps [of b] ab less.prems by (auto simp: diff_less_mono2)
    moreover have "walk_end h a = walk_end h b" using Some b(2) by (simp add: walk_end_def)
    ultimately show ?thesis using b(1) by (simp add: converse_rtranclp_into_rtranclp)
  qed
qed

section \<open>Stake behind a block\<close>

text \<open>A root is at or below a node.\<close>

definition below :: "Store \<Rightarrow> addr \<Rightarrow> root \<Rightarrow> bool" where
  "below s b r \<longleftrightarrow> (\<exists>a. st_nodeByRoot s r = Some a \<and> a \<in> desc (st_heap s) b)"

definition attesting_weight :: "BeaconChainConfig \<Rightarrow> ForkChoice \<Rightarrow> addr \<Rightarrow> nat" where
  "attesting_weight c f b =
     (\<Sum>i < length (fc_votes f). if of_nat i \<notin> st_slashedIndices (fc_store f) \<and> below (fc_store f) b (vt_nextRoot (fc_votes f ! i))
        then unat (balance_at (fc_justifiedBalances f) i) else 0) +
     (if below (fc_store f) b (st_proposerBoostRoot (fc_store f)) then unat (boost_score c (fc_store f)) else 0)"

lemma sum_unique:
  "finite D \<Longrightarrow> inj_on g D \<Longrightarrow> (\<Sum>d \<in> D. if r = g d then x else 0) = (if r \<in> g ` D then x else (0::nat))"
proof -
  assume D: "finite D" "inj_on g D"
  show ?thesis
  proof (cases "r \<in> g ` D")
    case True
    then obtain d0 where d0: "d0 \<in> D" "r = g d0" by auto
    then have "(\<Sum>d \<in> D. if r = g d then x else 0) = (\<Sum>d \<in> D. if d = d0 then x else 0)"
      using D(2) by (intro sum.cong) (auto dest: inj_onD)
    then show ?thesis using d0 D(1) True by simp
  next
    case False
    then show ?thesis by (auto intro!: sum.neutral)
  qed
qed

lemma store_okD:
  assumes "store_ok s"
  shows "tree_ok (st_heap s)" "maps_ok s"
    "st_nodeByRoot s r = Some a \<Longrightarrow> \<exists>t. st_treeRootNode s = Some t \<and> a \<in> desc (st_heap s) t"
    "st_treeRootNode s = Some t \<Longrightarrow> t < length (st_heap s)"
    "st_treeRootNode s = Some t \<Longrightarrow> d \<in> desc (st_heap s) t \<Longrightarrow> n_root (st_heap s ! d) \<noteq> ZeroHash"
    "st_treeRootNode s = Some t \<Longrightarrow> d \<in> desc (st_heap s) t \<Longrightarrow> st_nodeByRoot s (n_root (st_heap s ! d)) = Some d"
  using assms unfolding store_ok_def by blast+

lemma desc_trans: "a \<in> desc h b \<Longrightarrow> desc h a \<subseteq> desc h b"
  unfolding desc_def by (auto intro: rtrancl_trans)

lemma tally_below:
  assumes "store_ok s" "st_treeRootNode s = Some t" "b \<in> desc (st_heap s) t"
  shows "(\<Sum>d \<in> desc (st_heap s) b. tally S rs w (n_root (st_heap s ! d)) + (if n_root (st_heap s ! d) = R then B else 0)) =
    (\<Sum>i < length rs. if of_nat i \<notin> S \<and> below s b (rs ! i) then w i else 0) + (if below s b R then B else 0)"
proof -
  let ?D = "desc (st_heap s) b" and ?g = "\<lambda>d. n_root (st_heap s ! d)"
  have known: "st_nodeByRoot s (?g d) = Some d" if "d \<in> ?D" for d
    using store_okD(6) [OF assms(1,2)] desc_trans [OF assms(3)] that by blast
  have "b < length (st_heap s)" using desc_up [OF store_okD(1) [OF assms(1)] assms(3)] store_okD(4) [OF assms(1,2)] by blast
  then have fin: "finite ?D" using desc_finite store_okD(1) [OF assms(1)] by blast
  have inj: "inj_on ?g ?D" 
  proof (rule inj_onI)
    fix d d' assume "d \<in> ?D" "d' \<in> ?D" "?g d = ?g d'"
    then have "Some d = Some d'" using known [of d] known [of d'] by metis
    then show "d = d'" by simp
  qed
  have image: "r \<in> ?g ` ?D \<longleftrightarrow> below s b r" for r
  proof
    assume "r \<in> ?g ` ?D"
    then show "below s b r" using known by (auto simp: below_def)
  next
    assume "below s b r"
    then obtain a where "st_nodeByRoot s r = Some a" "a \<in> ?D" by (auto simp: below_def)
    then show "r \<in> ?g ` ?D" using maps_okD [OF store_okD(2) [OF assms(1)]] by blast
  qed
  have "(\<Sum>d \<in> ?D. tally S rs w (?g d)) = (\<Sum>i < length rs. \<Sum>d \<in> ?D. if of_nat i \<notin> S \<and> rs ! i = ?g d then w i else 0)"
    unfolding tally_def by (rule sum.swap)
  also have "\<dots> = (\<Sum>i < length rs. if of_nat i \<notin> S \<and> below s b (rs ! i) then w i else 0)"
  proof (rule sum.cong)
    fix i
    show "(\<Sum>d \<in> ?D. if of_nat i \<notin> S \<and> rs ! i = ?g d then w i else 0) = (if of_nat i \<notin> S \<and> below s b (rs ! i) then w i else 0)"
      using sum_unique [OF fin inj, of "rs ! i" "w i"] by (cases "of_nat i \<in> S") (simp_all add: image)
  qed simp
  finally have "(\<Sum>d \<in> ?D. tally S rs w (?g d)) = \<dots>" .
  moreover have "(\<Sum>d \<in> ?D. if ?g d = R then B else 0) = (\<Sum>d \<in> ?D. if R = ?g d then B else 0)" by (intro sum.cong) auto
  then have "(\<Sum>d \<in> ?D. if ?g d = R then B else 0) = (if below s b R then B else 0)"
    unfolding sum_unique [OF fin inj] image .
  ultimately show ?thesis by (simp add: sum.distrib)
qed

section \<open>What the recomputation leaves alone\<close>

definition same_nodes :: "Node list \<Rightarrow> Node list \<Rightarrow> bool" where
  "same_nodes h h' \<longleftrightarrow> length h' = length h \<and> (\<forall>a < length h. n_children (h' ! a) = n_children (h ! a) \<and>
     n_parent (h' ! a) = n_parent (h ! a) \<and> n_root (h' ! a) = n_root (h ! a) \<and> n_justifiedEpoch (h' ! a) = n_justifiedEpoch (h ! a) \<and>
     n_slot (h' ! a) = n_slot (h ! a))"

lemma same_nodes_trans: "same_nodes h h' \<Longrightarrow> same_nodes h' h'' \<Longrightarrow> same_nodes h h''"
  by (simp add: same_nodes_def)

lemma same_nodes_tree: "same_nodes h h' \<Longrightarrow> same_tree h h'"
  by (simp add: same_nodes_def same_tree_def)

lemma same_nodes_rebalanced: "rebalanced s s' \<Longrightarrow> same_nodes (st_heap s) (st_heap s')"
  using rebalancedD(11) [of s s'] by (fastforce simp: same_nodes_def rebalancedD(10))

lemma same_nodes_reweigh: "same_nodes h (reweigh h A)"
  by (simp add: same_nodes_def)

lemma same_nodes_best: "only_best A h h' \<Longrightarrow> same_nodes h h'"
  unfolding only_best_def same_nodes_def by fastforce

lemma viable_below_same:
  assumes "tree_ok h" "same_nodes h h'" "a < length h"
  shows "viable_below (viableForHead j e) h' a = viable_below (viableForHead j e) h a"
proof -
  have "viableForHead j e (h' ! d) = viableForHead j e (h ! d)" if "d \<in> desc h a" for d
    using desc_up [OF assms(1) that] assms(2,3) by (simp add: viableForHead_def same_nodes_def)
  then show ?thesis unfolding viable_below_def same_tree_desc [OF same_nodes_tree [OF assms(2)]] by simp
qed

lemma store_ok_same:
  assumes "store_ok s" "same_nodes (st_heap s) (st_heap s')" "st_nodeByRoot s' = st_nodeByRoot s" "st_treeRootNode s' = st_treeRootNode s"
  shows "store_ok s'"
proof -
  have len: "length (st_heap s') = length (st_heap s)"
    and root: "n_root (st_heap s' ! a) = n_root (st_heap s ! a)" if "a < length (st_heap s)" for a
    using assms(2) that by (simp_all add: same_nodes_def)
  have desc: "desc (st_heap s') a = desc (st_heap s) a" for a using same_tree_desc [OF same_nodes_tree [OF assms(2)]] .
  have "tree_ok (st_heap s')" using same_tree_ok [OF same_nodes_tree [OF assms(2)] store_okD(1) [OF assms(1)]] .
  moreover have "maps_ok s'" using store_okD(2) [OF assms(1)] assms(2) by (simp add: maps_ok_def assms(3) same_nodes_def)
  moreover have "n_root (st_heap s' ! d) = n_root (st_heap s ! d)" if "st_treeRootNode s = Some t" "d \<in> desc (st_heap s) t" for t d
    using desc_up [OF store_okD(1) [OF assms(1)] that(2)] store_okD(4) [OF assms(1) that(1)] root by blast
  ultimately show ?thesis
    using assms(1) assms(2) unfolding store_ok_def assms(3,4) desc same_nodes_def by metis
qed

section \<open>Head\<close>

definition recounted :: "BeaconChainConfig \<Rightarrow> ForkChoice \<Rightarrow> ForkChoice" where
  "recounted c f = (updateBalances f)\<lparr>fc_store := applyProposerBoostScore c (fc_store (updateBalances f))\<rparr>"

text \<open>The total stake and the boosts fit a \<^verbatim>\<open>uint64\<close>.\<close>

definition stake_fits :: "BeaconChainConfig \<Rightarrow> ForkChoice \<Rightarrow> bool" where
  "stake_fits c f \<longleftrightarrow> total_stake f + unat (st_previousProposerBoostScore (fc_store f)) + unat (boost_score c (fc_store f)) < 2 ^ 64"

lemma recounted_ok:
  assumes "store_ok (fc_store f)" "votes_counted f" "stake_fits c f"
  defines "s \<equiv> fc_store f" and "s' \<equiv> fc_store (recounted c f)"
  shows "same_nodes (st_heap s) (st_heap s')" "st_nodeByRoot s' = st_nodeByRoot s" "st_treeRootNode s' = st_treeRootNode s"
    "st_justifiedCheckpoint s' = st_justifiedCheckpoint s" "st_genesisTime s' = st_genesisTime s"
    "st_slashedIndices s' = st_slashedIndices s" "votes_counted (recounted c f)"
    "boost_of s' = (\<lambda>r. if r = st_proposerBoostRoot s then unat (if r = ZeroHash then 0 else boost_score c s) else 0)"
proof -
  have maps: "maps_ok (fc_store f)" using store_okD(2) [OF assms(1)] .
  have ub: "rebalanced (fc_store f) (fc_store (updateBalances f))" "votes_counted (updateBalances f)"
    "fc_votes (updateBalances f) = fold (rotated (st_slashedIndices (fc_store f))) [0..<length (fc_votes f)] (fc_votes f)"
    "fc_balances (updateBalances f) = fc_justifiedBalances f" "fc_justifiedBalances (updateBalances f) = fc_justifiedBalances f"
    using updateBalances_ok [OF maps assms(2)] assms(3) by (simp_all add: stake_fits_def)
  have score: "boost_score c (fc_store (updateBalances f)) = boost_score c s"
    by (simp add: boost_score_def rebalancedD [OF ub(1)] s_def)
  have "(\<Sum>i<length (fc_votes f). unat (balance_at (fc_justifiedBalances f) i)) \<le> total_stake f"
    unfolding total_stake_def by (intro sum_mono) simp
  then have "(\<Sum>i<length (map vt_currentRoot (fc_votes (updateBalances f))). unat (balance_at (fc_balances (updateBalances f)) i)) +
      unat (boost_score c (fc_store (updateBalances f))) < 2 ^ 64"
    using assms(3) by (simp add: ub(3,4) score rotated_nth(1) stake_fits_def s_def)
  note boost = applyProposerBoostScore_ok [OF rebalanced_maps [OF ub(1) maps] ub(2) [unfolded votes_counted_def] this]
  obtain s1 where s1: "rebalanced (fc_store (updateBalances f)) s1" "s' = s1\<lparr>st_previousProposerBoostRoot := st_proposerBoostRoot s,
       st_previousProposerBoostScore := (if st_proposerBoostRoot s = ZeroHash then 0 else boost_score c s)\<rparr>"
    using boost(2) by (auto simp: s'_def s_def recounted_def score rebalancedD [OF ub(1)])
  note both = rebalanced_trans [OF ub(1) s1(1)]
  show "same_nodes (st_heap s) (st_heap s')" using same_nodes_rebalanced [OF both] by (simp add: s1(2) s_def)
  show "st_nodeByRoot s' = st_nodeByRoot s" "st_treeRootNode s' = st_treeRootNode s"
    "st_justifiedCheckpoint s' = st_justifiedCheckpoint s" "st_genesisTime s' = st_genesisTime s" "st_slashedIndices s' = st_slashedIndices s"
    by (simp_all add: s1(2) rebalancedD [OF both] s_def)
  then show "votes_counted (recounted c f)" using boost(1) rebalancedD(2) [OF ub(1)] by (simp add: votes_counted_def s'_def s_def recounted_def)
  show "boost_of s' = (\<lambda>r. if r = st_proposerBoostRoot s then unat (if r = ZeroHash then 0 else boost_score c s) else 0)"
    by (auto simp: s1(2) boost_of_def)
qed

lemma recounted_votes:
  assumes "store_ok (fc_store f)" "votes_counted f" "stake_fits c f"
  shows "tally (st_slashedIndices (fc_store f)) (map vt_currentRoot (fc_votes (recounted c f))) w r =
    tally (st_slashedIndices (fc_store f)) (map vt_nextRoot (fc_votes f)) w r" "fc_balances (recounted c f) = fc_justifiedBalances f"
proof -
  note ub = updateBalances_ok [OF store_okD(2) [OF assms(1)] assms(2)]
  have fits: "total_stake f + unat (st_previousProposerBoostScore (fc_store f)) < 2 ^ 64" using assms(3) by (simp add: stake_fits_def)
  show "fc_balances (recounted c f) = fc_justifiedBalances f" using ub(4) [OF fits] by (simp add: recounted_def)
  show "tally (st_slashedIndices (fc_store f)) (map vt_currentRoot (fc_votes (recounted c f))) w r =
    tally (st_slashedIndices (fc_store f)) (map vt_nextRoot (fc_votes f)) w r"
    by (rule tally_cong) (simp_all add: recounted_def ub(3) [OF fits] rotated_nth)
qed

lemma recounted_weight:
  assumes "store_ok (fc_store f)" "votes_counted f" "stake_fits c f"
    "st_treeRootNode (fc_store f) = Some t" "b \<in> desc (st_heap (fc_store f)) t"
  shows "unat (spec_weight (st_heap (fc_store (recounted c f))) b) = attesting_weight c f b"
proof -
  let ?s = "fc_store f" and ?s' = "fc_store (recounted c f)"
  let ?S = "st_slashedIndices ?s" and ?w = "\<lambda>i. unat (balance_at (fc_justifiedBalances f) i)"
  note r = recounted_ok [OF assms(1-3)] and v = recounted_votes [OF assms(1-3)]
  have ok': "store_ok ?s'" using store_ok_same [OF assms(1) r(1,2,3)] .
  have desc: "desc (st_heap ?s') a = desc (st_heap ?s) a" for a using same_tree_desc [OF same_nodes_tree [OF r(1)]] .
  have t': "st_treeRootNode ?s' = Some t" using r(3) assms(4) by simp
  have b: "b < length (st_heap ?s')"
    using desc_up [OF store_okD(1) [OF ok'], of b t] store_okD(4) [OF ok' t'] assms(5) desc by simp
  have node: "unat (n_balance (st_heap ?s' ! d)) =
      tally ?S (map vt_nextRoot (fc_votes f)) ?w (n_root (st_heap ?s' ! d)) + (if n_root (st_heap ?s' ! d) = st_proposerBoostRoot ?s then unat (boost_score c ?s) else 0)"
    if d: "d \<in> desc (st_heap ?s') b" for d
  proof -
    have "d \<in> desc (st_heap ?s') t" using d desc_trans assms(5) desc by blast
    then have "n_root (st_heap ?s' ! d) \<noteq> ZeroHash" "balance_of ?s' (n_root (st_heap ?s' ! d)) = Some (n_balance (st_heap ?s' ! d))"
      using store_okD(5,6) [OF ok' t'] by (simp_all add: balance_of_def)
    then show ?thesis using r(7) by (simp add: votes_counted_def counted_def v r(6,8))
  qed
  have below: "below ?s' b x = below ?s b x" for x by (simp add: below_def desc r(2))
  have sum: "(\<Sum>d \<in> desc (st_heap ?s') b. unat (n_balance (st_heap ?s' ! d))) = attesting_weight c f b"
    using tally_below [OF ok' t', of b ?S "map vt_nextRoot (fc_votes f)" ?w "st_proposerBoostRoot ?s" "unat (boost_score c ?s)"] assms(5) node
    by (simp add: attesting_weight_def below desc)
  have "attesting_weight c f b \<le> (\<Sum>i<length (fc_votes f). ?w i) + unat (boost_score c ?s)"
    unfolding attesting_weight_def by (intro add_mono sum_mono) simp_all
  moreover have "(\<Sum>i<length (fc_votes f). ?w i) \<le> total_stake f" unfolding total_stake_def by (intro sum_mono) simp
  ultimately have "attesting_weight c f b < 2 ^ 64" using assms(3) by (simp add: stake_fits_def)
  moreover have "\<forall>d \<in> desc (st_heap ?s') b. n_root (st_heap ?s' ! d) \<noteq> ZeroHash"
    using store_okD(5) [OF ok' t'] desc_trans assms(5) desc by blast
  ultimately show ?thesis
    using spec_weight_sum [OF store_okD(1) [OF ok'] b] sum by (simp add: unat_of_nat)
qed

lemma run_bindS:
  "bindS (modifyS g) k s = k () (g s)" "bindS (readS p) k1 s1 = k1 (p s1) s1" "bindS (liftS (Inr x)) k2 s2 = k2 x s2"
  "bindS (onStore (modifyS g')) k3 f = k3 () (f\<lparr>fc_store := g' (fc_store f)\<rparr>)"
  by (simp_all add: bindS_def modifyS_def readS_def liftS_def onStore_def)

text \<open>\<^verbatim>\<open>Head\<close> reduces to \<^verbatim>\<open>store.head\<close> on a tree with the new weights and the best descendants they give.\<close>

lemma head_recomputed:
  assumes "store_ok (fc_store f)" "votes_counted f" "stake_fits c f" "st_treeRootNode (fc_store f) = Some t"
    "EpochsSinceGenesis c now (st_genesisTime (fc_store f)) = Inr e"
  defines "h1 \<equiv> st_heap (fc_store (recounted c f))"
  shows "\<exists>h. only_best (desc h1 t) (reweigh h1 (desc h1 t)) h \<and>
    (\<forall>d \<in> desc h1 t. best_at (viableForHead (cp_Epoch (st_justifiedCheckpoint (fc_store f))) e) h d) \<and>
    forkchoice_Head c now f = onStore (store_head c now) ((recounted c f)\<lparr>fc_store := (fc_store (recounted c f))\<lparr>st_heap := h\<rparr>\<rparr>)"
proof -
  let ?j = "cp_Epoch (st_justifiedCheckpoint (fc_store f))" and ?s = "fc_store (recounted c f)" and ?h2 = "reweigh h1 (desc h1 t)"
  note r = recounted_ok [OF assms(1-3)]
  have ok: "store_ok ?s" using store_ok_same [OF assms(1) r(1,2,3)] .
  have t: "st_treeRootNode ?s = Some t" "t < length h1" using r(3) assms(4) store_okD(4) [OF ok] by (simp_all add: h1_def)
  have tree: "tree_ok h1" using store_okD(1) [OF ok] by (simp add: h1_def)
  have weigh: "applyWeightChanges (length h1) t h1 = Inr ?h2" using applyWeightChanges_ok [OF tree t(2)] by simp
  have "tree_ok ?h2" "desc ?h2 t = desc h1 t" using same_tree_ok [OF reweigh_same tree] same_tree_desc [OF reweigh_same] by simp_all
  then obtain h where h: "updateBestDescendant (length ?h2) ?j e t ?h2 = Inr h" "only_best (desc h1 t) ?h2 h"
    "\<forall>d \<in> desc h1 t. best_at (viableForHead ?j e) h d"
    using updateBestDescendant_ok [of ?h2 t "length ?h2" ?j e] t(2) by auto
  have "updateBest_from_root ?j e (?s\<lparr>st_heap := ?h2\<rparr>) = (Inr (), ?s\<lparr>st_heap := h\<rparr>)"
    using h(1) t(1) by (simp add: updateBest_from_root_def bindS_def readS_def liftS_def deref_def modifyS_def)
  then have best: "wrapS ''could not update best descendant'' (onStore (updateBest_from_root ?j e)) ((recounted c f)\<lparr>fc_store := ?s\<lparr>st_heap := ?h2\<rparr>\<rparr>)
      = (Inr (), (recounted c f)\<lparr>fc_store := ?s\<lparr>st_heap := h\<rparr>\<rparr>)"
    by (simp add: wrapS_def onStore_def)
  have "deref (st_treeRootNode ?s) = Inr t" using t(1) by (simp add: deref_def)
  then have "forkchoice_Head c now f = onStore (store_head c now) ((recounted c f)\<lparr>fc_store := ?s\<lparr>st_heap := h\<rparr>\<rparr>)"
    unfolding forkchoice_Head_def run_bindS recounted_def [symmetric]
    by (simp only: run_bindS weigh [unfolded h1_def] r(4,5) assms(5) bindS_liftS) (simp add: bindS_def best [unfolded h1_def])
  then show ?thesis using h(2,3) by blast
qed

text \<open>The rule of LMD GHOST: the child with the most stake behind it among those with a viable block below.\<close>

definition lmd_step :: "BeaconChainConfig \<Rightarrow> Epoch \<Rightarrow> ForkChoice \<Rightarrow> addr \<Rightarrow> addr \<Rightarrow> bool" where
  "lmd_step c e f a b \<longleftrightarrow>
     (let h = st_heap (fc_store f); V = viableForHead (cp_Epoch (st_justifiedCheckpoint (fc_store f))) e; W = attesting_weight c f in
      b \<in> set (n_children (h ! a)) \<and> viable_below V h b \<and>
      (\<forall>b' \<in> set (n_children (h ! a)). viable_below V h b' \<longrightarrow>
         W b' < W b \<or> W b' = W b \<and> n_root (h ! b') \<le> n_root (h ! b)))"

text \<open>The block the walk starts from: the justified one, at genesis the root of the tree.\<close>

definition start_node :: "BeaconChainConfig \<Rightarrow> ForkChoice \<Rightarrow> addr option" where
  "start_node c f = (case st_nodeByRoot (fc_store f) (cp_Root (st_justifiedCheckpoint (fc_store f))) of Some a \<Rightarrow> Some a
     | None \<Rightarrow> if cp_Epoch (st_justifiedCheckpoint (fc_store f)) = GenesisEpoch c then st_treeRootNode (fc_store f) else None)"

lemma ghost_step_lmd:
  assumes "store_ok (fc_store f)" "st_treeRootNode (fc_store f) = Some t" "a \<in> desc (st_heap (fc_store f)) t"
    and same: "same_nodes (st_heap (fc_store f)) h"
    and weight: "\<And>b. b \<in> desc (st_heap (fc_store f)) t \<Longrightarrow> unat (n_weight (h ! b)) = attesting_weight c f b"
  shows "ghost_step (viableForHead (cp_Epoch (st_justifiedCheckpoint (fc_store f))) e) h a b = lmd_step c e f a b"
proof -
  let ?h = "st_heap (fc_store f)" and ?V = "viableForHead (cp_Epoch (st_justifiedCheckpoint (fc_store f))) e"
  note tree = store_okD(1) [OF assms(1)]
  have a: "a < length ?h" using desc_up [OF tree assms(3)] store_okD(4) [OF assms(1,2)] by blast
  have child: "b \<in> desc ?h t" "b < length ?h" if "b \<in> set (n_children (?h ! a))" for b
    using desc_trans [OF assms(3)] desc_child [of a b ?h b] tree_okD(2) [OF tree a that] that a by (auto simp: edges_def)
  have "outweighs h b b' \<longleftrightarrow> attesting_weight c f b' < attesting_weight c f b \<or>
      attesting_weight c f b' = attesting_weight c f b \<and> n_root (?h ! b') \<le> n_root (?h ! b)"
    if "b \<in> set (n_children (?h ! a))" "b' \<in> set (n_children (?h ! a))" for b b'
    using child [OF that(1)] child [OF that(2)] same
    by (simp add: outweighs_def word_less_nat_alt word_unat_eq_iff weight same_nodes_def)
  moreover have "viable_below ?V h b = viable_below ?V ?h b" if "b \<in> set (n_children (?h ! a))" for b
    using viable_below_same [OF tree same] child(2) [OF that] .
  moreover have "n_children (h ! a) = n_children (?h ! a)" "length h = length ?h" using same a by (simp_all add: same_nodes_def)
  ultimately show ?thesis unfolding ghost_step_def heaviest_def lmd_step_def Let_def using a by auto
qed

text \<open>\<^verbatim>\<open>store.head\<close> once the best descendants are right.\<close>

lemma store_head_run:
  assumes "start_node c f = Some j" "EpochsSinceGenesis c now (st_genesisTime (fc_store f)) = Inr e"
    "st_nodeByRoot s = st_nodeByRoot (fc_store f)" "st_justifiedCheckpoint s = st_justifiedCheckpoint (fc_store f)"
    "st_treeRootNode s = st_treeRootNode (fc_store f)" "st_genesisTime s = st_genesisTime (fc_store f)"
  shows "store_head c now s =
    (let d = walk_end (st_heap s) j in
     if viableForHead (cp_Epoch (st_justifiedCheckpoint (fc_store f))) e (st_heap s ! d)
     then (Inr (n_root (st_heap s ! d)), s\<lparr>st_allTipsAreInvalid := False, st_headNode := Some d\<rparr>)
     else (Inl (Err ''head is not eligible''), s\<lparr>st_allTipsAreInvalid := True\<rparr>))"
proof -
  have start: "(case st_nodeByRoot s (cp_Root (st_justifiedCheckpoint s)) of Some a \<Rightarrow> returnS a
       | None \<Rightarrow> if cp_Epoch (st_justifiedCheckpoint s) = GenesisEpoch c then liftS (deref (st_treeRootNode s))
                else liftS (Inl errUnknownJustifiedRoot)) = returnS j"
    using assms(1) by (auto simp: start_node_def assms(3-5) deref_def returnS_def liftS_def fun_eq_iff split: option.splits if_splits)
  show ?thesis
    unfolding store_head_def run_bindS id_apply start bindS_liftS
    by (simp add: run_bindS assms(2,4,6) walk_end_def [symmetric] Let_def returnS_def liftS_def)
qed

lemma lmd_path:
  assumes "store_ok (fc_store f)" "st_treeRootNode (fc_store f) = Some t" "j \<in> desc (st_heap (fc_store f)) t"
    and same: "same_nodes (st_heap (fc_store f)) h"
    and weight: "\<And>b. b \<in> desc (st_heap (fc_store f)) t \<Longrightarrow> unat (n_weight (h ! b)) = attesting_weight c f b"
    and path: "(ghost_step (viableForHead (cp_Epoch (st_justifiedCheckpoint (fc_store f))) e) h)\<^sup>*\<^sup>* j x"
  shows "x \<in> desc (st_heap (fc_store f)) t \<and> (lmd_step c e f)\<^sup>*\<^sup>* j x"
  using path
proof (induction rule: rtranclp_induct)
  case (step y z)
  then have y: "y \<in> desc (st_heap (fc_store f)) t" "(lmd_step c e f)\<^sup>*\<^sup>* j y" by simp_all
  then have "lmd_step c e f y z" using ghost_step_lmd [OF assms(1,2) y(1) same weight] step.hyps(2) by simp
  moreover have "z \<in> desc (st_heap (fc_store f)) t"
    using ghost_step_desc [OF step.hyps(2)] same_tree_desc [OF same_nodes_tree [OF same]] desc_trans [OF y(1)] by auto
  ultimately show ?case using y(2) by (simp add: rtranclp.rtrancl_into_rtrancl)
qed (use assms(3) in simp)

lemma votes_counted_heap:
  assumes "votes_counted f" "maps_ok (fc_store f)" "\<And>a. a < length (st_heap (fc_store f)) \<Longrightarrow> n_balance (h ! a) = n_balance (st_heap (fc_store f) ! a)"
  shows "votes_counted (f\<lparr>fc_store := (fc_store f)\<lparr>st_heap := h, st_allTipsAreInvalid := v, st_headNode := d\<rparr>\<rparr>)"
proof -
  have "n_balance (h ! a) = n_balance (st_heap (fc_store f) ! a)" if "st_nodeByRoot (fc_store f) x = Some a" for a x
    using maps_okD [OF assms(2) that] assms(3) by simp
  then have "balance_of ((fc_store f)\<lparr>st_heap := h, st_allTipsAreInvalid := v, st_headNode := d\<rparr>) x = balance_of (fc_store f) x" for x
    by (cases "st_nodeByRoot (fc_store f) x") (auto simp: balance_of_def)
  then show ?thesis using assms(1) by (simp add: votes_counted_def counted_def boost_of_def)
qed

lemma head_ok:
  assumes "store_ok (fc_store f)" "votes_counted f" "stake_fits c f" "start_node c f = Some j"
    "EpochsSinceGenesis c now (st_genesisTime (fc_store f)) = Inr e"
  defines "h \<equiv> st_heap (fc_store f)" and "V \<equiv> viableForHead (cp_Epoch (st_justifiedCheckpoint (fc_store f))) e"
  obtains t d f' where "st_treeRootNode (fc_store f) = Some t"
    "(lmd_step c e f)\<^sup>*\<^sup>* j d" "\<And>b. \<not> lmd_step c e f d b" "V (h ! d) \<longleftrightarrow> viable_below V h j"
    "forkchoice_Head c now f = (if V (h ! d) then Inr (n_root (h ! d)) else Inl (Err ''head is not eligible''), f')"
    "\<And>b. b \<in> desc h t \<Longrightarrow> unat (n_weight (st_heap (fc_store f') ! b)) = attesting_weight c f b"
    "store_ok (fc_store f')" "votes_counted f'" "V (h ! d) \<Longrightarrow> st_headNode (fc_store f') = Some d"
proof -
  let ?s1 = "fc_store (recounted c f)"
  note tree = store_okD(1) [OF assms(1)] and r = recounted_ok [OF assms(1-3)]
  have "\<exists>t. st_treeRootNode (fc_store f) = Some t \<and> j \<in> desc h t"
    using assms(4) store_okD(3) [OF assms(1)] by (auto simp: start_node_def h_def split: option.splits if_splits)
  then obtain t where t: "st_treeRootNode (fc_store f) = Some t" "j \<in> desc h t" by blast
  obtain h2 where h2: "only_best (desc h t) (reweigh (st_heap ?s1) (desc h t)) h2" "\<forall>d \<in> desc h t. best_at V h2 d"
    "forkchoice_Head c now f = onStore (store_head c now) ((recounted c f)\<lparr>fc_store := ?s1\<lparr>st_heap := h2\<rparr>\<rparr>)"
    using head_recomputed [OF assms(1-3) t(1) assms(5)] same_tree_desc [OF same_nodes_tree [OF r(1)]] unfolding h_def V_def by auto
  have same: "same_nodes h h2"
    using same_nodes_trans [OF r(1)] same_nodes_trans [OF same_nodes_reweigh same_nodes_best [OF h2(1)]] by (simp add: h_def)
  have desc2: "desc h2 a = desc h a" for a using same_tree_desc [OF same_nodes_tree [OF same]] .
  have lt: "b < length h" if "b \<in> desc h t" for b using desc_up [OF tree] store_okD(4) [OF assms(1) t(1)] that by (auto simp: h_def)
  have weight: "unat (n_weight (h2 ! b)) = attesting_weight c f b" if b: "b \<in> desc h t" for b
    using recounted_weight [OF assms(1-3) t(1)] b only_bestD(4) [OF h2(1), of b] lt [OF b] r(1)
    by (simp add: h_def same_nodes_def)
  let ?d = "walk_end h2 j"
  have tree2: "tree_ok h2" using same_tree_ok [OF same_nodes_tree [OF same]] tree by (simp add: h_def)
  have j: "j < length h2" "\<forall>d \<in> desc h2 j. best_at V h2 d"
    using same lt [OF t(2)] h2(2) desc2 desc_trans [OF t(2)] by (auto simp: same_nodes_def)
  note walk = walk_end_ghost [OF tree2 j] and viable = walk_end_viable [OF tree2 j]
  have step: "ghost_step V h2 a b = lmd_step c e f a b" if "a \<in> desc h t" for a b
    using ghost_step_lmd [OF assms(1) t(1) that [unfolded h_def] same [unfolded h_def] weight [unfolded h_def]] by (simp add: V_def)
  have d: "?d \<in> desc h t" using viable desc2 desc_trans [OF t(2)] by auto
  have path: "(lmd_step c e f)\<^sup>*\<^sup>* j ?d"
    using lmd_path [OF assms(1) t(1) t(2) [unfolded h_def] same [unfolded h_def] weight [unfolded h_def]] walk by (simp add: V_def)
  have node: "V (h2 ! ?d) = V (h ! ?d)" "n_root (h2 ! ?d) = n_root (h ! ?d)"
    using same lt [OF d] by (simp_all add: V_def viableForHead_def same_nodes_def)
  have vb: "viable_below V h2 j = viable_below V h j"
    using viable_below_same [OF tree same [unfolded h_def]] lt [OF t(2)] by (simp add: V_def h_def)
  let ?s = "?s1\<lparr>st_heap := h2\<rparr>"
  let ?s' = "?s\<lparr>st_allTipsAreInvalid := \<not> V (h ! ?d), st_headNode := (if V (h ! ?d) then Some ?d else st_headNode ?s)\<rparr>"
  have run: "forkchoice_Head c now f = (if V (h ! ?d) then Inr (n_root (h ! ?d)) else Inl (Err ''head is not eligible''), (recounted c f)\<lparr>fc_store := ?s'\<rparr>)"
    unfolding h2(3) onStore_def
    using store_head_run [OF assms(4,5), of ?s] r(2-5) node by (simp add: V_def Let_def)
  have "store_ok ?s'" by (rule store_ok_same [OF assms(1)]) (use same r(2,3) in \<open>simp_all add: h_def\<close>)
  moreover have "votes_counted ((recounted c f)\<lparr>fc_store := ?s'\<rparr>)"
  proof (rule votes_counted_heap [OF r(7)])
    show "maps_ok ?s1" using store_ok_same [OF assms(1) r(1-3)] store_okD(2) by blast
    show "n_balance (h2 ! a) = n_balance (st_heap ?s1 ! a)" if "a < length (st_heap ?s1)" for a
      using h2(1) that by (force simp: only_best_def)
  qed
  ultimately show ?thesis
    using that [of t ?d "(recounted c f)\<lparr>fc_store := ?s'\<rparr>"] t(1) path walk step [OF d] viable vb node(1) run weight by simp
qed

end
