(* ===== verification/Fork_Choice_Updates.thy ===== *)
theory Fork_Choice_Updates
  imports Fork_Choice_Head
begin

text \<open>
  Attestations, slashings and new blocks keep the invariants the head relies on: the store stays well formed and the
  balances count the current votes.
\<close>

section \<open>Attestations\<close>

lemma tally_zero: "r \<noteq> ZeroHash \<Longrightarrow> tally S (rs @ replicate m ZeroHash) b r = tally S rs b r"
proof (induction m)
  case (Suc m)
  have snoc: "tally S (xs @ [ZeroHash]) b r = tally S xs b r" for xs
    using Suc.prems by (simp add: tally_def nth_append)
  show ?case using Suc snoc [of "rs @ replicate m ZeroHash"] by (simp add: replicate_append_same [symmetric])
qed simp

lemma attest_vote_current:
  "map vt_currentRoot (attest_vote r e i votes) = map vt_currentRoot votes @ replicate (Suc (unat i) - length votes) ZeroHash"
proof -
  let ?vs = "votes @ replicate (Suc (unat i) - length votes) zero_Vote"
  have "map vt_currentRoot (?vs[unat i := (?vs ! unat i)\<lparr>vt_nextEpoch := e, vt_nextRoot := r\<rparr>]) = map vt_currentRoot ?vs"
    by (simp add: map_update del: map_append) (metis list_update_id map_update)
  then show ?thesis by (simp add: attest_vote_def Let_def zero_Vote_def)
qed

lemma attest_votes_current:
  "\<exists>m. map vt_currentRoot (fold (attest_vote r e) is votes) = map vt_currentRoot votes @ replicate m ZeroHash"
proof (induction "is" arbitrary: votes)
  case (Cons i "is")
  obtain m where "map vt_currentRoot (fold (attest_vote r e) is (attest_vote r e i votes)) =
      map vt_currentRoot (attest_vote r e i votes) @ replicate m ZeroHash" using Cons.IH by blast
  then show ?case using attest_vote_current [of r e i votes] by (auto simp: replicate_add [symmetric])
qed simp

lemma ProcessAttestation_counted:
  assumes "votes_counted f"
  shows "votes_counted (forkchoice_ProcessAttestation is r e f)"
proof -
  obtain m where "map vt_currentRoot (fold (attest_vote r e) is (fc_votes f)) = map vt_currentRoot (fc_votes f) @ replicate m ZeroHash"
    using attest_votes_current by blast
  then show ?thesis using assms by (simp add: votes_counted_def forkchoice_ProcessAttestation_def counted_def tally_zero)
qed

section \<open>Slashings\<close>

lemma tally_slash:
  fixes i :: ValidatorIndex
  assumes "length rs \<le> 2 ^ 64" "i \<notin> S"
  shows "tally (insert i S) rs b r + (if unat i < length rs \<and> rs ! unat i = r then b (unat i) else 0) = tally S rs b r"
proof -
  let ?f = "\<lambda>k. if of_nat k \<notin> S \<and> rs ! k = r then b k else 0"
  let ?g = "\<lambda>k. if of_nat k \<notin> insert i S \<and> rs ! k = r then b k else 0"
  have idx: "(of_nat k :: ValidatorIndex) = i \<longleftrightarrow> k = unat i" if "k < length rs" for k
    using that assms(1) by (simp add: word_unat_eq_iff unat_of_nat)
  show ?thesis
  proof (cases "unat i < length rs")
    case True
    have "(\<Sum>k\<in>{..<length rs} - {unat i}. ?g k) = (\<Sum>k\<in>{..<length rs} - {unat i}. ?f k)" using idx by (intro sum.cong) auto
    moreover have "?g (unat i) = 0" "?f (unat i) = (if rs ! unat i = r then b (unat i) else 0)" using assms(2) by simp_all
    ultimately show ?thesis
      using sum.remove [of "{..<length rs}" "unat i" ?f] sum.remove [of "{..<length rs}" "unat i" ?g] True by (simp add: tally_def)
  next
    case False
    have "(\<Sum>k<length rs. ?g k) = (\<Sum>k<length rs. ?f k)" using idx False by (intro sum.cong) auto
    then show ?thesis using False by (simp add: tally_def)
  qed
qed

lemma balance_of_sub:
  assumes "maps_ok s" "st_nodeByRoot s r = Some a"
  shows "balance_of (node_update a (sub_balance w) s) r' = (if r' = r
    then Some (if n_balance (st_heap s ! a) < w then 0 else n_balance (st_heap s ! a) - w) else balance_of s r')"
  unfolding sub_balance_def [abs_def] using balance_of_update [OF assms] .

lemma InsertSlashedIndex_ok:
  assumes "store_ok (fc_store f)" "votes_counted f" "length (fc_votes f) \<le> 2 ^ 64"
  shows "store_ok (fc_store (InsertSlashedIndex i f)) \<and> votes_counted (InsertSlashedIndex i f)"
proof (cases "i \<in> st_slashedIndices (fc_store f)")
  case True
  then show ?thesis using assms(1,2) by (simp add: InsertSlashedIndex_def)
next
  case False
  let ?s = "fc_store f" and ?rs = "map vt_currentRoot (fc_votes f)" and ?b = "\<lambda>k. unat (balance_at (fc_balances f) k)"
  let ?S = "st_slashedIndices ?s" and ?k = "unat i"
  let ?s1 = "?s\<lparr>st_slashedIndices := insert i ?S\<rparr>"
  have maps: "maps_ok ?s1" using store_okD(2) [OF assms(1)] by (simp add: maps_ok_def)
  have tally: "tally (insert i ?S) ?rs ?b r + (if ?k < length ?rs \<and> ?rs ! ?k = r then ?b ?k else 0) = tally ?S ?rs ?b r" for r
    using tally_slash [of ?rs i ?S ?b r] assms(3) False by simp
  have counted: "unat w = tally ?S ?rs ?b r + boost_of ?s r" if "r \<noteq> ZeroHash" "balance_of ?s r = Some w" for r w
    using assms(2) that by (simp add: votes_counted_def counted_def)
  show ?thesis
  proof (cases "?k < length (fc_balances f) \<and> ?k < length (fc_votes f) \<and> st_nodeByRoot ?s (?rs ! ?k) \<noteq> None")
    case True
    then obtain a where a: "st_nodeByRoot ?s (?rs ! ?k) = Some a" by auto
    let ?s2 = "node_update a (sub_balance (fc_balances f ! ?k)) ?s1"
    have "st_nodeByRoot ?s1 (?rs ! ?k) = Some a" using a by simp
    note upd = balance_of_sub [OF maps this, of "fc_balances f ! ?k"]
    have run: "InsertSlashedIndex i f = f\<lparr>fc_store := ?s2\<rparr>" using True False a by (simp add: InsertSlashedIndex_def Let_def)
    have re: "rebalanced ?s1 ?s2" unfolding sub_balance_def [abs_def] by (rule rebalanced_update)
    have "store_ok ?s2" by (rule store_ok_same [OF assms(1)]) (use same_nodes_rebalanced [OF re] rebalancedD [OF re] in simp_all)
    moreover have "unat w = tally (insert i ?S) ?rs ?b r + boost_of ?s r" if r: "r \<noteq> ZeroHash" "balance_of ?s2 r = Some w" for r w
    proof (cases "r = ?rs ! ?k")
      case eq: True
      let ?w = "n_balance (st_heap ?s ! a)" and ?o = "fc_balances f ! ?k"
      have w: "w = (if ?w < ?o then 0 else ?w - ?o)"
        using r(2) unfolding upd eq by (auto split: if_splits)
      have "unat ?w = tally ?S ?rs ?b r + boost_of ?s r" using counted [OF r(1)] a eq by (simp add: balance_of_def)
      moreover have "?b ?k = unat ?o" using True by (simp add: balance_at_def)
      ultimately have "unat ?w = tally (insert i ?S) ?rs ?b r + unat ?o + boost_of ?s r" using tally [of r] True eq by simp
      then show ?thesis unfolding w by (simp add: word_less_nat_alt unat_sub_if')
    next
      case ne: False
      have "balance_of ?s r = Some w" using r(2) ne unfolding upd by (simp add: balance_of_def)
      then show ?thesis using counted [OF r(1)] tally [of r] ne True by simp
    qed
    ultimately show ?thesis using run by (simp add: votes_counted_def counted_def node_update_def boost_of_def)
  next
    case no: False
    have run: "InsertSlashedIndex i f = f\<lparr>fc_store := ?s1\<rparr>"
      using no False by (auto simp: InsertSlashedIndex_def Let_def split: option.splits)
    have "tally (insert i ?S) ?rs ?b r = tally ?S ?rs ?b r" if "balance_of ?s r \<noteq> None" for r
      using tally [of r] no that by (auto simp: balance_of_def balance_at_def split: if_splits)
    moreover have "store_ok ?s1" by (rule store_ok_same [OF assms(1)]) (simp_all add: same_nodes_def)
    ultimately show ?thesis using counted by (simp add: run votes_counted_def counted_def balance_of_def boost_of_def)
  qed
qed

section \<open>New blocks\<close>

text \<open>The invariants of a store, for the votes \<open>rs\<close> with stake \<open>b\<close>.\<close>

definition store_inv :: "ValidatorIndex set \<Rightarrow> (root \<Rightarrow> nat) \<Rightarrow> root list \<Rightarrow> (nat \<Rightarrow> nat) \<Rightarrow> Store \<Rightarrow> bool" where
  "store_inv S B rs b s \<longleftrightarrow> store_ok s \<and> counted S B rs b s \<and> st_slashedIndices s = S \<and> boost_of s = B"

lemma boost_of_fields [simp]:
  "boost_of (s\<lparr>st_receivedBlocksLastEpoch := x\<rparr>) = boost_of s" "boost_of (s\<lparr>st_highestReceivedNode := y\<rparr>) = boost_of s"
  "boost_of (s\<lparr>st_proposerBoostRoot := z\<rparr>) = boost_of s" "boost_of (s\<lparr>st_headNode := y\<rparr>) = boost_of s"
  "boost_of (s\<lparr>st_heap := h\<rparr>) = boost_of s" "boost_of (s\<lparr>st_nodeByRoot := m\<rparr>) = boost_of s" "boost_of (s\<lparr>st_treeRootNode := y\<rparr>) = boost_of s"
  by (auto simp: boost_of_def)

lemma store_inv_fields:
  assumes "store_inv S B rs b s"
  shows "store_inv S B rs b (s\<lparr>st_receivedBlocksLastEpoch := x\<rparr>)" "store_inv S B rs b (s\<lparr>st_highestReceivedNode := y\<rparr>)"
    "store_inv S B rs b (s\<lparr>st_proposerBoostRoot := z\<rparr>)" "store_inv S B rs b (s\<lparr>st_headNode := y\<rparr>)"
  using assms by (simp_all add: store_inv_def store_ok_def maps_ok_def counted_def balance_of_def)

lemma store_inv_same:
  assumes "store_inv S B rs b s" "same_nodes (st_heap s) h" "\<And>a. a < length h \<Longrightarrow> n_balance (h ! a) = n_balance (st_heap s ! a)"
  shows "store_inv S B rs b (s\<lparr>st_heap := h\<rparr>)"
proof -
  have ok: "store_ok s" using assms(1) by (simp add: store_inv_def)
  have "n_balance (h ! a) = n_balance (st_heap s ! a)" if "st_nodeByRoot s r = Some a" for r a
    using maps_okD [OF store_okD(2) [OF ok] that] assms(2,3) by (simp add: same_nodes_def)
  then have "balance_of (s\<lparr>st_heap := h\<rparr>) r = balance_of s r" for r by (cases "st_nodeByRoot s r") (simp_all add: balance_of_def)
  moreover have "store_ok (s\<lparr>st_heap := h\<rparr>)" by (rule store_ok_same [OF ok]) (use assms(2) in simp_all)
  ultimately show ?thesis using assms(1) by (simp add: store_inv_def counted_def)
qed

lemma keeps_updateBest: "keeps (store_inv S B rs b) (updateBest_from_root j e)"
  unfolding keeps_def
proof (intro allI impI)
  fix s assume inv: "store_inv S B rs b s"
  then have ok: "store_ok s" by (simp add: store_inv_def)
  show "store_inv S B rs b (snd (updateBest_from_root j e s))"
  proof (cases "st_treeRootNode s")
    case None
    then show ?thesis using inv by (simp add: updateBest_from_root_def bindS_def readS_def liftS_def deref_def)
  next
    case (Some t)
    obtain h where h: "updateBestDescendant (length (st_heap s)) j e t (st_heap s) = Inr h" "only_best (desc (st_heap s) t) (st_heap s) h"
      using updateBestDescendant_ok [OF store_okD(1) [OF ok] store_okD(4) [OF ok Some], of "length (st_heap s)" j e] by auto
    have "n_balance (h ! a) = n_balance (st_heap s ! a)" if "a < length h" for a
      using h(2) that by (force simp: only_best_def)
    then have "store_inv S B rs b (s\<lparr>st_heap := h\<rparr>)" by (rule store_inv_same [OF inv same_nodes_best [OF h(2)]])
    then show ?thesis using h(1) Some by (simp add: updateBest_from_root_def bindS_def readS_def liftS_def deref_def modifyS_def)
  qed
qed

lemma keeps_track_received: "keeps (store_inv S B rs b) (track_received c now slot n)"
  unfolding track_received_def by (intro keeps_rules keeps_modifyS) (simp_all add: store_inv_fields)

subsection \<open>A child in the tree\<close>

definition with_child :: "addr \<Rightarrow> Node \<Rightarrow> Node list \<Rightarrow> Node list" where
  "with_child p n h = (h @ [n])[p := (h ! p)\<lparr>n_children := n_children (h ! p) @ [length h]\<rparr>]"

lemma with_child_nth:
  assumes "p < length h"
  shows "length (with_child p n h) = Suc (length h)" "with_child p n h ! length h = n"
    "a < length h \<Longrightarrow> n_parent (with_child p n h ! a) = n_parent (h ! a)" "a < length h \<Longrightarrow> n_root (with_child p n h ! a) = n_root (h ! a)"
    "a < length h \<Longrightarrow> n_balance (with_child p n h ! a) = n_balance (h ! a)"
    "a < length h \<Longrightarrow> n_children (with_child p n h ! a) = (if a = p then n_children (h ! a) @ [length h] else n_children (h ! a))"
  using assms by (auto simp: with_child_def nth_append nth_list_update)

lemma with_child_edges:
  assumes "p < length h" "n_children n = []"
  shows "edges (with_child p n h) = insert (p, length h) (edges h)"
  using assms by (auto simp: edges_def with_child_nth less_Suc_eq split: if_splits)

lemma with_child_desc:
  assumes "p < length h" "n_children n = []" "tree_ok h" "t < length h" "p \<in> desc h t"
  shows "desc (with_child p n h) t = insert (length h) (desc h t)"
proof
  note e = with_child_edges [OF assms(1,2)]
  have "d = length h \<or> d \<in> desc h t" if "(t, d) \<in> (edges (with_child p n h))\<^sup>*" for d
    using that
  proof (induction)
    case (step y z)
    have "y \<noteq> length h" using step.hyps(2) assms(1,2) by (auto simp: edges_def with_child_nth [OF assms(1)])
    then have "y \<in> desc h t" using step.IH by simp
    then show ?case using step.hyps(2) by (auto simp: e desc_def intro: rtrancl_into_rtrancl)
  qed simp
  then show "desc (with_child p n h) t \<subseteq> insert (length h) (desc h t)" by (auto simp: desc_def)
  have "(t, d) \<in> (edges (with_child p n h))\<^sup>*" if "d \<in> desc h t" for d
    using rtrancl_mono [of "edges h" "edges (with_child p n h)"] that by (auto simp: e desc_def)
  then show "insert (length h) (desc h t) \<subseteq> desc (with_child p n h) t"
    using assms(5) by (auto simp: desc_def e intro: rtrancl_into_rtrancl [of t p])
qed

lemma with_child_tree:
  assumes "p < length h" "n_children n = []" "tree_ok h" "n_parent n = Some p"
  shows "tree_ok (with_child p n h)"
  unfolding tree_ok_def with_child_nth(1) [OF assms(1)]
proof (intro allI impI)
  fix a assume "a < Suc (length h)"
  then consider "a = length h" | "a < length h" by linarith
  then show "distinct (n_children (with_child p n h ! a)) \<and>
      (\<forall>b \<in> set (n_children (with_child p n h ! a)). a < b \<and> b < Suc (length h) \<and> n_parent (with_child p n h ! b) = Some a) \<and>
      (\<forall>q. n_parent (with_child p n h ! a) = Some q \<longrightarrow> q < a)"
  proof cases
    case 1
    then show ?thesis using assms by (simp add: with_child_nth)
  next
    case 2
    have old: "b < length h \<and> a < b \<and> n_parent (h ! b) = Some a" if "b \<in> set (n_children (h ! a))" for b
      using tree_okD(2) [OF assms(3) 2 that] by simp
    then have "length h \<notin> set (n_children (h ! a))" by blast
    then show ?thesis
      using tree_okD(1,3) [OF assms(3) 2] old 2 assms(1,4) by (auto simp: with_child_nth [OF assms(1)] less_Suc_eq)
  qed
qed

lemma insert_child_inv:
  assumes inv: "store_inv S B rs b s" and new: "st_nodeByRoot s r = None" "r \<noteq> ZeroHash" and parent: "st_nodeByRoot s pr = Some p"
    and fresh: "tally S rs b r + B r = 0"
    and n: "n_children n = []" "n_parent n = Some p" "n_root n = r" "n_balance n = 0"
  shows "store_inv S B rs b (s\<lparr>st_heap := with_child p n (st_heap s), st_nodeByRoot := (st_nodeByRoot s)(r \<mapsto> length (st_heap s))\<rparr>)"
proof -
  let ?h = "st_heap s" and ?m = "(st_nodeByRoot s)(r \<mapsto> length (st_heap s))"
  let ?s = "s\<lparr>st_heap := with_child p n ?h, st_nodeByRoot := ?m\<rparr>"
  have ok: "store_ok s" using inv by (simp add: store_inv_def)
  obtain t where t: "st_treeRootNode s = Some t" "p \<in> desc ?h t" using store_okD(3) [OF ok parent] by blast
  have known: "a < length ?h" "n_root (?h ! a) = x" if "st_nodeByRoot s x = Some a" for x a
    using maps_okD [OF store_okD(2) [OF ok] that] by simp_all
  note p = known(1) [OF parent] and w = with_child_nth [OF known(1) [OF parent], where n = n]
  have desc: "desc (with_child p n ?h) t = insert (length ?h) (desc ?h t)"
    using with_child_desc [OF p n(1) store_okD(1) [OF ok] store_okD(4) [OF ok t(1)] t(2)] .
  have maps: "maps_ok ?s" using known n(3) by (auto simp: maps_ok_def w less_Suc_eq)
  have below: "n_root (with_child p n ?h ! d) = n_root (?h ! d)" "n_root (?h ! d) \<noteq> ZeroHash" "st_nodeByRoot s (n_root (?h ! d)) = Some d"
    if "d \<in> desc ?h t" for d
    using desc_up [OF store_okD(1) [OF ok] that] store_okD(4-6) [OF ok t(1)] that w(4) [of d] by auto
  have ne: "n_root (?h ! d) \<noteq> r" if "d \<in> desc ?h t" for d using below(3) [OF that] new(1) by auto
  have "store_ok ?s"
    unfolding store_ok_def
  proof (intro conjI allI impI)
    show "tree_ok (st_heap ?s)" using with_child_tree [OF p n(1) store_okD(1) [OF ok] n(2)] by simp
    show "\<exists>t. st_treeRootNode ?s = Some t \<and> a \<in> desc (st_heap ?s) t" if "st_nodeByRoot ?s x = Some a" for x a
      using that t(1) desc store_okD(3) [OF ok, of x a] by (auto split: if_splits)
    fix u assume "st_treeRootNode ?s = Some u"
    then have u: "u = t" using t(1) by simp
    show "u < length (st_heap ?s)" using store_okD(4) [OF ok t(1)] u by (simp add: w)
    show "\<forall>d \<in> desc (st_heap ?s) u. n_root (st_heap ?s ! d) \<noteq> ZeroHash \<and> st_nodeByRoot ?s (n_root (st_heap ?s ! d)) = Some d"
      using below ne new n(3) by (auto simp: u desc w)
  qed (rule maps)
  moreover have "unat v = tally S rs b x + B x" if x: "x \<noteq> ZeroHash" "balance_of ?s x = Some v" for x v
  proof (cases "x = r")
    case True
    then show ?thesis using x(2) fresh n(4) by (simp add: balance_of_def w)
  next
    case False
    then have "balance_of s x = Some v" using x(2) known(1) by (auto simp: balance_of_def w)
    then show ?thesis using inv x(1) by (simp add: store_inv_def counted_def)
  qed
  ultimately show ?thesis using inv by (simp add: store_inv_def counted_def)
qed

subsection \<open>A node outside the tree, or the root of the tree\<close>

lemma append_node:
  assumes "n_children n = []" "n_parent n = None"
  shows "edges (h @ [n]) = edges h" "tree_ok h \<Longrightarrow> tree_ok (h @ [n])" "desc (h @ [n]) a = desc h a"
proof -
  show e: "edges (h @ [n]) = edges h" using assms(1) by (auto simp: edges_def nth_append less_Suc_eq split: if_splits)
  then show "desc (h @ [n]) a = desc h a" by (simp add: desc_def)
  assume ok: "tree_ok h"
  show "tree_ok (h @ [n])"
    unfolding tree_ok_def
  proof (intro allI impI)
    fix a assume "a < length (h @ [n])"
    then consider "a = length h" | "a < length h" by fastforce
    then show "distinct (n_children ((h @ [n]) ! a)) \<and>
        (\<forall>b \<in> set (n_children ((h @ [n]) ! a)). a < b \<and> b < length (h @ [n]) \<and> n_parent ((h @ [n]) ! b) = Some a) \<and>
        (\<forall>q. n_parent ((h @ [n]) ! a) = Some q \<longrightarrow> q < a)"
    proof cases
      case 1
      then show ?thesis using assms by simp
    next
      case 2
      then show ?thesis using tree_okD [OF ok 2] by (auto simp: nth_append intro: less_SucI)
    qed
  qed
qed

lemma append_inv:
  assumes inv: "store_inv S B rs b s" and n: "n_children n = []" "n_parent n = None"
  shows "store_inv S B rs b (s\<lparr>st_heap := st_heap s @ [n]\<rparr>)"
proof -
  have ok: "store_ok s" using inv by (simp add: store_inv_def)
  have known: "a < length (st_heap s)" if "st_nodeByRoot s x = Some a" for x a
    using maps_okD [OF store_okD(2) [OF ok] that] by simp
  have "d < length (st_heap s)" if "st_treeRootNode s = Some t" "d \<in> desc (st_heap s) t" for t d
    using desc_up [OF store_okD(1) [OF ok] that(2)] store_okD(4) [OF ok that(1)] by simp
  note below = this
  have "store_ok (s\<lparr>st_heap := st_heap s @ [n]\<rparr>)"
    unfolding store_ok_def maps_ok_def
  proof (intro conjI allI impI ballI)
    show "tree_ok (st_heap (s\<lparr>st_heap := st_heap s @ [n]\<rparr>))" using append_node(2) [OF n store_okD(1) [OF ok]] by simp
  qed (use known below store_okD(3-6) [OF ok] maps_okD [OF store_okD(2) [OF ok]] in \<open>auto simp: append_node(3) [OF n] nth_append intro: less_SucI\<close>)
  moreover have "balance_of (s\<lparr>st_heap := st_heap s @ [n]\<rparr>) x = balance_of s x" for x
    using known [of x] by (cases "st_nodeByRoot s x") (simp_all add: balance_of_def nth_append)
  ultimately show ?thesis using inv by (simp add: store_inv_def counted_def)
qed

lemma root_inv:
  assumes inv: "store_inv S B rs b s" and none: "st_treeRootNode s = None" and r: "r \<noteq> ZeroHash"
    and fresh: "tally S rs b r + B r = 0"
    and n: "n_children n = []" "n_parent n = None" "n_root n = r" "n_balance n = 0"
  shows "store_inv S B rs b (s\<lparr>st_heap := st_heap s @ [n], st_nodeByRoot := (st_nodeByRoot s)(r \<mapsto> length (st_heap s)),
    st_treeRootNode := Some (length (st_heap s))\<rparr>)"
proof -
  have ok: "store_ok s" using inv by (simp add: store_inv_def)
  have empty: "st_nodeByRoot s x = None" for x using store_okD(3) [OF ok, of x] none by (cases "st_nodeByRoot s x") auto
  have desc: "desc (st_heap s @ [n]) (length (st_heap s)) = {length (st_heap s)}"
    using desc_step [of "length (st_heap s)" "st_heap s @ [n]"] n(1) by simp
  show ?thesis
    using append_node(2) [OF n(1,2) store_okD(1) [OF ok]] empty desc n r fresh inv
    by (auto simp: store_inv_def store_ok_def maps_ok_def counted_def balance_of_def split: if_splits)
qed

subsection \<open>\<^verbatim>\<open>insert\<close>, path by path\<close>

definition new_node :: "ROBlock \<Rightarrow> Epoch \<Rightarrow> Epoch \<Rightarrow> Time \<Rightarrow> root \<Rightarrow> addr option \<Rightarrow> addr option \<Rightarrow> Node" where
  "new_node blk je fe now payloadHash parent target = \<lparr>n_slot = bk_slot blk, n_root = bk_root blk, n_payloadHash = payloadHash,
     n_parent = parent, n_target = target, n_children = [], n_justifiedEpoch = je, n_unrealizedJustifiedEpoch = je, n_finalizedEpoch = fe,
     n_unrealizedFinalizedEpoch = fe, n_balance = 0, n_weight = 0, n_bestDescendant = None, n_optimistic = True, n_timestamp = now\<rparr>"

definition payload_of :: "ROBlock \<Rightarrow> root result" where
  "payload_of blk = (if bk_version blk \<ge> Bellatrix then bindR (bk_blockHash blk) (\<lambda>hash. Inr (ToBytes32 hash)) else Inr ZeroHash)"

definition insert_tail :: "BeaconChainConfig \<Rightarrow> Time \<Rightarrow> ROBlock \<Rightarrow> Store \<Rightarrow> (Store, addr) state_result" where
  "insert_tail c now blk s =
     (if now < st_genesisTime s then returnS (length (st_heap s))
      else bindS (liftS (CurrentSlot c now (st_genesisTime s))) (\<lambda>currentSlot.
           bindS (wrapS ''could not determine time since current slot started''
                    (liftS (SinceSlotStart c currentSlot (st_genesisTime s) now))) (\<lambda>sss.
           bindS (liftS (AttestationDueAt c currentSlot)) (\<lambda>boostThreshold.
           bindS (if currentSlot = bk_slot blk \<and> sss < boostThreshold \<and> st_proposerBoostRoot s = ZeroHash
                  then modifyS (\<lambda>s. s\<lparr>st_proposerBoostRoot := bk_root blk\<rparr>) else returnS ()) (\<lambda>_.
           bindS (liftS (ToEpoch c currentSlot)) (\<lambda>currentEpoch.
           bindS (updateBest_from_root (cp_Epoch (st_justifiedCheckpoint s)) currentEpoch) (\<lambda>_.
           track_received c now (bk_slot blk) (length (st_heap s)))))))))"

lemma store_insert_paths:
  "store_insert c now blk je fe s =
    (case payload_of blk of Inl e \<Rightarrow> (Inl e, s) | Inr payload \<Rightarrow>
     (case st_nodeByRoot s (bk_root blk) of Some n \<Rightarrow> (Inr n, s) | None \<Rightarrow>
      let parent = st_nodeByRoot s (bk_parentRoot blk); n = length (st_heap s) in
      (case target_of c (st_heap s) (bk_slot blk) parent of Inl e \<Rightarrow> (Inl e, s) | Inr target \<Rightarrow>
       let s1 = s\<lparr>st_heap := st_heap s @ [new_node blk je fe now payload parent target], st_nodeByRoot := (st_nodeByRoot s)(bk_root blk \<mapsto> n)\<rparr> in
       (case parent of
          None \<Rightarrow> if st_treeRootNode s = None
            then track_received c now (bk_slot blk) n (s1\<lparr>st_treeRootNode := Some n, st_headNode := Some n, st_highestReceivedNode := Some n\<rparr>)
            else (Inl errInvalidParentRoot, s1\<lparr>st_nodeByRoot := (st_nodeByRoot s1)(bk_root blk := None)\<rparr>)
        | Some p \<Rightarrow> insert_tail c now blk s (node_update p (\<lambda>x. x\<lparr>n_children := n_children x @ [n]\<rparr>) s1)))))"
proof -
  have pay: "(if bk_version blk \<ge> Bellatrix then bindS (liftS (bk_blockHash blk)) (\<lambda>hash. returnS (ToBytes32 hash)) else returnS ZeroHash)
      = liftS (payload_of blk)"
    by (cases "bk_blockHash blk") (auto simp: payload_of_def liftS_def bindS_def returnS_def fun_eq_iff)
  show ?thesis
    unfolding store_insert_def Let_def pay insert_tail_def new_node_def
    by (auto simp: bindS_def liftS_def readS_def modifyS_def returnS_def split: sum.split option.split)
qed

lemma keeps_insert_tail: "keeps (store_inv S B rs b) (insert_tail c now blk s)"
  unfolding insert_tail_def
  by (intro keeps_rules keeps_modifyS keeps_updateBest keeps_track_received) (simp_all add: store_inv_fields)

lemma store_insert_inv:
  assumes inv: "store_inv S B rs b s" and r: "bk_root blk \<noteq> ZeroHash" and fresh: "tally S rs b (bk_root blk) + B (bk_root blk) = 0"
  shows "store_inv S B rs b (snd (store_insert c now blk je fe s))"
proof (cases "\<exists>payload target. payload_of blk = Inr payload \<and> st_nodeByRoot s (bk_root blk) = None \<and>
    target_of c (st_heap s) (bk_slot blk) (st_nodeByRoot s (bk_parentRoot blk)) = Inr target")
  case False
  then show ?thesis using inv by (auto simp: store_insert_paths Let_def split: sum.splits option.splits)
next
  case True
  then obtain payload target where new: "payload_of blk = Inr payload" "st_nodeByRoot s (bk_root blk) = None"
    "target_of c (st_heap s) (bk_slot blk) (st_nodeByRoot s (bk_parentRoot blk)) = Inr target" by blast
  let ?parent = "st_nodeByRoot s (bk_parentRoot blk)" and ?k = "length (st_heap s)"
  let ?n = "new_node blk je fe now payload ?parent target"
  let ?s1 = "s\<lparr>st_heap := st_heap s @ [?n], st_nodeByRoot := (st_nodeByRoot s)(bk_root blk \<mapsto> ?k)\<rparr>"
  have n: "n_children ?n = []" "n_parent ?n = ?parent" "n_root ?n = bk_root blk" "n_balance ?n = 0" by (simp_all add: new_node_def)
  show ?thesis
  proof (cases ?parent)
    case (Some p)
    have "p < ?k" using maps_okD [of s _ p] Some inv store_okD(2) [of s] by (auto simp: store_inv_def)
    then have "node_update p (\<lambda>x. x\<lparr>n_children := n_children x @ [?k]\<rparr>) ?s1 =
        s\<lparr>st_heap := with_child p ?n (st_heap s), st_nodeByRoot := (st_nodeByRoot s)(bk_root blk \<mapsto> ?k)\<rparr>"
      by (simp add: node_update_def with_child_def nth_append)
    moreover have "store_inv S B rs b (s\<lparr>st_heap := with_child p ?n (st_heap s), st_nodeByRoot := (st_nodeByRoot s)(bk_root blk \<mapsto> ?k)\<rparr>)"
      using insert_child_inv [OF inv new(2) r Some fresh n(1) _ n(3,4)] n(2) Some by simp
    ultimately show ?thesis using new Some keeps_insert_tail by (simp add: store_insert_paths Let_def keeps_def)
  next
    case None
    show ?thesis
    proof (cases "st_treeRootNode s")
      case root: None
      have "store_inv S B rs b (?s1\<lparr>st_treeRootNode := Some ?k\<rparr>)"
        using root_inv [OF inv root r fresh n(1) _ n(3,4)] n(2) None by simp
      then have "store_inv S B rs b (?s1\<lparr>st_treeRootNode := Some ?k, st_headNode := Some ?k, st_highestReceivedNode := Some ?k\<rparr>)"
        by (intro store_inv_fields)
      then show ?thesis using new None root keeps_track_received by (simp add: store_insert_paths Let_def keeps_def)
    next
      case (Some t)
      have "(st_nodeByRoot s)(bk_root blk := None) = st_nodeByRoot s" using new(2) by (simp add: fun_upd_idem)
      then have "snd (store_insert c now blk je fe s) = s\<lparr>st_heap := st_heap s @ [?n]\<rparr>"
        using new None Some by (simp add: store_insert_paths Let_def)
      then show ?thesis using append_inv [OF inv n(1)] n(2) None by simp
    qed
  qed
qed

lemma insert_keeps_invariants:
  assumes "store_ok (fc_store f)" "votes_counted f" "bk_root blk \<noteq> ZeroHash"
    "\<forall>v \<in> set (fc_votes f). vt_currentRoot v \<noteq> bk_root blk" "bk_root blk \<noteq> st_previousProposerBoostRoot (fc_store f)"
  shows "store_ok (fc_store (snd (onStore (store_insert c now blk je fe) f))) \<and> votes_counted (snd (onStore (store_insert c now blk je fe) f))"
proof -
  let ?s = "fc_store f" and ?rs = "map vt_currentRoot (fc_votes f)" and ?b = "\<lambda>i. unat (balance_at (fc_balances f) i)"
  let ?inv = "store_inv (st_slashedIndices ?s) (boost_of ?s) ?rs ?b"
  have "tally (st_slashedIndices ?s) ?rs ?b (bk_root blk) = 0" using assms(4) by (simp add: tally_def)
  moreover have "boost_of ?s (bk_root blk) = 0" using assms(5) by (simp add: boost_of_def)
  ultimately have "?inv (snd (store_insert c now blk je fe ?s))"
    using store_insert_inv [of "st_slashedIndices ?s" "boost_of ?s" ?rs ?b ?s blk c now je fe] assms(1-3)
    by (simp add: store_inv_def votes_counted_def)
  then show ?thesis
    by (cases "store_insert c now blk je fe ?s") (simp add: onStore_def store_inv_def votes_counted_def)
qed

end
