(* ===== verification/Fork_Choice_Ancestors.thy ===== *)
theory Fork_Choice_Ancestors
  imports Fork_Choice_Head
begin

text \<open>
  The walks from a block towards the root of the tree: \<^verbatim>\<open>AncestorRoot\<close> and \<^verbatim>\<open>CommonAncestor\<close> return for every block of a
  well-formed tree, with the closest ancestor at or before a slot and with the lowest common ancestor of two blocks.
\<close>

definition slots_increase :: "Node list \<Rightarrow> bool" where
  "slots_increase h \<longleftrightarrow> (\<forall>a < length h. \<forall>b \<in> set (n_children (h ! a)). n_slot (h ! a) < n_slot (h ! b))"

lemma desc_slot: "slots_increase h \<Longrightarrow> d \<in> desc h a \<Longrightarrow> d = a \<or> n_slot (h ! a) < n_slot (h ! d)"
proof -
  assume s: "slots_increase h" and "d \<in> desc h a"
  from this(2) have "(a, d) \<in> (edges h)\<^sup>*" by (simp add: desc_def)
  then show ?thesis by (induction) (use s in \<open>auto simp: slots_increase_def edges_def intro: less_trans\<close>)
qed

lemma desc_parent_edge:
  assumes "tree_ok h" "b \<in> desc h a" "b \<noteq> a"
  obtains p where "n_parent (h ! b) = Some p" "p \<in> desc h a" "b \<in> desc h p" "p < b"
proof -
  have "(a, b) \<in> (edges h)\<^sup>*" using assms(2) by (simp add: desc_def)
  then obtain p where "(a, p) \<in> (edges h)\<^sup>*" "(p, b) \<in> edges h" using assms(3) by (cases rule: rtranclE) auto
  then show ?thesis using that [of p] edges_up [OF assms(1)] by (auto simp: desc_def)
qed

lemma desc_of_parent:
  assumes "tree_ok h" "b \<in> desc h a" "b \<noteq> a" "n_parent (h ! b) = Some p"
  shows "p \<in> desc h a"
  using desc_parent_edge [OF assms(1-3)] assms(4) by (metis option.inject)

section \<open>The closest ancestor at or before a slot\<close>

definition ancestor_at :: "Node list \<Rightarrow> addr \<Rightarrow> Slot \<Rightarrow> addr \<Rightarrow> bool" where
  "ancestor_at h a slot b \<longleftrightarrow> a \<in> desc h b \<and> n_slot (h ! b) \<le> slot \<and>
     (\<forall>b'. a \<in> desc h b' \<and> n_slot (h ! b') \<le> slot \<longrightarrow> b \<in> desc h b')"

lemma ancestor_walk_ok:
  assumes "tree_ok h" "a \<in> desc h t" "n_slot (h ! t) \<le> slot"
  shows "\<exists>b. ancestor_walk h slot (Some a) = Some (Some b) \<and> b \<in> desc h t \<and> ancestor_at h a slot b"
  using assms(2)
proof (induction a rule: less_induct)
  case (less a)
  show ?case
  proof (cases "n_slot (h ! a) \<le> slot")
    case True
    then have "ancestor_at h a slot a" by (simp add: ancestor_at_def)
    moreover have "ancestor_walk h slot (Some a) = Some (Some a)" by (subst ancestor_walk.simps) (simp add: leD [OF True])
    ultimately show ?thesis using less.prems by blast
  next
    case False
    then have ne: "a \<noteq> t" using assms(3) by auto
    obtain p where p: "n_parent (h ! a) = Some p" "p \<in> desc h t" "a \<in> desc h p" "p < a"
      using desc_parent_edge [OF assms(1) less.prems ne] .
    obtain b where b: "ancestor_walk h slot (Some p) = Some (Some b)" "b \<in> desc h t" "ancestor_at h p slot b"
      using less.IH [OF p(4,2)] by blast
    have "b \<in> desc h b'" if "a \<in> desc h b'" "n_slot (h ! b') \<le> slot" for b'
      using desc_of_parent [OF assms(1) that(1) _ p(1)] that(2) False b(3) by (auto simp: ancestor_at_def)
    then have "ancestor_at h a slot b" using b(3) desc_trans [of p h b] p(3) by (auto simp: ancestor_at_def)
    moreover have "ancestor_walk h slot (Some a) = Some (Some b)" using False b(1) p(1) by (subst ancestor_walk.simps) (simp add: not_le)
    ultimately show ?thesis using b(2) by blast
  qed
qed

section \<open>The lowest common ancestor\<close>

definition lowest_common :: "Node list \<Rightarrow> addr \<Rightarrow> addr \<Rightarrow> addr \<Rightarrow> bool" where
  "lowest_common h a1 a2 b \<longleftrightarrow> a1 \<in> desc h b \<and> a2 \<in> desc h b \<and> (\<forall>b'. a1 \<in> desc h b' \<and> a2 \<in> desc h b' \<longrightarrow> b \<in> desc h b')"

lemma lowest_common_sym: "lowest_common h a1 a2 b = lowest_common h a2 a1 b"
  by (auto simp: lowest_common_def)

lemma lowest_common_up:
  assumes "tree_ok h" "a2 \<notin> desc h a1" "n_parent (h ! a1) = Some p" "a1 \<in> desc h p" "lowest_common h p a2 b"
  shows "lowest_common h a1 a2 b"
proof -
  have "b \<in> desc h b'" if "a1 \<in> desc h b'" "a2 \<in> desc h b'" for b'
  proof -
    have "a1 \<noteq> b'" using that(2) assms(2) by auto
    then show ?thesis using desc_of_parent [OF assms(1) that(1) _ assms(3)] that(2) assms(5) by (simp add: lowest_common_def)
  qed
  then show ?thesis using assms(4,5) desc_trans [of p h b] by (auto simp: lowest_common_def)
qed

lemma lowest_common_self: "lowest_common h a a a"
  by (simp add: lowest_common_def)

lemma common_walk_ok:
  assumes "tree_ok h" "slots_increase h"
  shows "a1 \<in> desc h t \<Longrightarrow> a2 \<in> desc h t \<Longrightarrow> a1 \<noteq> a2 \<Longrightarrow> \<exists>b. common_walk h a1 a2 = Some (Inr b) \<and> lowest_common h a1 a2 b"
proof (induction "a1 + a2" arbitrary: a1 a2 rule: less_induct)
  case less
  show ?case
  proof (cases "n_slot (h ! a1) > n_slot (h ! a2)")
    case True
    have no: "a2 \<notin> desc h a1" using desc_slot [OF assms(2), of a2 a1] less.prems(3) True by auto
    then have "a1 \<noteq> t" using less.prems(2) by auto
    then obtain p where p: "n_parent (h ! a1) = Some p" "p \<in> desc h t" "a1 \<in> desc h p" "p < a1"
      using desc_parent_edge [OF assms(1) less.prems(1)] by blast
    have "\<exists>b. common_walk h a1 a2 = Some (Inr b) \<and> lowest_common h p a2 b"
      using less.hyps [of p a2] p less.prems(2) True by (subst common_walk.simps) (auto simp: lowest_common_self)
    then show ?thesis using lowest_common_up [OF assms(1) no p(1,3)] by blast
  next
    case False
    have no: "a1 \<notin> desc h a2" using desc_slot [OF assms(2), of a1 a2] less.prems(3) False by auto
    then have "a2 \<noteq> t" using less.prems(1) by auto
    then obtain p where p: "n_parent (h ! a2) = Some p" "p \<in> desc h t" "a2 \<in> desc h p" "p < a2"
      using desc_parent_edge [OF assms(1) less.prems(2)] by blast
    have "\<exists>b. common_walk h a1 a2 = Some (Inr b) \<and> lowest_common h a1 p b"
      using less.hyps [of a1 p] p less.prems(1) False by (subst common_walk.simps) (auto simp: lowest_common_self)
    then show ?thesis using lowest_common_up [OF assms(1) no p(1,3)] lowest_common_sym by blast
  qed
qed

end
