(* ===== verification/Fork_Choice_Spec.thy ===== *)
theory Fork_Choice_Spec
  imports Fork_Choice_Updates Fork_Choice_Ancestors
begin

text \<open>
  The properties of fork choice, with an example of two competing blocks: \<^verbatim>\<open>Head\<close> follows LMD GHOST and keeps the
  votes counted; attestations, slashings and new blocks keep the invariants \<open>store_ok\<close> and \<open>votes_counted\<close> that the
  head relies on; the walks to ancestors find them.
\<close>

section \<open>An example\<close>

definition block_root :: "nat \<Rightarrow> root" where
  "block_root n = replicate 32 (of_nat n)"

definition block_node :: "nat \<Rightarrow> Slot \<Rightarrow> addr option \<Rightarrow> addr list \<Rightarrow> Node" where
  "block_node n slot parent children = \<lparr>n_slot = slot, n_root = block_root n, n_payloadHash = ZeroHash, n_parent = parent,
     n_target = None, n_children = children, n_justifiedEpoch = 0, n_unrealizedJustifiedEpoch = 0, n_finalizedEpoch = 0,
     n_unrealizedFinalizedEpoch = 0, n_balance = 0, n_weight = 0, n_bestDescendant = None, n_optimistic = True, n_timestamp = 0\<rparr>"

text \<open>A root with two children; validator 0 votes for the second and validator 1, with more stake, for the first.\<close>

definition fork_example :: ForkChoice where
  "fork_example = forkchoice_New\<lparr>
     fc_store := (fc_store forkchoice_New)\<lparr>
       st_heap := [block_node 1 0 None [1, 2], block_node 2 1 (Some 0) [], block_node 3 1 (Some 0) []],
       st_treeRootNode := Some 0, st_headNode := Some 0, st_highestReceivedNode := Some 0,
       st_nodeByRoot := [block_root 1 \<mapsto> 0, block_root 2 \<mapsto> 1, block_root 3 \<mapsto> 2]\<rparr>,
     fc_votes := [\<lparr>vt_currentRoot = ZeroHash, vt_nextRoot = block_root 3, vt_nextEpoch = 0\<rparr>,
                  \<lparr>vt_currentRoot = ZeroHash, vt_nextRoot = block_root 2, vt_nextEpoch = 0\<rparr>],
     fc_justifiedBalances := [31, 32]\<rparr>"

lemma block_root_eq [simp]: "block_root n = block_root m \<longleftrightarrow> (of_nat n :: u8) = of_nat m"
  by (simp add: block_root_def)

lemma block_root_zero: "block_root n = ZeroHash \<longleftrightarrow> (of_nat n :: u8) = 0" "ZeroHash = block_root n \<longleftrightarrow> (of_nat n :: u8) = 0"
  by (auto simp: block_root_def ZeroHash_def)

lemma all_less_three: "(\<forall>a < Suc (Suc (Suc 0)). P a) \<longleftrightarrow> P 0 \<and> P (Suc 0) \<and> P (Suc (Suc 0))"
  by (auto simp: less_Suc_eq)

lemma fork_example_tree: "tree_ok (st_heap (fc_store fork_example))"
  by (simp add: tree_ok_def fork_example_def all_less_three block_node_def)

lemma fork_example_desc: "desc (st_heap (fc_store fork_example)) 0 = {0, 1, 2}"
proof -
  have "desc (st_heap (fc_store fork_example)) 1 = {1}" "desc (st_heap (fc_store fork_example)) 2 = {2}"
    by (simp_all add: desc_step fork_example_def block_node_def)
  then show ?thesis by (auto simp: desc_step [of 0] fork_example_def block_node_def)
qed

lemma fork_example_ok: "store_ok (fc_store fork_example)" "votes_counted fork_example"
proof -
  have "maps_ok (fc_store fork_example)" by (simp add: maps_ok_def fork_example_def block_node_def block_root_zero)
  then show "store_ok (fc_store fork_example)"
    unfolding store_ok_def using fork_example_tree fork_example_desc
    by (auto simp: fork_example_def block_node_def block_root_zero split: if_splits)
  show "votes_counted fork_example"
    by (auto simp: votes_counted_def counted_def balance_of_def tally_def boost_of_def fork_example_def forkchoice_New_def
        block_node_def balance_at_def lessThan_Suc numeral_2_eq_2 split: if_splits)
qed

lemma fork_example_fits: "stake_fits mainnetBeaconConfig fork_example"
  by (simp add: stake_fits_def total_stake_def boost_score_def fork_example_def forkchoice_New_def balance_at_def
      lessThan_Suc block_root_zero)

lemma fork_example_epoch: "EpochsSinceGenesis mainnetBeaconConfig (25 * 1000000000) (st_genesisTime (fc_store fork_example)) = Inr 0"
  by code_simp

section \<open>The head\<close>

text \<open>C1: \<^verbatim>\<open>Head\<close> implements LMD GHOST. From a well-formed store whose balances count the current votes, the block it returns
  is the end of the walk that starts at the justified block and repeatedly moves to the child with the most stake behind it
  among the children with a viable block below them, the larger root breaking ties. The stake behind a block is computed
  from the latest votes and the justified balances (\<open>attesting_weight\<close>), not from the balances stored in the nodes. When no
  viable block descends from the justified one, \<^verbatim>\<open>Head\<close> returns an error. It always returns.\<close>

theorem head_is_lmd_ghost:
  assumes "store_ok (fc_store f)" "votes_counted f" "stake_fits c f" "start_node c f = Some j"
    "EpochsSinceGenesis c now (st_genesisTime (fc_store f)) = Inr e"
  defines "h \<equiv> st_heap (fc_store f)" and "V \<equiv> viableForHead (cp_Epoch (st_justifiedCheckpoint (fc_store f))) e"
  shows "\<exists>d. (lmd_step c e f)\<^sup>*\<^sup>* j d \<and> (\<forall>b. \<not> lmd_step c e f d b) \<and>
    (if viable_below V h j then V (h ! d) \<and> fst (forkchoice_Head c now f) = Inr (n_root (h ! d))
     else fst (forkchoice_Head c now f) = Inl (Err ''head is not eligible''))"
proof -
  obtain t d f' where d: "(lmd_step c e f)\<^sup>*\<^sup>* j d" "\<And>b. \<not> lmd_step c e f d b" "V (h ! d) \<longleftrightarrow> viable_below V h j"
    "forkchoice_Head c now f = (if V (h ! d) then Inr (n_root (h ! d)) else Inl (Err ''head is not eligible''), f')"
    using head_ok [OF assms(1-5)] unfolding h_def V_def by metis
  then show ?thesis by (intro exI [of _ d]) simp
qed

theorem head_is_lmd_ghost_witness:
  "\<exists>d. (lmd_step mainnetBeaconConfig 0 fork_example)\<^sup>*\<^sup>* 0 d \<and> (\<forall>b. \<not> lmd_step mainnetBeaconConfig 0 fork_example d b) \<and>
     fst (forkchoice_Head mainnetBeaconConfig (25 * 1000000000) fork_example) = Inr (n_root (st_heap (fc_store fork_example) ! d))"
proof -
  have "start_node mainnetBeaconConfig fork_example = Some 0"
    by (simp add: start_node_def fork_example_def forkchoice_New_def zero_Checkpoint_def block_root_zero mainnetBeaconConfig_def)
  moreover have "viable_below (viableForHead 0 0) (st_heap (fc_store fork_example)) 0"
    unfolding viable_below_def by (rule bexI [of _ 0]) (simp_all add: viableForHead_def)
  ultimately show ?thesis
    using head_is_lmd_ghost [OF fork_example_ok fork_example_fits _ fork_example_epoch, of 0]
    by (auto simp: fork_example_def forkchoice_New_def zero_Checkpoint_def)
qed

text \<open>C11: After \<^verbatim>\<open>Head\<close> the weight of every block of the tree is the stake of the validators that are not slashed and whose
  latest vote is the block or a descendant, plus the proposer boost when the boosted block is one of these; it does not wrap.
  The balances then count the votes that were latest, and the store stays well formed, so the next call starts from the
  same invariants.\<close>

theorem head_counts_votes:
  assumes "store_ok (fc_store f)" "votes_counted f" "stake_fits c f" "start_node c f = Some j"
    "EpochsSinceGenesis c now (st_genesisTime (fc_store f)) = Inr e"
  defines "f' \<equiv> snd (forkchoice_Head c now f)"
  shows "store_ok (fc_store f') \<and> votes_counted f' \<and>
    (\<forall>r b. st_nodeByRoot (fc_store f) r = Some b \<longrightarrow> unat (n_weight (st_heap (fc_store f') ! b)) = attesting_weight c f b)"
proof -
  let ?V = "viableForHead (cp_Epoch (st_justifiedCheckpoint (fc_store f))) e"
  obtain t d f2 where f2: "st_treeRootNode (fc_store f) = Some t"
    "forkchoice_Head c now f = (if ?V (st_heap (fc_store f) ! d) then Inr (n_root (st_heap (fc_store f) ! d)) else Inl (Err ''head is not eligible''), f2)"
    "\<And>b. b \<in> desc (st_heap (fc_store f)) t \<Longrightarrow> unat (n_weight (st_heap (fc_store f2) ! b)) = attesting_weight c f b"
    "store_ok (fc_store f2)" "votes_counted f2"
    using head_ok [OF assms(1-5)] by metis
  then show ?thesis using store_okD(3) [OF assms(1)] by (auto simp: f'_def)
qed

theorem head_counts_votes_witness:
  "unat (n_weight (st_heap (fc_store (snd (forkchoice_Head mainnetBeaconConfig (25 * 1000000000) fork_example))) ! 1)) =
     attesting_weight mainnetBeaconConfig fork_example 1"
proof -
  have "start_node mainnetBeaconConfig fork_example = Some 0"
    by (simp add: start_node_def fork_example_def forkchoice_New_def zero_Checkpoint_def block_root_zero mainnetBeaconConfig_def)
  moreover have "st_nodeByRoot (fc_store fork_example) (block_root 2) = Some 1" by (simp add: fork_example_def)
  ultimately show ?thesis
    using head_counts_votes [OF fork_example_ok fork_example_fits _ fork_example_epoch, of 0] by blast
qed

section \<open>Updates\<close>

text \<open>C36: Attestations, slashings and new blocks keep what \<^verbatim>\<open>Head\<close> relies on: the store stays well formed and the
  balances count the current votes. An attestation only changes the next vote; a slashing takes the stake of the validator
  off the block it votes for, whether or not the validator has a vote or a balance; a new block, on every path of \<^verbatim>\<open>insert\<close>
  including its errors, enters with no stake, provided that no counted vote and no counted boost names it already.\<close>

theorem fork_choice_keeps_votes:
  assumes "store_ok (fc_store f)" "votes_counted f" "length (fc_votes f) \<le> 2 ^ 64" "bk_root blk \<noteq> ZeroHash"
    "\<forall>v \<in> set (fc_votes f). vt_currentRoot v \<noteq> bk_root blk" "bk_root blk \<noteq> st_previousProposerBoostRoot (fc_store f)"
  defines "keeps_votes \<equiv> \<lambda>f'. store_ok (fc_store f') \<and> votes_counted f'"
  shows "keeps_votes (forkchoice_ProcessAttestation is r e f) \<and> keeps_votes (InsertSlashedIndex i f) \<and>
    keeps_votes (snd (onStore (store_insert c now blk je fe) f))"
  unfolding keeps_votes_def
  using InsertSlashedIndex_ok [OF assms(1-3)] insert_keeps_invariants [OF assms(1,2,4-6)] ProcessAttestation_counted [OF assms(2)] assms(1)
  by (simp add: forkchoice_ProcessAttestation_def)

definition fork_block :: ROBlock where
  "fork_block = \<lparr>bk_root = block_root 4, bk_slot = 2, bk_parentRoot = block_root 2, bk_version = Altair, bk_blockHash = Inr []\<rparr>"

theorem fork_choice_keeps_votes_witness:
  "let f = snd (onStore (store_insert mainnetBeaconConfig (25 * 1000000000) fork_block 0 0) fork_example)
   in store_ok (fc_store f) \<and> votes_counted f"
proof -
  have "bk_root fork_block \<noteq> ZeroHash" "\<forall>v \<in> set (fc_votes fork_example). vt_currentRoot v \<noteq> bk_root fork_block"
    "bk_root fork_block \<noteq> st_previousProposerBoostRoot (fc_store fork_example)" "length (fc_votes fork_example) \<le> 2 ^ 64"
    by (simp_all add: fork_block_def fork_example_def forkchoice_New_def block_root_zero)
  then show ?thesis using fork_choice_keeps_votes [OF fork_example_ok, where blk = fork_block] by (simp add: Let_def)
qed

section \<open>Ancestors\<close>

text \<open>C37: \<^verbatim>\<open>AncestorRoot\<close> and \<^verbatim>\<open>CommonAncestor\<close> always return on known blocks. The first gives the closest ancestor at or
  before the slot when the root of the tree is not after it; the second gives the lowest common ancestor of the two blocks,
  the one below every other common ancestor, when a block has a later slot than its parent.\<close>

theorem ancestors_found:
  assumes "store_ok (fc_store f)" "slots_increase (st_heap (fc_store f))" "st_treeRootNode (fc_store f) = Some t"
    "st_nodeByRoot (fc_store f) r1 = Some a1" "st_nodeByRoot (fc_store f) r2 = Some a2" "n_slot (st_heap (fc_store f) ! t) \<le> slot"
  defines "h \<equiv> st_heap (fc_store f)"
  shows "(\<exists>b. AncestorRoot f r1 slot = Some (Inr (n_root (h ! b))) \<and> ancestor_at h a1 slot b) \<and>
    (\<exists>b. CommonAncestor f r1 r2 = Some (Inr (n_root (h ! b), n_slot (h ! b))) \<and> lowest_common h a1 a2 b)"
proof -
  note tree = store_okD(1) [OF assms(1), folded h_def]
  have in_tree: "a \<in> desc h t" "n_root (h ! a) = r" if "st_nodeByRoot (fc_store f) r = Some a" for r a
    using store_okD(3) [OF assms(1) that] maps_okD [OF store_okD(2) [OF assms(1)] that] assms(3) by (auto simp: h_def)
  obtain b where b: "ancestor_walk h slot (Some a1) = Some (Some b)" "ancestor_at h a1 slot b"
    using ancestor_walk_ok [OF tree in_tree(1) [OF assms(4)]] assms(6) unfolding h_def by blast
  have "\<exists>b. CommonAncestor f r1 r2 = Some (Inr (n_root (h ! b), n_slot (h ! b))) \<and> lowest_common h a1 a2 b"
  proof (cases "r1 = r2")
    case True
    then show ?thesis using assms(4,5) in_tree(2) [OF assms(4)]
      by (intro exI [of _ a1]) (simp add: CommonAncestor_def fc_node_def h_def lowest_common_self)
  next
    case False
    then have "a1 \<noteq> a2" using in_tree(2) [OF assms(4)] in_tree(2) [OF assms(5)] by auto
    then obtain b where "common_walk h a1 a2 = Some (Inr b)" "lowest_common h a1 a2 b"
      using common_walk_ok [OF tree assms(2) [folded h_def] in_tree(1) [OF assms(4)] in_tree(1) [OF assms(5)]] by blast
    then show ?thesis using False assms(4,5) by (intro exI [of _ b]) (simp add: CommonAncestor_def fc_node_def h_def Let_def)
  qed
  then show ?thesis using b assms(4) by (auto simp: AncestorRoot_def fc_node_def h_def)
qed

theorem ancestors_found_witness:
  "\<exists>b. CommonAncestor fork_example (block_root 2) (block_root 3) =
     Some (Inr (n_root (st_heap (fc_store fork_example) ! b), n_slot (st_heap (fc_store fork_example) ! b))) \<and>
     lowest_common (st_heap (fc_store fork_example)) 1 2 b"
proof -
  have "slots_increase (st_heap (fc_store fork_example))"
    by (simp add: slots_increase_def fork_example_def all_less_three block_node_def)
  moreover have "st_treeRootNode (fc_store fork_example) = Some 0" "st_nodeByRoot (fc_store fork_example) (block_root 2) = Some 1"
    "st_nodeByRoot (fc_store fork_example) (block_root 3) = Some 2" "n_slot (st_heap (fc_store fork_example) ! 0) \<le> 0"
    by (simp_all add: fork_example_def block_node_def)
  ultimately show ?thesis using ancestors_found [OF fork_example_ok(1)] by blast
qed

end
