(* ===== verification/Slashing_Protection.thy ===== *)
theory Slashing_Protection
  imports Beacon_State State_Result Bytesutil "HOL-Library.Sublist"
begin

text \<open>
  The minimal slashing-protection database of the validator client (\<^verbatim>\<open>validator/db/filesystem\<close>): per public
  key one file with the latest signed block slot and the last signed source and target epochs (EIP-3076).
  The state is the map from public keys to file contents. The errors of the file system are an argument
  (\<open>file_io\<close>), one per request: of the existence check, of a read (or of parsing what was read), of preparing a
  write, and of a write that breaks off. The last one damages the file, since \<^verbatim>\<open>os.WriteFile\<close> empties it before
  it writes: what is left reads as some other record, or no longer parses. Paths, epochs and slots that the error messages print are left out of the messages. The second part models the requests
  that the validator client makes of the database, one at a time, and the third the attester and the proposer
  of one key as the goroutines that they are, with the locks that they take
  (\<^verbatim>\<open>validator/client/attest.go\<close>, \<^verbatim>\<open>propose.go\<close>).
\<close>

record ValidatorSlashingProtection =
  sp_LatestSignedBlockSlot :: "u64 option"
  sp_LastSignedAttestationSourceEpoch :: u64
  sp_LastSignedAttestationTargetEpoch :: "u64 option"

type_synonym protection_files = "bytes \<Rightarrow> ValidatorSlashingProtection option"

record file_io =
  io_existsErr :: "bytes \<Rightarrow> error option"
  io_readErr :: "bytes \<Rightarrow> error option"
  io_writeErr :: "bytes \<Rightarrow> error option"
  io_torn :: "bytes \<Rightarrow> (error \<times> ValidatorSlashingProtection) option"

section \<open>Error texts\<close>

definition error_contains :: "error \<Rightarrow> string \<Rightarrow> bool" where
  "error_contains e s \<longleftrightarrow> sublist s (error_text e)"

section \<open>Slashable attestations (beacon-chain/core/blocks)\<close>

definition AttDataIsEqual :: "AttestationData \<Rightarrow> AttestationData \<Rightarrow> bool" where
  "AttDataIsEqual a b \<longleftrightarrow>
     ad_Slot a = ad_Slot b \<and> ad_CommitteeIndex a = ad_CommitteeIndex b \<and> ad_BeaconBlockRoot a = ad_BeaconBlockRoot b \<and>
     cp_Epoch (ad_Source a) = cp_Epoch (ad_Source b) \<and> cp_Root (ad_Source a) = cp_Root (ad_Source b) \<and>
     cp_Epoch (ad_Target a) = cp_Epoch (ad_Target b) \<and> cp_Root (ad_Target a) = cp_Root (ad_Target b)"

definition IsSurround :: "AttestationData \<Rightarrow> AttestationData \<Rightarrow> bool" where
  "IsSurround a b \<longleftrightarrow>
     cp_Epoch (ad_Source a) < cp_Epoch (ad_Source b) \<and> cp_Epoch (ad_Target b) < cp_Epoch (ad_Target a)"

text \<open>\<open>None\<close> stands for data that is nil or lacks its source or its target.\<close>

definition IsSlashableAttestationData :: "AttestationData option \<Rightarrow> AttestationData option \<Rightarrow> bool" where
  "IsSlashableAttestationData data1 data2 = (case (data1, data2) of
      (Some a, Some b) \<Rightarrow>
        (\<not> AttDataIsEqual a b \<and> cp_Epoch (ad_Target a) = cp_Epoch (ad_Target b)) \<or> IsSurround a b
    | _ \<Rightarrow> False)"

section \<open>Reading and writing a protection file\<close>

definition protection_exists :: "file_io \<Rightarrow> bytes \<Rightarrow> (protection_files, bool) state_result" where
  "protection_exists io publicKey =
     (case io_existsErr io publicKey of
        Some e \<Rightarrow> liftS (wrapR ''could not check if the file exists'' (Inl e))
      | None \<Rightarrow> readS (\<lambda>files. files publicKey \<noteq> None))"

definition validatorSlashingProtection ::
    "file_io \<Rightarrow> bytes \<Rightarrow> (protection_files, ValidatorSlashingProtection option) state_result" where
  "validatorSlashingProtection io publicKey =
     bindS (protection_exists io publicKey) (\<lambda>ok.
       if \<not> ok then returnS None
       else case io_readErr io publicKey of
         Some e \<Rightarrow> liftS (Inl e)
       | None \<Rightarrow> readS (\<lambda>files. files publicKey))"

definition saveValidatorSlashingProtection ::
    "file_io \<Rightarrow> bytes \<Rightarrow> ValidatorSlashingProtection \<Rightarrow> (protection_files, unit) state_result" where
  "saveValidatorSlashingProtection io publicKey p =
     (case io_writeErr io publicKey of Some e \<Rightarrow> liftS (Inl e)
      | None \<Rightarrow>
          (case io_torn io publicKey of
             Some (e, left) \<Rightarrow> bindS (modifyS (\<lambda>files. files(publicKey \<mapsto> left))) (\<lambda>_. liftS (Inl e))
           | None \<Rightarrow> modifyS (\<lambda>files. files(publicKey \<mapsto> p))))"

text \<open>No write breaks off.\<close>

definition intact :: "file_io \<Rightarrow> bool" where
  "intact io \<longleftrightarrow> io_torn io = (\<lambda>_. None)"

definition emptyProtection :: ValidatorSlashingProtection where
  "emptyProtection = \<lparr>sp_LatestSignedBlockSlot = None, sp_LastSignedAttestationSourceEpoch = 0,
                      sp_LastSignedAttestationTargetEpoch = None\<rparr>"

definition UpdatePublicKeysBuckets :: "file_io \<Rightarrow> bytes list \<Rightarrow> (protection_files, unit) state_result" where
  "UpdatePublicKeysBuckets io pubKeys =
     forS (\<lambda>pubKey. bindS (protection_exists io pubKey) (\<lambda>ok.
       if ok then returnS () else saveValidatorSlashingProtection io pubKey emptyProtection)) pubKeys"

section \<open>Attestations\<close>

definition get_protection ::
    "file_io \<Rightarrow> bytes \<Rightarrow> (protection_files, ValidatorSlashingProtection option) state_result" where
  "get_protection io pubKey =
     wrapS ''could not get validator slashing protection'' (validatorSlashingProtection io pubKey)"

definition put_protection ::
    "file_io \<Rightarrow> bytes \<Rightarrow> ValidatorSlashingProtection \<Rightarrow> (protection_files, unit) state_result" where
  "put_protection io pubKey p =
     wrapS ''could not save validator slashing protection'' (saveValidatorSlashingProtection io pubKey p)"

definition LowestSignedTargetEpoch :: "file_io \<Rightarrow> bytes \<Rightarrow> (protection_files, Epoch \<times> bool) state_result" where
  "LowestSignedTargetEpoch io pubKey = bindS (get_protection io pubKey) (\<lambda>p.
     returnS (case p of None \<Rightarrow> (0, False)
       | Some v \<Rightarrow> (case sp_LastSignedAttestationTargetEpoch v of None \<Rightarrow> (0, False) | Some t \<Rightarrow> (t, True))))"

definition LowestSignedSourceEpoch :: "file_io \<Rightarrow> bytes \<Rightarrow> (protection_files, Epoch \<times> bool) state_result" where
  "LowestSignedSourceEpoch io pubKey = bindS (get_protection io pubKey) (\<lambda>p.
     returnS (case p of None \<Rightarrow> (0, False) | Some v \<Rightarrow> (sp_LastSignedAttestationSourceEpoch v, True)))"

text \<open>The decision of \<^verbatim>\<open>SaveAttestationForPubKey\<close>: the new contents of the file, or the refusal.\<close>

definition checked_attestation ::
    "ValidatorSlashingProtection option \<Rightarrow> u64 \<Rightarrow> u64 \<Rightarrow> ValidatorSlashingProtection result" where
  "checked_attestation p source target = (case p of
      None \<Rightarrow> Inr (emptyProtection\<lparr>sp_LastSignedAttestationSourceEpoch := source,
                                    sp_LastSignedAttestationTargetEpoch := Some target\<rparr>)
    | Some v \<Rightarrow>
        (if source < sp_LastSignedAttestationSourceEpoch v
         then Inl (Err ''could not sign attestation with source lower than recorded source epoch'')
         else if (case sp_LastSignedAttestationTargetEpoch v of None \<Rightarrow> False | Some t \<Rightarrow> target \<le> t)
         then Inl (Err ''could not sign attestation with target lower than or equal to recorded target epoch'')
         else Inr (v\<lparr>sp_LastSignedAttestationSourceEpoch := source,
                     sp_LastSignedAttestationTargetEpoch := Some target\<rparr>)))"

definition SaveAttestationForPubKey ::
    "file_io \<Rightarrow> bytes \<Rightarrow> AttestationData option \<Rightarrow> (protection_files, unit) state_result" where
  "SaveAttestationForPubKey io pubkey att = (case att of
      None \<Rightarrow> liftS (Inl (Err ''incoming attestation does not contain source and/or target epoch''))
    | Some d \<Rightarrow>
        bindS (get_protection io pubkey) (\<lambda>p.
        bindS (liftS (checked_attestation p (cp_Epoch (ad_Source d)) (cp_Epoch (ad_Target d)))) (\<lambda>v.
        put_protection io pubkey v)))"

definition SlashableAttestationCheck ::
    "file_io \<Rightarrow> AttestationData option \<Rightarrow> bytes \<Rightarrow> (protection_files, unit) state_result" where
  "SlashableAttestationCheck io indexedAtt pubKey files =
     (case SaveAttestationForPubKey io pubKey indexedAtt files of
        (Inr _, files') \<Rightarrow> (Inr (), files')
      | (Inl e, files') \<Rightarrow>
          (if error_contains e ''could not sign attestation''
           then (wrapR ''attempted to make slashable attestation, rejected by local slashing protection'' (Inl e), files')
           else (wrapR ''could not save attestation history for validator public key'' (Inl e), files')))"

definition maxSourceTargetEpoch :: "AttestationData option list \<Rightarrow> (Epoch \<times> Epoch) result" where
  "maxSourceTargetEpoch atts =
     foldR (\<lambda>att (maxSource, maxTarget). case att of
         None \<Rightarrow> Inl (Err ''incoming attestation does not contain source and/or target epoch'')
       | Some d \<Rightarrow> Inr (if cp_Epoch (ad_Source d) > maxSource then cp_Epoch (ad_Source d) else maxSource,
                         if cp_Epoch (ad_Target d) > maxTarget then cp_Epoch (ad_Target d) else maxTarget)) atts (0, 0)"

definition SaveAttestationsForPubKey ::
    "file_io \<Rightarrow> bytes \<Rightarrow> AttestationData option list \<Rightarrow> (protection_files, unit) state_result" where
  "SaveAttestationsForPubKey io pubkey atts =
     (if atts = [] then returnS ()
      else
        bindS (liftS (wrapR ''could not get maximum source and target epoch'' (maxSourceTargetEpoch atts)))
          (\<lambda>(maxIncomingSource, maxIncomingTarget).
        bindS (get_protection io pubkey) (\<lambda>p.
        case p of
          None \<Rightarrow> put_protection io pubkey
                    (emptyProtection\<lparr>sp_LastSignedAttestationSourceEpoch := maxIncomingSource,
                                     sp_LastSignedAttestationTargetEpoch := Some maxIncomingTarget\<rparr>)
        | Some v \<Rightarrow>
            (let maxSource = (if sp_LastSignedAttestationSourceEpoch v > maxIncomingSource
                              then sp_LastSignedAttestationSourceEpoch v else maxIncomingSource);
                 maxTarget = (case sp_LastSignedAttestationTargetEpoch v of
                                None \<Rightarrow> maxIncomingTarget
                              | Some t \<Rightarrow> if t > maxIncomingTarget then t else maxIncomingTarget)
             in put_protection io pubkey
                  (v\<lparr>sp_LastSignedAttestationSourceEpoch := maxSource,
                     sp_LastSignedAttestationTargetEpoch := Some maxTarget\<rparr>)))))"

definition AttestationHistoryForPubKey ::
    "file_io \<Rightarrow> bytes \<Rightarrow> (protection_files, (bytes \<times> Epoch \<times> Epoch) list) state_result" where
  "AttestationHistoryForPubKey io pubKey = bindS (get_protection io pubKey) (\<lambda>p.
     returnS (case p of None \<Rightarrow> []
       | Some v \<Rightarrow> (case sp_LastSignedAttestationTargetEpoch v of
            None \<Rightarrow> []
          | Some t \<Rightarrow> [(pubKey, sp_LastSignedAttestationSourceEpoch v, t)])))"

section \<open>Proposals\<close>

definition ProposalHistoryForPubKey :: "file_io \<Rightarrow> bytes \<Rightarrow> (protection_files, Slot list) state_result" where
  "ProposalHistoryForPubKey io publicKey = bindS (get_protection io publicKey) (\<lambda>p.
     returnS (case p of None \<Rightarrow> []
       | Some v \<Rightarrow> (case sp_LatestSignedBlockSlot v of None \<Rightarrow> [] | Some slot \<Rightarrow> [slot])))"

text \<open>The decision of \<^verbatim>\<open>SaveProposalHistoryForSlot\<close>.\<close>

definition checked_proposal :: "ValidatorSlashingProtection option \<Rightarrow> Slot \<Rightarrow> ValidatorSlashingProtection result" where
  "checked_proposal p slot = (case p of
      None \<Rightarrow> Inr (emptyProtection\<lparr>sp_LatestSignedBlockSlot := Some slot\<rparr>)
    | Some v \<Rightarrow> (case sp_LatestSignedBlockSlot v of
          None \<Rightarrow> Inr (v\<lparr>sp_LatestSignedBlockSlot := Some slot\<rparr>)
        | Some latest \<Rightarrow>
            (if slot \<le> latest
             then Inl (Err ''could not sign proposal with slot lower than or equal to recorded slot'')
             else Inr (v\<lparr>sp_LatestSignedBlockSlot := Some slot\<rparr>))))"

definition SaveProposalHistoryForSlot :: "file_io \<Rightarrow> bytes \<Rightarrow> Slot \<Rightarrow> (protection_files, unit) state_result" where
  "SaveProposalHistoryForSlot io pubKey slot =
     bindS (get_protection io pubKey) (\<lambda>p.
     bindS (liftS (checked_proposal p slot)) (\<lambda>v.
     put_protection io pubKey v))"

definition SlashableProposalCheck :: "file_io \<Rightarrow> bytes \<Rightarrow> Slot \<Rightarrow> (protection_files, unit) state_result" where
  "SlashableProposalCheck io pubKey slot files =
     (case SaveProposalHistoryForSlot io pubKey slot files of
        (Inr _, files') \<Rightarrow> (Inr (), files')
      | (Inl e, files') \<Rightarrow>
          (if error_contains e ''could not sign proposal''
           then (wrapR ''block rejected by local protection'' (Inl e), files')
           else (wrapR ''failed to save updated proposal history'' (Inl e), files')))"

section \<open>Import of the interchange format\<close>

text \<open>\<^verbatim>\<open>strconv.ParseUint(str, 10, 64)\<close>: the decimal digits are read from the left, and the first one that is
  not a digit or leaves the range ends the conversion.\<close>

definition parse_digit :: "char \<Rightarrow> nat \<Rightarrow> nat result" where
  "parse_digit ch n =
     (let k = (of_char ch :: nat) in
      if k < 48 \<or> 57 < k then Inl (Err ''invalid syntax'')
      else if 2 ^ 64 \<le> n * 10 + (k - 48) then Inl (Err ''value out of range'')
      else Inr (n * 10 + (k - 48)))"

definition Uint64FromString :: "string \<Rightarrow> u64 result" where
  "Uint64FromString str =
     (if str = [] then Inl (Err ''invalid syntax'')
      else bindR (foldR parse_digit str 0) (\<lambda>n. Inr (of_nat n)))"

definition EpochFromString :: "string \<Rightarrow> Epoch result" where
  "EpochFromString str = Uint64FromString str"

definition SlotFromString :: "string \<Rightarrow> Slot result" where
  "SlotFromString str = Uint64FromString str"

record SignedAttestation =
  sa_SourceEpoch :: string
  sa_TargetEpoch :: string

text \<open>A signed block is its slot; \<open>None\<close> is a null entry of the JSON array.\<close>

record ProtectionData =
  pd_Pubkey :: string
  pd_SignedBlocks :: "string option list"
  pd_SignedAttestations :: "SignedAttestation option list"

fun importBlockProposals :: "file_io \<Rightarrow> bytes \<Rightarrow> string option list \<Rightarrow> (protection_files, unit) state_result" where
  "importBlockProposals io pubkey [] files = (Inr (), files)"
| "importBlockProposals io pubkey (None # blocks) files = (Inr (), files)"
| "importBlockProposals io pubkey (Some str # blocks) files =
     (case wrapR ''could not convert slot to primitives.Slot'' (SlotFromString str) of
        Inl e \<Rightarrow> (Inl e, files)
      | Inr slot \<Rightarrow>
          (case SaveProposalHistoryForSlot io pubkey slot files of
             (Inr _, files') \<Rightarrow> importBlockProposals io pubkey blocks files'
           | (Inl e, files') \<Rightarrow>
               (if error_contains e ''could not sign proposal'' then importBlockProposals io pubkey blocks files'
                else (wrapR ''could not save proposal history from imported JSON to database'' (Inl e), files'))))"

definition imported_attestation :: "SignedAttestation option \<Rightarrow> AttestationData option result" where
  "imported_attestation sa = (case sa of
      None \<Rightarrow> Inl (Panic ''nil pointer dereference'')
    | Some a \<Rightarrow>
        bindR (wrapR ''could not convert source epoch to primitives.Epoch'' (EpochFromString (sa_SourceEpoch a))) (\<lambda>source.
        bindR (wrapR ''could not convert target epoch to primitives.Epoch'' (EpochFromString (sa_TargetEpoch a))) (\<lambda>target.
        Inr (Some \<lparr>ad_Slot = 0, ad_CommitteeIndex = 0, ad_BeaconBlockRoot = [],
                   ad_Source = \<lparr>cp_Epoch = source, cp_Root = []\<rparr>,
                   ad_Target = \<lparr>cp_Epoch = target, cp_Root = []\<rparr>\<rparr>))))"

definition importAttestations ::
    "file_io \<Rightarrow> bytes \<Rightarrow> SignedAttestation option list \<Rightarrow> (protection_files, unit) state_result" where
  "importAttestations io pubkey sas =
     bindS (liftS (mapR imported_attestation sas)) (\<lambda>atts files.
       case SaveAttestationsForPubKey io pubkey atts files of
         (Inr _, files') \<Rightarrow> (Inr (), files')
       | (Inl e, files') \<Rightarrow>
           (if error_contains e ''could not sign attestation'' then (Inr (), files')
            else (wrapR ''could not save attestation record from imported JSON to database'' (Inl e), files')))"

text \<open>One entry of \<^verbatim>\<open>interchangeJSON.Data\<close> in \<^verbatim>\<open>ImportStandardProtectionJSON\<close>. The conversion to a 48-byte
  array panics when the slice is shorter. \<open>decode\<close> is \<^verbatim>\<open>hexutil.Decode\<close> of go-ethereum.\<close>

definition import_item ::
    "(string \<Rightarrow> bytes result) \<Rightarrow> file_io \<Rightarrow> ProtectionData option \<Rightarrow> (protection_files, unit) state_result" where
  "import_item decode io item = (case item of
      None \<Rightarrow> returnS ()
    | Some d \<Rightarrow>
        bindS (liftS (wrapR ''could not decode public key from hex'' (decode (pd_Pubkey d)))) (\<lambda>pubkeyBytes.
        bindS (liftS (guardR (48 \<le> length pubkeyBytes) (Panic ''cannot convert slice to array''))) (\<lambda>_.
        let pubkey = take 48 pubkeyBytes in
        bindS (wrapS ''could not import block proposals'' (importBlockProposals io pubkey (pd_SignedBlocks d))) (\<lambda>_.
        wrapS ''could not import attestations'' (importAttestations io pubkey (pd_SignedAttestations d))))))"

definition import_items ::
    "(string \<Rightarrow> bytes result) \<Rightarrow> file_io \<Rightarrow> ProtectionData option list \<Rightarrow> (protection_files, unit) state_result" where
  "import_items decode io items = forS (import_item decode io) items"

section \<open>The requests of the validator client\<close>

datatype db_request =
    CheckAttestation bytes "AttestationData option"
  | CheckProposal bytes Slot
  | ImportData "ProtectionData option list"
  | AddKeys "bytes list"

fun serve :: "(string \<Rightarrow> bytes result) \<Rightarrow> file_io \<Rightarrow> db_request \<Rightarrow> (protection_files, unit) state_result" where
  "serve decode io (CheckAttestation k att) = SlashableAttestationCheck io att k"
| "serve decode io (CheckProposal k slot) = SlashableProposalCheck io k slot"
| "serve decode io (ImportData items) = import_items decode io items"
| "serve decode io (AddKeys ks) = UpdatePublicKeysBuckets io ks"

text \<open>The requests that were answered without an error, in their order: what the client goes on to sign.\<close>

fun approved :: "('env \<Rightarrow> 'r \<Rightarrow> ('s, unit) state_result) \<Rightarrow> ('env \<times> 'r) list \<Rightarrow> 's \<Rightarrow> 'r list" where
  "approved guard [] s = []"
| "approved guard ((env, r) # rs) s =
     (case guard env r s of
        (Inl _, s') \<Rightarrow> approved guard rs s'
      | (Inr _, s') \<Rightarrow> r # approved guard rs s')"

fun slashable_pair :: "db_request \<Rightarrow> db_request \<Rightarrow> bool" where
  "slashable_pair (CheckAttestation k a) (CheckAttestation k' b) \<longleftrightarrow>
     k = k' \<and> (IsSlashableAttestationData a b \<or> IsSlashableAttestationData b a)"
| "slashable_pair (CheckProposal k s) (CheckProposal k' s') \<longleftrightarrow> k = k' \<and> s = s'"
| "slashable_pair _ _ \<longleftrightarrow> False"

section \<open>Attester and proposer of one key\<close>

datatype signing_op = Attest u64 u64 | Propose Slot

text \<open>The multilock keys: \<^verbatim>\<open>SubmitAttestation\<close> locks the role's byte followed by the public key,
  \<^verbatim>\<open>ProposeBlock\<close> the printed role (\<^verbatim>\<open>"2"\<close>) and the public key.\<close>

definition SubmitAttestation_locks :: "bytes \<Rightarrow> bytes list" where
  "SubmitAttestation_locks pubKey = [1 # pubKey]"

definition ProposeBlock_locks :: "bytes \<Rightarrow> bytes list" where
  "ProposeBlock_locks pubKey = [[50], pubKey]"

fun lock_keys :: "bytes \<Rightarrow> signing_op \<Rightarrow> bytes list" where
  "lock_keys pubKey (Attest _ _) = SubmitAttestation_locks pubKey"
| "lock_keys pubKey (Propose _) = ProposeBlock_locks pubKey"

fun checked :: "signing_op \<Rightarrow> ValidatorSlashingProtection option \<Rightarrow> ValidatorSlashingProtection result" where
  "checked (Attest s t) p = checked_attestation p s t"
| "checked (Propose slot) p = checked_proposal p slot"

text \<open>The file of the key, the operations that have read it and not yet written it, each with what it read,
  and what has been signed, the newest first.\<close>

record signers =
  sg_file :: "ValidatorSlashingProtection option"
  sg_running :: "(signing_op \<times> ValidatorSlashingProtection option) list"
  sg_signed :: "signing_op list"

inductive signer_step :: "bytes \<Rightarrow> signers \<Rightarrow> signers \<Rightarrow> bool" for pubKey where
  read: "\<forall>(q, _) \<in> set (sg_running g). set (lock_keys pubKey opn) \<inter> set (lock_keys pubKey q) = {} \<Longrightarrow>
    signer_step pubKey g (g\<lparr>sg_running := sg_running g @ [(opn, sg_file g)]\<rparr>)"
| sign: "sg_running g = us @ (opn, p) # vs \<Longrightarrow> checked opn p = Inr v \<Longrightarrow>
    signer_step pubKey g (g\<lparr>sg_file := Some v, sg_running := us @ vs, sg_signed := opn # sg_signed g\<rparr>)"
| refuse: "sg_running g = us @ (opn, p) # vs \<Longrightarrow> checked opn p = Inl e \<Longrightarrow>
    signer_step pubKey g (g\<lparr>sg_running := us @ vs\<rparr>)"

section \<open>Records only move forward\<close>

definition opt_le :: "u64 option \<Rightarrow> u64 option \<Rightarrow> bool" where
  "opt_le a b \<longleftrightarrow> (\<forall>x. a = Some x \<longrightarrow> (\<exists>y. b = Some y \<and> x \<le> y))"

definition protection_le :: "ValidatorSlashingProtection \<Rightarrow> ValidatorSlashingProtection \<Rightarrow> bool" where
  "protection_le p q \<longleftrightarrow>
     opt_le (sp_LatestSignedBlockSlot p) (sp_LatestSignedBlockSlot q) \<and>
     sp_LastSignedAttestationSourceEpoch p \<le> sp_LastSignedAttestationSourceEpoch q \<and>
     opt_le (sp_LastSignedAttestationTargetEpoch p) (sp_LastSignedAttestationTargetEpoch q)"

definition files_le :: "protection_files \<Rightarrow> protection_files \<Rightarrow> bool" where
  "files_le f g \<longleftrightarrow> (\<forall>k p. f k = Some p \<longrightarrow> (\<exists>q. g k = Some q \<and> protection_le p q))"

lemma opt_le_refl [simp]: "opt_le a a" "opt_le None a"
  by (auto simp: opt_le_def)

lemma opt_le_Some [simp]: "opt_le (Some x) (Some y) \<longleftrightarrow> x \<le> y"
  by (simp add: opt_le_def)

lemma protection_le_refl [simp]: "protection_le p p"
  by (simp add: protection_le_def)

lemma protection_le_trans: "protection_le p q \<Longrightarrow> protection_le q r \<Longrightarrow> protection_le p r"
  by (fastforce simp: protection_le_def opt_le_def)

lemma files_le_refl [simp]: "files_le f f"
  by (simp add: files_le_def)

lemma files_le_trans: "files_le f g \<Longrightarrow> files_le g h \<Longrightarrow> files_le f h"
  unfolding files_le_def by (meson protection_le_trans)

lemma files_le_update:
  assumes "files_le f g" and "\<And>p. g k = Some p \<Longrightarrow> protection_le p q"
  shows "files_le f (g(k \<mapsto> q))"
  unfolding files_le_def
proof (intro allI impI)
  fix k' p assume "f k' = Some p"
  then obtain p' where "g k' = Some p'" and "protection_le p p'"
    using assms(1) by (auto simp: files_le_def)
  then show "\<exists>q'. (g(k \<mapsto> q)) k' = Some q' \<and> protection_le p q'"
    using assms(2) protection_le_trans by (cases "k' = k") auto
qed

text \<open>The decisions and the merge of an import move a record forward.\<close>

lemma checked_attestation_le:
  "checked_attestation p s t = Inr v \<Longrightarrow> p = Some q \<Longrightarrow> protection_le q v"
  by (auto simp: checked_attestation_def protection_le_def opt_le_def not_less not_le split: if_splits option.splits)

lemma checked_proposal_le: "checked_proposal p slot = Inr v \<Longrightarrow> p = Some q \<Longrightarrow> protection_le q v"
  by (auto simp: checked_proposal_def protection_le_def opt_le_def not_le split: if_splits option.splits)

lemma merged_le:
  "protection_le v (v\<lparr>sp_LastSignedAttestationSourceEpoch :=
        (if sp_LastSignedAttestationSourceEpoch v > s then sp_LastSignedAttestationSourceEpoch v else s),
      sp_LastSignedAttestationTargetEpoch :=
        Some (case sp_LastSignedAttestationTargetEpoch v of None \<Rightarrow> t | Some t' \<Rightarrow> if t' > t then t' else t)\<rparr>)"
  by (auto simp: protection_le_def opt_le_def not_less split: option.splits)

section \<open>Every operation moves the files forward\<close>

lemma get_protection_run:
  "get_protection io k f = (r, f') \<Longrightarrow> f' = f \<and> (\<forall>p. r = Inr p \<longrightarrow> p = f k)"
  unfolding get_protection_def validatorSlashingProtection_def protection_exists_def
  by (cases "io_existsErr io k"; cases "io_readErr io k"; cases "f k")
    (auto simp: wrapS_def bindS_def returnS_def liftS_def readS_def wrapR_def)

lemma put_protection_run:
  "put_protection io k v f = (r, f') \<Longrightarrow> case r of Inr _ \<Rightarrow> f' = f(k \<mapsto> v) | Inl _ \<Rightarrow> intact io \<longrightarrow> f' = f"
  unfolding put_protection_def saveValidatorSlashingProtection_def
  by (cases "io_writeErr io k"; cases "io_torn io k")
    (auto simp: wrapS_def wrapR_def liftS_def modifyS_def bindS_def intact_def)

text \<open>A check that fails leaves the files when no write breaks off, and one that succeeds has stored its decision.\<close>

lemma bindS_get:
  "bindS (get_protection io k) m f =
    (case fst (get_protection io k f) of Inl e \<Rightarrow> (Inl e, f) | Inr _ \<Rightarrow> m (f k) f)"
  using get_protection_run [of io k f "fst (get_protection io k f)" "snd (get_protection io k f)"]
  by (cases "get_protection io k f"; cases "fst (get_protection io k f)") (simp_all add: bindS_def)

lemma guarded_save_run:
  assumes "bindS (get_protection io k) (\<lambda>p. bindS (liftS (check p)) (put_protection io k)) f = (r, f')"
  shows "case r of Inl _ \<Rightarrow> intact io \<longrightarrow> f' = f | Inr _ \<Rightarrow> (\<exists>v. check (f k) = Inr v \<and> f' = f(k \<mapsto> v))"
proof (cases "fst (get_protection io k f)")
  case (Inl e)
  then show ?thesis using assms by (simp add: bindS_get) (auto split: sum.split)
next
  case (Inr p)
  show ?thesis
  proof (cases "check (f k)")
    case (Inl e)
    then have "bindS (liftS (check (f k))) (put_protection io k) f = (Inl e, f)"
      by (simp add: bindS_def liftS_def)
    with Inr show ?thesis using assms by (simp add: bindS_get) (auto split: sum.split)
  next
    case (Inr v)
    have "put_protection io k v f = (r, f')"
      using assms Inr \<open>fst (get_protection io k f) = Inr p\<close> by (simp add: bindS_get)
    from put_protection_run [OF this] Inr show ?thesis by (cases r) simp_all
  qed
qed

lemma SaveAttestation_run:
  assumes "SaveAttestationForPubKey io k att f = (r, f')"
  shows "case r of Inl _ \<Rightarrow> intact io \<longrightarrow> f' = f
    | Inr _ \<Rightarrow> (\<exists>d v. att = Some d \<and> checked_attestation (f k) (cp_Epoch (ad_Source d)) (cp_Epoch (ad_Target d)) = Inr v \<and>
                       f' = f(k \<mapsto> v))"
proof (cases att)
  case None
  then show ?thesis using assms by (auto simp: SaveAttestationForPubKey_def liftS_def)
next
  case (Some d)
  have "bindS (get_protection io k) (\<lambda>p. bindS
      (liftS (checked_attestation p (cp_Epoch (ad_Source d)) (cp_Epoch (ad_Target d)))) (put_protection io k)) f = (r, f')"
    using assms Some by (simp add: SaveAttestationForPubKey_def)
  from guarded_save_run [OF this] Some show ?thesis by (simp split: sum.splits)
qed

lemma SaveProposal_run:
  assumes "SaveProposalHistoryForSlot io k slot f = (r, f')"
  shows "case r of Inl _ \<Rightarrow> intact io \<longrightarrow> f' = f | Inr _ \<Rightarrow> (\<exists>v. checked_proposal (f k) slot = Inr v \<and> f' = f(k \<mapsto> v))"
  using guarded_save_run [of io k "\<lambda>p. checked_proposal p slot"] assms unfolding SaveProposalHistoryForSlot_def by blast

lemma SlashableAttestationCheck_run:
  "SlashableAttestationCheck io att k f = (r, f') \<Longrightarrow>
    case r of Inl _ \<Rightarrow> intact io \<longrightarrow> f' = f
    | Inr _ \<Rightarrow> (\<exists>d v. att = Some d \<and> checked_attestation (f k) (cp_Epoch (ad_Source d)) (cp_Epoch (ad_Target d)) = Inr v \<and>
                       f' = f(k \<mapsto> v))"
  unfolding SlashableAttestationCheck_def
  by (cases "SaveAttestationForPubKey io k att f")
    (auto simp: wrapR_def dest!: SaveAttestation_run split: sum.splits if_splits)

lemma SlashableProposalCheck_run:
  "SlashableProposalCheck io k slot f = (r, f') \<Longrightarrow>
    case r of Inl _ \<Rightarrow> intact io \<longrightarrow> f' = f | Inr _ \<Rightarrow> (\<exists>v. checked_proposal (f k) slot = Inr v \<and> f' = f(k \<mapsto> v))"
  unfolding SlashableProposalCheck_def
  by (cases "SaveProposalHistoryForSlot io k slot f")
    (auto simp: wrapR_def dest!: SaveProposal_run split: sum.splits if_splits)

lemma keeps_files: "(\<And>f r f'. m f = (r, f') \<Longrightarrow> files_le f f') \<Longrightarrow> keeps (files_le f0) m"
  unfolding keeps_def using files_le_trans by (metis prod.collapse)

lemma SaveProposal_keeps:
  assumes "intact io"
  shows "keeps (files_le f0) (SaveProposalHistoryForSlot io k slot)"
  using assms by (intro keeps_files)
    (auto dest!: SaveProposal_run intro!: files_le_update checked_proposal_le split: sum.splits)

lemma importBlockProposals_keeps:
  assumes "intact io"
  shows "keeps (files_le f0) (importBlockProposals io k bs)"
proof -
  have "intact io \<Longrightarrow> files_le f0 f \<Longrightarrow> files_le f0 (snd (importBlockProposals io k bs f))" for f
  proof (induction io k bs f rule: importBlockProposals.induct)
    case (3 io pubkey str blocks files)
    show ?case
    proof (cases "wrapR ''could not convert slot to primitives.Slot'' (SlotFromString str)")
      case (Inl e)
      then show ?thesis using "3.prems" by simp
    next
      case (Inr slot)
      obtain r files' where run: "SaveProposalHistoryForSlot io pubkey slot files = (r, files')"
        by fastforce
      then have "files_le f0 files'"
        using SaveProposal_keeps [OF "3.prems"(1)] "3.prems"(2) unfolding keeps_def by (metis snd_conv)
      then show ?thesis using "3.IH" [OF Inr run [symmetric]] "3.prems"(1) Inr run by (cases r) simp_all
    qed
  qed simp_all
  then show ?thesis using assms by (simp add: keeps_def)
qed

lemma SaveAttestations_keeps:
  assumes "intact io"
  shows "keeps (files_le f0) (SaveAttestationsForPubKey io k atts)"
proof (rule keeps_files)
  fix f r f' assume run: "SaveAttestationsForPubKey io k atts f = (r, f')"
  have put: "files_le f f'"
    if "put_protection io k v f = (r, f')" and "\<And>p. f k = Some p \<Longrightarrow> protection_le p v" for v
    using put_protection_run [OF that(1)] that(2) assms by (cases r) (auto intro: files_le_update)
  show "files_le f f'"
  proof (cases "atts = [] \<or> (\<exists>e. maxSourceTargetEpoch atts = Inl e) \<or> (\<exists>e. fst (get_protection io k f) = Inl e)")
    case True
    then have "f' = f" using run
      by (auto simp: SaveAttestationsForPubKey_def returnS_def bindS_get bindS_def [of "liftS m" for m] liftS_def wrapR_def
          split: sum.splits if_splits prod.splits)
    then show ?thesis by simp
  next
    case False
    then obtain s t p where "maxSourceTargetEpoch atts = Inr (s, t)" and "fst (get_protection io k f) = Inr p"
      by (metis sum.exhaust surj_pair)
    with False run show ?thesis
      by (cases "f k") (auto simp: SaveAttestationsForPubKey_def bindS_get Let_def intro!: put merged_le split del: if_split)
  qed
qed

lemma importAttestations_keeps:
  assumes "intact io"
  shows "keeps (files_le f0) (importAttestations io k sas)"
  unfolding importAttestations_def
proof (intro keeps_rules)
  fix atts
  show "keeps (files_le f0) (\<lambda>files. case SaveAttestationsForPubKey io k atts files of
         (Inr _, files') \<Rightarrow> (Inr (), files')
       | (Inl e, files') \<Rightarrow>
           (if error_contains e ''could not sign attestation'' then (Inr (), files')
            else (wrapR ''could not save attestation record from imported JSON to database'' (Inl e), files')))"
    using SaveAttestations_keeps [OF assms, of f0 k atts] unfolding keeps_def by (fastforce split: prod.splits sum.splits)
qed

lemma import_item_keeps:
  assumes "intact io"
  shows "keeps (files_le f0) (import_item decode io item)"
  using assms by (cases item)
    (auto simp: import_item_def Let_def intro!: keeps_rules importBlockProposals_keeps importAttestations_keeps)

lemma UpdatePublicKeysBuckets_keeps:
  assumes "intact io"
  shows "keeps (files_le f0) (UpdatePublicKeysBuckets io ks)"
  unfolding UpdatePublicKeysBuckets_def
proof (intro keeps_forS keeps_files)
  fix k f r f'
  assume "bindS (protection_exists io k)
      (\<lambda>ok. if ok then returnS () else saveValidatorSlashingProtection io k emptyProtection) f = (r, f')"
  then have "f' = f \<or> f k = None \<and> f' = f(k \<mapsto> emptyProtection)"
    using assms unfolding protection_exists_def saveValidatorSlashingProtection_def intact_def
    by (cases "io_existsErr io k"; cases "io_writeErr io k"; cases "f k")
      (auto simp: bindS_def returnS_def liftS_def readS_def wrapR_def modifyS_def)
  then show "files_le f f'" by (auto intro: files_le_update)
qed

lemma serve_keeps:
  assumes "intact io"
  shows "keeps (files_le f0) (serve decode io r)"
proof (cases r)
  case (CheckAttestation k att)
  show ?thesis unfolding CheckAttestation serve.simps
    using assms by (intro keeps_files) (auto dest!: SlashableAttestationCheck_run intro!: files_le_update checked_attestation_le
        split: sum.splits)
next
  case (CheckProposal k slot)
  show ?thesis unfolding CheckProposal serve.simps
    using assms by (intro keeps_files) (auto dest!: SlashableProposalCheck_run intro!: files_le_update checked_proposal_le
        split: sum.splits)
next
  case (ImportData items)
  then show ?thesis using assms by (auto simp: import_items_def intro!: keeps_forS import_item_keeps)
next
  case (AddKeys ks)
  then show ?thesis using assms by (simp add: UpdatePublicKeysBuckets_keeps)
qed

section \<open>What has been approved is recorded\<close>

fun recorded :: "db_request \<Rightarrow> protection_files \<Rightarrow> bool" where
  "recorded (CheckAttestation k (Some d)) files \<longleftrightarrow>
     (\<exists>p. files k = Some p \<and> cp_Epoch (ad_Source d) \<le> sp_LastSignedAttestationSourceEpoch p \<and>
          opt_le (Some (cp_Epoch (ad_Target d))) (sp_LastSignedAttestationTargetEpoch p))"
| "recorded (CheckProposal k slot) files \<longleftrightarrow>
     (\<exists>p. files k = Some p \<and> opt_le (Some slot) (sp_LatestSignedBlockSlot p))"
| "recorded _ files \<longleftrightarrow> True"

lemma recorded_le: "recorded r f \<Longrightarrow> files_le f g \<Longrightarrow> recorded r g"
  by (cases "(r, f)" rule: recorded.cases)
    (fastforce simp: files_le_def protection_le_def opt_le_def)+

lemma checked_attestation_Inr:
  "checked_attestation p s t = Inr v \<Longrightarrow>
    sp_LastSignedAttestationSourceEpoch v = s \<and> sp_LastSignedAttestationTargetEpoch v = Some t \<and>
    (\<forall>q. p = Some q \<longrightarrow> sp_LastSignedAttestationSourceEpoch q \<le> s \<and>
         (\<forall>t'. sp_LastSignedAttestationTargetEpoch q = Some t' \<longrightarrow> t' < t))"
  by (auto simp: checked_attestation_def not_less not_le split: option.splits if_splits)

lemma checked_proposal_Inr:
  "checked_proposal p slot = Inr v \<Longrightarrow>
    sp_LatestSignedBlockSlot v = Some slot \<and>
    (\<forall>q slot'. p = Some q \<longrightarrow> sp_LatestSignedBlockSlot q = Some slot' \<longrightarrow> slot' < slot)"
  by (auto simp: checked_proposal_def not_le split: option.splits if_splits)

lemma serve_attestation:
  assumes "serve decode io (CheckAttestation k att) f = (Inr u, f')"
  obtains d v where "att = Some d" and "f' = f(k \<mapsto> v)"
    and "checked_attestation (f k) (cp_Epoch (ad_Source d)) (cp_Epoch (ad_Target d)) = Inr v"
  using SlashableAttestationCheck_run [of io att k f "Inr u" f'] assms by auto

lemma serve_proposal:
  assumes "serve decode io (CheckProposal k slot) f = (Inr u, f')"
  obtains v where "f' = f(k \<mapsto> v)" and "checked_proposal (f k) slot = Inr v"
  using SlashableProposalCheck_run [of io k slot f "Inr u" f'] assms by auto

lemma serve_recorded: "serve decode io r f = (Inr u, f') \<Longrightarrow> recorded r f'"
  by (cases r) (auto elim!: serve_attestation serve_proposal dest!: checked_attestation_Inr checked_proposal_Inr
      simp del: serve.simps)

lemma recorded_excludes:
  assumes "recorded r f" and "serve decode io r' f = (Inr u, f')"
  shows "\<not> slashable_pair r r'"
proof (cases "(r, r')" rule: slashable_pair.cases)
  case (1 k a k' b)
  then have "serve decode io (CheckAttestation k' b) f = (Inr u, f')" using assms(2) by simp
  then obtain d v where b: "b = Some d"
    and v: "checked_attestation (f k') (cp_Epoch (ad_Source d)) (cp_Epoch (ad_Target d)) = Inr v"
    by (rule serve_attestation)
  show ?thesis
    using 1 assms(1) checked_attestation_Inr [OF v] unfolding b
    by (cases a) (auto simp: IsSlashableAttestationData_def IsSurround_def opt_le_def)
next
  case (2 k slot k' slot')
  then have "serve decode io (CheckProposal k' slot') f = (Inr u, f')" using assms(2) by simp
  then obtain v where "checked_proposal (f k') slot' = Inr v" by (rule serve_proposal)
  from checked_proposal_Inr [OF this] show ?thesis using 2 assms(1) by (auto simp: opt_le_def)
qed simp_all

section \<open>The contract of a slashing-protection database\<close>

text \<open>What the validator client relies on (\<^verbatim>\<open>iface.ValidatorDB\<close>): an approved request is recorded, what is
  recorded stays recorded in a sound environment, and a request that conflicts with a recorded one is refused.\<close>

locale signing_guard =
  fixes guard :: "'env \<Rightarrow> 'r \<Rightarrow> ('s, unit) state_result"
    and sound :: "'env \<Rightarrow> bool"
    and noted :: "'r \<Rightarrow> 's \<Rightarrow> bool"
    and conflict :: "'r \<Rightarrow> 'r \<Rightarrow> bool"
  assumes takes_note: "guard env r s = (Inr u, s') \<Longrightarrow> noted r s'"
    and stays: "sound env \<Longrightarrow> noted r s \<Longrightarrow> guard env q s = (res, s') \<Longrightarrow> noted r s'"
    and refuses: "noted r s \<Longrightarrow> conflict r q \<Longrightarrow> \<exists>e s'. guard env q s = (Inl e, s')"
begin

lemma noted_excludes:
  "\<forall>(env, _) \<in> set rs. sound env \<Longrightarrow> noted r s \<Longrightarrow> \<forall>q \<in> set (approved guard rs s). \<not> conflict r q"
proof (induction rs arbitrary: s)
  case (Cons eq rs)
  obtain env q res s' where run: "eq = (env, q)" "guard env q s = (res, s')" by (metis surj_pair)
  have "noted r s'" using stays [OF _ Cons.prems(2) run(2)] Cons.prems(1) run(1) by simp
  then have "\<forall>q \<in> set (approved guard rs s'). \<not> conflict r q"
    using Cons.IH Cons.prems(1) by simp
  moreover have "\<not> conflict r q" if "res = Inr u" for u
    using refuses [OF Cons.prems(2), of q env] run(2) that by auto
  ultimately show ?case using run by (cases res) simp_all
qed simp

lemma approved_compatible:
  "\<forall>(env, _) \<in> set rs. sound env \<Longrightarrow> sorted_wrt (\<lambda>r q. \<not> conflict r q) (approved guard rs s)"
proof (induction rs arbitrary: s)
  case (Cons eq rs)
  obtain env q res s' where run: "eq = (env, q)" "guard env q s = (res, s')" by (metis surj_pair)
  have rest: "\<forall>(env, _) \<in> set rs. sound env" using Cons.prems by simp
  show ?case using run Cons.IH [OF rest, of s'] noted_excludes [OF rest takes_note] by (cases res) simp_all
qed simp

end

interpretation filesystem_guard: signing_guard "serve decode" intact recorded slashable_pair
proof
  fix io r f u f' assume "serve decode io r f = (Inr u, f')"
  then show "recorded r f'" by (rule serve_recorded)
next
  fix io r f q res f' assume "intact io" and "recorded r f" and "serve decode io q f = (res, f')"
  then show "recorded r f'"
    using recorded_le serve_keeps [of io f decode q] unfolding keeps_def by (metis files_le_refl snd_conv)
next
  fix r f q io assume "recorded r f" and "slashable_pair r q"
  then show "\<exists>e f'. serve decode io q f = (Inl e, f')"
    using recorded_excludes by (metis old.prod.exhaust sum.exhaust)
qed

text \<open>Two operations with different locks, of which the second does not see the first one's write.\<close>

lemma lost_update:
  assumes "set (lock_keys pk b) \<inter> set (lock_keys pk a) = {}"
    and "checked a None = Inr va" and "checked b None = Inr vb" and "checked b (Some va) = Inr vc"
  shows "(signer_step pk)\<^sup>*\<^sup>* \<lparr>sg_file = None, sg_running = [], sg_signed = []\<rparr>
    \<lparr>sg_file = Some vc, sg_running = [], sg_signed = [b, a, b]\<rparr>"
proof -
  have "signer_step pk \<lparr>sg_file = None, sg_running = [], sg_signed = []\<rparr>
      \<lparr>sg_file = None, sg_running = [(a, None)], sg_signed = []\<rparr>"
    using signer_step.read [of "\<lparr>sg_file = None, sg_running = [], sg_signed = []\<rparr>" pk a] by simp
  moreover have "signer_step pk \<lparr>sg_file = None, sg_running = [(a, None)], sg_signed = []\<rparr>
      \<lparr>sg_file = None, sg_running = [(a, None), (b, None)], sg_signed = []\<rparr>"
    using signer_step.read [of "\<lparr>sg_file = None, sg_running = [(a, None)], sg_signed = []\<rparr>" pk b] assms(1) by simp
  moreover have "signer_step pk \<lparr>sg_file = None, sg_running = [(a, None), (b, None)], sg_signed = []\<rparr>
      \<lparr>sg_file = Some vb, sg_running = [(a, None)], sg_signed = [b]\<rparr>"
    using signer_step.sign [of "\<lparr>sg_file = None, sg_running = [(a, None), (b, None)], sg_signed = []\<rparr>"
        "[(a, None)]" b None "[]" vb pk] assms(3) by simp
  moreover have "signer_step pk \<lparr>sg_file = Some vb, sg_running = [(a, None)], sg_signed = [b]\<rparr>
      \<lparr>sg_file = Some va, sg_running = [], sg_signed = [a, b]\<rparr>"
    using signer_step.sign [of "\<lparr>sg_file = Some vb, sg_running = [(a, None)], sg_signed = [b]\<rparr>"
        "[]" a None "[]" va pk] assms(2) by simp
  moreover have "signer_step pk \<lparr>sg_file = Some va, sg_running = [], sg_signed = [a, b]\<rparr>
      \<lparr>sg_file = Some va, sg_running = [(b, Some va)], sg_signed = [a, b]\<rparr>"
    using signer_step.read [of "\<lparr>sg_file = Some va, sg_running = [], sg_signed = [a, b]\<rparr>" pk b] by simp
  moreover have "signer_step pk \<lparr>sg_file = Some va, sg_running = [(b, Some va)], sg_signed = [a, b]\<rparr>
      \<lparr>sg_file = Some vc, sg_running = [], sg_signed = [b, a, b]\<rparr>"
    using signer_step.sign [of "\<lparr>sg_file = Some va, sg_running = [(b, Some va)], sg_signed = [a, b]\<rparr>"
        "[]" b "Some va" "[]" vc pk] assms(4) by simp
  ultimately show ?thesis by (meson converse_rtranclp_into_rtranclp rtranclp.rtrancl_refl)
qed

section \<open>Claims\<close>

text \<open>C2: Whatever requests the slashing-protection database serves one after the other - checks of
  attestations and of proposals for any keys, imports, new keys - and whatever errors the existence checks, the
  reads and the preparation of the writes return, as long as no write breaks off after it has begun, the requests
  that it approves never contain, for one key, two attestations that are slashable by the beacon chain's own
  rule in either order, nor two proposals for the same slot.\<close>

theorem approved_never_slashable:
  assumes "\<forall>(io, _) \<in> set rs. intact io"
  shows "sorted_wrt (\<lambda>r r'. \<not> slashable_pair r r') (approved (serve decode) rs files)"
  by (rule filesystem_guard.approved_compatible [OF assms])

definition sound_io :: file_io where
  "sound_io = \<lparr>io_existsErr = \<lambda>_. None, io_readErr = \<lambda>_. None, io_writeErr = \<lambda>_. None, io_torn = \<lambda>_. None\<rparr>"

definition vote_data :: "u64 \<Rightarrow> u64 \<Rightarrow> AttestationData" where
  "vote_data source target = \<lparr>ad_Slot = 0, ad_CommitteeIndex = 0, ad_BeaconBlockRoot = [],
     ad_Source = \<lparr>cp_Epoch = source, cp_Root = []\<rparr>, ad_Target = \<lparr>cp_Epoch = target, cp_Root = []\<rparr>\<rparr>"

text \<open>A vote, a block, a vote that surrounds the first, the same block again, and a later vote.\<close>

definition requests_ex :: "(file_io \<times> db_request) list" where
  "requests_ex = map (Pair sound_io)
     [CheckAttestation [7] (Some (vote_data 3 4)), CheckProposal [7] 160, CheckAttestation [7] (Some (vote_data 2 5)),
      CheckProposal [7] 160, CheckAttestation [7] (Some (vote_data 4 5))]"

theorem approved_never_slashable_witness:
  "let as = approved (serve (\<lambda>_. Inl (Err ''invalid hex''))) requests_ex (\<lambda>_. None)
   in as = [CheckAttestation [7] (Some (vote_data 3 4)), CheckProposal [7] 160, CheckAttestation [7] (Some (vote_data 4 5))] \<and>
      sorted_wrt (\<lambda>r r'. \<not> slashable_pair r r') as"
proof -
  have "approved (serve (\<lambda>_. Inl (Err ''invalid hex''))) requests_ex (\<lambda>_. None) =
      [CheckAttestation [7] (Some (vote_data 3 4)), CheckProposal [7] 160, CheckAttestation [7] (Some (vote_data 4 5))]"
    by code_simp
  moreover have "\<forall>(io, _) \<in> set requests_ex. intact io" by (simp add: requests_ex_def intact_def sound_io_def)
  ultimately show ?thesis
    using approved_never_slashable [of requests_ex "\<lambda>_. Inl (Err ''invalid hex'')" "\<lambda>_. None"] by (simp add: Let_def)
qed

definition torn_io :: "error \<Rightarrow> file_io" where
  "torn_io e = sound_io\<lparr>io_torn := \<lambda>_. Some (e, emptyProtection)\<rparr>"

text \<open>C39: A write that breaks off right after the file was emptied (an empty file reads as the empty record) costs the
  key its protection: the request whose write broke off is refused, but of the earlier attestation nothing is left, and
  any further attestation for the key is approved, also one that is slashable together with the first.\<close>

theorem torn_write_forgets:
  "approved (serve decode) [(sound_io, CheckAttestation k (Some d)), (torn_io e, CheckProposal k slot),
       (sound_io, CheckAttestation k (Some d'))] (\<lambda>_. None) =
     [CheckAttestation k (Some d), CheckAttestation k (Some d')]"
proof -
  have save: "put_protection sound_io k v f = (Inr (), f(k \<mapsto> v))" for v f
    by (simp add: put_protection_def saveValidatorSlashingProtection_def sound_io_def wrapS_def modifyS_def)
  have torn: "\<exists>e'. put_protection (torn_io e) k v f = (Inl e', f(k \<mapsto> emptyProtection))" for v f
    by (simp add: put_protection_def saveValidatorSlashingProtection_def torn_io_def sound_io_def wrapS_def modifyS_def
        bindS_def liftS_def wrapR_def)
  have get: "get_protection sound_io k f = (Inr (f k), f)" "get_protection (torn_io e) k f = (Inr (f k), f)" for f
    by (simp_all add: get_protection_def validatorSlashingProtection_def protection_exists_def torn_io_def sound_io_def
        wrapS_def bindS_def readS_def returnS_def)
  obtain v where v: "checked_attestation None (cp_Epoch (ad_Source d)) (cp_Epoch (ad_Target d)) = Inr v"
    "sp_LatestSignedBlockSlot v = None"
    by (simp add: checked_attestation_def emptyProtection_def)
  have first: "serve decode sound_io (CheckAttestation k (Some d)) (\<lambda>_. None) = (Inr (), [k \<mapsto> v])"
    by (simp add: SlashableAttestationCheck_def SaveAttestationForPubKey_def bindS_get get save v)
  obtain v' where v': "checked_proposal (Some v) slot = Inr v'" using v(2) by (simp add: checked_proposal_def)
  obtain e' where e': "put_protection (torn_io e) k v' [k \<mapsto> v] = (Inl e', [k \<mapsto> emptyProtection])"
    using torn [of v' "[k \<mapsto> v]"] by auto
  then have "\<exists>e''. serve decode (torn_io e) (CheckProposal k slot) [k \<mapsto> v] = (Inl e'', [k \<mapsto> emptyProtection])"
    by (simp add: SlashableProposalCheck_def SaveProposalHistoryForSlot_def bindS_get get v' wrapR_def)
  moreover have "\<exists>f. serve decode sound_io (CheckAttestation k (Some d')) [k \<mapsto> emptyProtection] = (Inr (), f)"
    by (simp add: SlashableAttestationCheck_def SaveAttestationForPubKey_def bindS_get get save
        checked_attestation_def emptyProtection_def)
  ultimately show ?thesis using first by (auto simp del: serve.simps)
qed

text \<open>C38: The attester and the proposer of one key do not exclude each other: their lock keys differ, and each
  reads the key's file and writes it back in separate steps. From an empty file the two can reach a state in
  which the client has signed two blocks for the same slot, and one in which it has signed two attestations with
  the same target, each time because the other's write restored what it had read.\<close>

theorem signers_lose_updates:
  assumes "length pubKey = 48"
  shows "(\<exists>g. (signer_step pubKey)\<^sup>*\<^sup>* \<lparr>sg_file = None, sg_running = [], sg_signed = []\<rparr> g \<and>
              sg_signed g = [Propose slot, Attest source target, Propose slot]) \<and>
         (\<exists>g. (signer_step pubKey)\<^sup>*\<^sup>* \<lparr>sg_file = None, sg_running = [], sg_signed = []\<rparr> g \<and>
              sg_signed g = [Attest source target, Propose slot, Attest source target])"
proof -
  have "1 # pubKey \<noteq> [50]" "1 # pubKey \<noteq> pubKey" using assms by auto
  then have keys: "set (lock_keys pubKey (Propose slot)) \<inter> set (lock_keys pubKey (Attest source target)) = {}"
    "set (lock_keys pubKey (Attest source target)) \<inter> set (lock_keys pubKey (Propose slot)) = {}"
    by (auto simp: SubmitAttestation_locks_def ProposeBlock_locks_def)
  show ?thesis
    using lost_update [OF keys(1)] lost_update [OF keys(2)]
    by (fastforce simp: checked_attestation_def checked_proposal_def emptyProtection_def)
qed

theorem signers_lose_updates_witness:
  "(\<exists>g. (signer_step (replicate 48 7))\<^sup>*\<^sup>* \<lparr>sg_file = None, sg_running = [], sg_signed = []\<rparr> g \<and>
        sg_signed g = [Propose 33, Attest 0 1, Propose 33]) \<and>
   (\<exists>g. (signer_step (replicate 48 7))\<^sup>*\<^sup>* \<lparr>sg_file = None, sg_running = [], sg_signed = []\<rparr> g \<and>
        sg_signed g = [Attest 0 1, Propose 33, Attest 0 1])"
  by (rule signers_lose_updates) simp

end
