(* ===== verification/Spec2Isabelle.thy ===== *)
theory Spec2Isabelle
  imports Altair_Transition Fork_Choice_Spec Slashing_Protection
begin

text \<open>
  \<^bold>\<open>Verification of the consensus-layer beacon chain client in src/.\<close>

  \<^bold>\<open>The program.\<close> A beacon node follows a proof-of-stake chain. A slot clock (\<^verbatim>\<open>src/time/slots\<close>, configured by
  \<^verbatim>\<open>src/config/params\<close>) cuts time into slots and epochs. The state of the chain
  (\<^verbatim>\<open>src/beacon-chain/state/state-native\<close>, whose large lists are multi-value slices of
  \<^verbatim>\<open>src/container/multi-value-slice\<close>) is advanced by the state transition of \<^verbatim>\<open>src/beacon-chain/core\<close>: at the end
  of an epoch it justifies and finalizes checkpoints, pays rewards, ejects and slashes validators. Committees and
  proposers are drawn from the active validators with the swap-or-not shuffle and are cached
  (\<^verbatim>\<open>src/beacon-chain/cache\<close>). Fork choice (\<^verbatim>\<open>src/beacon-chain/forkchoice\<close>) keeps the tree of blocks and the latest
  votes and answers with the head of the chain. The validator client (\<^verbatim>\<open>src/validator\<close>) signs blocks and attestations
  after its slashing-protection database (\<^verbatim>\<open>src/validator/db/filesystem\<close>) has approved them.

  \<^bold>\<open>Conventions.\<close> A \<^verbatim>\<open>uint64\<close> is a \<open>64 word\<close> whose operations wrap as in Go; a duration or a point in time is an
  integer number of nanoseconds. An operation that may fail returns \<open>'a result = error + 'a\<close>; an \<open>error\<close> is \<open>Err\<close> with
  its message, \<open>Wrap\<close> for an added message, or \<open>Panic\<close> for a run-time panic (index out of range, division by zero,
  nil dereference). Operations that also change a state are of type \<open>state_result\<close> (State\_Result): the state is returned
  with the error too, since Go keeps what was changed before an error. The configuration, a global of the program, is the
  argument \<open>c\<close>. Third-party code (hash functions, bit vectors, the LRU cache) is an argument with its documented laws as
  hypotheses. Definitions carry the names of the Go functions they translate; a loop body that has a name of its own is
  named after its function.

  \<^bold>\<open>Theories and the code they model.\<close>
  \<^item> Prelude, State\_Result: the result and state monads, loops over lists, lemmas on words and lists.
  \<^item> Math\_Helper (\<^verbatim>\<open>math/math_helper.go\<close>), Primitives (\<^verbatim>\<open>consensus-types/primitives\<close>), Bytesutil
    (\<^verbatim>\<open>encoding/bytesutil\<close>): checked arithmetic, the Newton square root, byte encodings.
  \<^item> Config, Slot\_Schedule (\<^verbatim>\<open>config/params\<close>) and Slottime (\<^verbatim>\<open>time/slots/slottime.go\<close>): the slot clock with scheduled
    changes of the slot duration.
  \<^item> Multi\_Value\_Slice (\<^verbatim>\<open>container/multi-value-slice\<close>): the shared list with one view per state.
  \<^item> Beacon\_State (\<^verbatim>\<open>beacon-chain/state/state-native\<close>): the record of the state, its getters and setters.
  \<^item> Helpers (\<^verbatim>\<open>core/helpers\<close>, \<^verbatim>\<open>core/time\<close>), Validators (\<^verbatim>\<open>core/validators\<close>, \<^verbatim>\<open>core/electra/churn.go\<close>): activity,
    balances, churn, exits and slashings.
  \<^item> Epoch\_Processing (\<^verbatim>\<open>core/epoch\<close>), Precompute and Justification (\<^verbatim>\<open>core/epoch/precompute\<close>, \<^verbatim>\<open>state/stateutil\<close>): the
    steps of the epoch transition.
  \<^item> Shuffle (\<^verbatim>\<open>core/helpers/shuffle.go\<close>), Committees (\<^verbatim>\<open>core/helpers/beacon_committee.go\<close>,
    \<^verbatim>\<open>core/helpers/validators.go\<close>, \<^verbatim>\<open>cache\<close>) and Sampling: committees, proposers and the sync committee.
  \<^item> Altair\_Epoch, Altair\_Rewards, Altair\_Transition (\<^verbatim>\<open>core/altair\<close>): the epoch transition from Altair on.
  \<^item> Fork\_Choice (\<^verbatim>\<open>forkchoice/doubly-linked-tree\<close>): the block tree, the votes and every operation on them.
    Fork\_Choice\_Tree, Fork\_Choice\_Votes and Fork\_Choice\_Head hold the lemmas on weights and best descendants, on balances
    and boost, and on the head; Fork\_Choice\_Updates and Fork\_Choice\_Ancestors those on attestations and insertions and on
    ancestors; Fork\_Choice\_Spec the theorems.
  \<^item> Slashing\_Protection (\<^verbatim>\<open>validator/db/filesystem\<close>, the locks of \<^verbatim>\<open>validator/client/attest.go\<close> and \<^verbatim>\<open>propose.go\<close>,
    \<^verbatim>\<open>IsSlashableAttestationData\<close> of \<^verbatim>\<open>core/blocks\<close>): the minimal slashing-protection database.

  \<^bold>\<open>What is shown.\<close>
  \<^item> Clock: \<^verbatim>\<open>At\<close> returns slot \<open>s\<close> exactly between the starts of \<open>s\<close> and \<open>s + 1\<close>, also across scheduled changes, and
    the duty times of an accepted configuration with an offset set are in order in every slot.
  \<^item> Multi-value slice: every sequence of operations refines the same sequence on one list per object; the contract is
    the locale \<open>object_store\<close>, interpreted on the slice.
  \<^item> Registry: exits never exceed the churn limit (locale \<open>churn_queue\<close>, interpreted on the exit queue and on the
    consolidation queue), one registry update gives no new exit to two thirds of the active set, or to
    all validators above the ejection balance when these are fewer; but the floor counts validators that are already
    exiting. Slashing penalties and effective balances follow the specification.
  \<^item> Justification refines the specification's rule and is monotone; the unrealized checkpoints are those the transition
    will realize; rewards are the specification's formulas without wrap-around.
  \<^item> Shuffling a list and shuffling an index agree and are bijective; cached committees equal computed ones; the
    committees of an epoch partition its active validators; the sampling loops end.
  \<^item> The Altair transition keeps the lists of the state in step, and its accounting half never panics.
  \<^item> Fork choice: \<^verbatim>\<open>Head\<close> always returns, with the end of the LMD-GHOST walk over the stake of the latest unslashed votes or
    with an error; attestations, slashings and insertions keep the invariants; ancestors are found.
  \<^item> Slashing protection: as long as no write of a protection file breaks off, requests served one after the other never
    lead to two signatures that are slashable (locale \<open>signing_guard\<close>, interpreted on the database). A write that breaks
    off after the file was emptied forgets the record, and the attester and the proposer of a key, which run at the same
    time under different locks, can overwrite each other's record.

  \<^bold>\<open>Bounds and fuel.\<close> Recursions over the tree of fork choice take the number of nodes as fuel; running out is the
  panic of a stack overflow, and the lemmas on well-formed trees show that it does not happen. Loops that need not end
  (\<^verbatim>\<open>ComputeProposerIndex\<close>, walks to the parents) are partial functions in \<open>option\<close>; that they return is proved.
  Hypotheses on sums below \<open>2 ^ 64\<close> state that the total stake fits a \<^verbatim>\<open>uint64\<close>.

  \<^bold>\<open>Not modelled.\<close> Networking, RPC and REST servers, databases, the engine API client and the command line
  (\<^verbatim>\<open>p2p\<close>, \<^verbatim>\<open>rpc\<close>, \<^verbatim>\<open>sync\<close>, \<^verbatim>\<open>db\<close>, \<^verbatim>\<open>execution\<close>, \<^verbatim>\<open>api\<close>, \<^verbatim>\<open>cmd\<close>) are input and output around the transition; so is the
  validator client apart from its slashing protection. The Bolt database of \<^verbatim>\<open>validator/db/kv\<close> rests on a third-party store.
  The generated SSZ and protobuf code and the cryptography call libraries outside the repository. Locks
  (except those of the signers), metrics, logging, tracing and cancellation of contexts are left out.
\<close>

end
